(* ===== verification/Prelude.thy ===== *)
theory Prelude
  imports Main "HOL-Library.Word"
begin

text \<open>
  The prelude of the development: the machine types of the C sources, the outcome of a C
  function that mutates one object, the sequencing of such functions, and the lemmas on
  words and lists that the component theories share.

  A C function that takes a pointer to a mutable object and reports success by a \<open>BOOL\<close>
  (with its out parameters filled in on success) is a function from the object's state to an
  \<open>outcome\<close>. \<open>Success v s\<close> is \<open>TRUE\<close> with out parameters \<open>v\<close>, \<open>Failure s\<close> is \<open>FALSE\<close>, and
  both carry the state in which the object is left. \<open>Fault\<close> is every way in which the call does
  not come back: a failed \<open>WINPR_ASSERT\<close>, a write through a null pointer, an access outside an
  allocation and a loop that never ends. Assertions are modelled as enabled; where a theorem
  shows that no \<open>Fault\<close> arises, a build without assertions behaves the same.

  Sizes (\<open>size_t\<close>) are natural numbers, with the reduction modulo \<open>SIZE_MOD\<close> written out at
  every operation that can leave the range; fixed-width integers are words.
\<close>

unbundle bit_operations_syntax

named_theorems c_simps \<open>unfolding rules for the outcome combinators\<close>
named_theorems word_bytes \<open>rewriting of words taken apart into bytes and put together again\<close>

type_synonym byte = "8 word"

section \<open>Outcomes of C functions\<close>

datatype fault = AssertionFailure | NullDereference | OutOfBoundsAccess | NonTermination

datatype ('s, 'a) outcome = Fault fault | Failure 's | Success 'a 's

type_synonym ('s, 'a) cfun = "'s \<Rightarrow> ('s, 'a) outcome"

definition bind_c :: "('s, 'a) cfun \<Rightarrow> ('a \<Rightarrow> ('s, 'b) cfun) \<Rightarrow> ('s, 'b) cfun" where
  "bind_c f k s = (case f s of Fault e \<Rightarrow> Fault e | Failure s' \<Rightarrow> Failure s' | Success v s' \<Rightarrow> k v s')"

definition return_c :: "'a \<Rightarrow> ('s, 'a) cfun" where
  "return_c v s = Success v s"

definition fail_c :: "('s, 'a) cfun" where
  "fail_c s = Failure s"

definition assert_c :: "bool \<Rightarrow> ('s, unit) cfun" where
  "assert_c b s = (if b then Success () s else Fault AssertionFailure)"

lemmas [c_simps] = bind_c_def return_c_def fail_c_def assert_c_def

lemma bind_c_assoc: "bind_c (bind_c f g) h = bind_c f (\<lambda>v. bind_c (g v) h)"
  by (rule ext) (simp add: bind_c_def split: outcome.split)

lemma bind_c_return [simp]: "bind_c (return_c v) k = k v"
  by (rule ext) (simp add: bind_c_def return_c_def)

lemma bind_c_Success: "f s = Success v s' \<Longrightarrow> bind_c f k s = k v s'"
  by (simp add: bind_c_def)

text \<open>The range of \<open>size_t\<close> on a 64-bit target.\<close>

abbreviation SIZE_MOD :: nat where
  "SIZE_MOD \<equiv> 2 ^ 64"

text \<open>
  \<open>WINPR_ASSERTING_INT_CAST\<close>: the cast aborts when the value changes. For unsigned operands the
  second assertion (the sign is kept) follows from the first.
\<close>

definition asserting_int_cast :: "'a::len word \<Rightarrow> ('s, 'b::len word) cfun" where
  "asserting_int_cast v = bind_c (assert_c ((ucast (ucast v :: 'b word) :: 'a word) = v))
     (\<lambda>_. return_c (ucast v))"

section \<open>Words and their bytes\<close>

lemma ucast_and_mask_word [word_bytes]:
  "LENGTH('b::len) = n \<Longrightarrow> (ucast (v AND mask n) :: 'b word) = ucast (v :: 'a::len word)"
  by (rule bit_word_eqI) (auto simp: bit_simps dest: bit_imp_le_length)

lemma numeral_mask_8: "(0xFF :: 'a::len word) = mask 8"
  by (simp add: mask_eq_exp_minus_1)

lemma numeral_mask_16: "(0xFFFF :: 'a::len word) = mask 16"
  by (simp add: mask_eq_exp_minus_1)

lemma numeral_mask_32: "(0xFFFFFFFF :: 'a::len word) = mask 32"
  by (simp add: mask_eq_exp_minus_1)

lemma ucast_and_FF [word_bytes]: "(ucast (v AND 0xFF) :: byte) = ucast (v :: 'a::len word)"
  by (simp add: numeral_mask_8 ucast_and_mask_word)

lemma ucast_and_FFFF [word_bytes]: "(ucast (v AND 0xFFFF) :: 16 word) = ucast (v :: 'a::len word)"
  by (simp add: numeral_mask_16 ucast_and_mask_word)

lemma ucast_and_FFFFFFFF [word_bytes]:
  "(ucast (v AND 0xFFFFFFFF) :: 32 word) = ucast (v :: 'a::len word)"
  by (simp add: numeral_mask_32 ucast_and_mask_word)

lemma and_80: "(b AND 0x80 \<noteq> (0 :: byte)) \<longleftrightarrow> 128 \<le> unat b"
proof -
  have "(0x80 :: byte) = push_bit 7 1" by simp
  then have "(b AND 0x80 \<noteq> 0) = bit b 7"
    by (simp add: bit_iff_and_push_bit_not_eq_0)
  also have "\<dots> = bit (unat b) 7" by (simp add: bit_unsigned_iff)
  also have "\<dots> = odd (unat b div 128)" by (simp add: bit_iff_odd)
  also have "\<dots> = (128 \<le> unat b)"
    using unsigned_less [where 'a = nat and 'b = 8, of b]
    by (cases "unat b div 128 = 0"; cases "unat b div 128 = 1") (auto simp: div_eq_0_iff)
  finally show ?thesis .
qed

lemma and_not_80: "unat (b AND NOT 0x80 :: byte) = unat b mod 128"
proof -
  have *: "(0x80 :: byte) = push_bit 7 1" by simp
  have "b AND NOT 0x80 = take_bit 7 b"
    by (rule bit_word_eqI) (auto simp: bit_simps * simp del: push_bit_of_1)
  then show ?thesis by (simp add: take_bit_eq_mod unat_mod)
qed

lemma unat_drop_bit: "unat (drop_bit n (w :: 'a::len word)) = unat w div 2 ^ n"
  by (simp only: unsigned_drop_bit_eq take_bit_nat_eq_self [OF unsigned_less])
    (simp only: drop_bit_eq_div)

lemma unat_or_8000: "unat (v OR 0x8000 :: 16 word) = unat v mod 32768 + 32768"
proof -
  have *: "(0x8000 :: 16 word) = push_bit 15 1" by simp
  have "v OR 0x8000 = take_bit 15 v OR 0x8000"
    by (rule bit_word_eqI) (auto simp: bit_simps * simp del: push_bit_of_1)
  also have "\<dots> = take_bit 15 v + 0x8000"
    by (rule disjunctive_add [symmetric]) (auto simp: bit_simps * simp del: push_bit_of_1)
  also have "unat \<dots> = unat v mod 32768 + 32768"
    by (simp add: take_bit_eq_mod unat_word_ariths unat_mod)
  finally show ?thesis .
qed

lemma unat_ucast: "unat (ucast (w :: 'a::len word) :: 'b::len word) = unat w mod 2 ^ LENGTH('b)"
  by (simp only: unsigned_ucast_eq) (simp only: take_bit_eq_mod)

lemma unat_byte_less: "unat (b :: byte) < 256"
  using unsigned_less [where 'a = nat and 'b = 8, of b] by simp

lemma ucast_ucast_id: "unat w < 2 ^ LENGTH('b) \<Longrightarrow>
    (ucast (ucast (w :: 'a::len word) :: 'b::len word) :: 'a word) = w"
  using unsigned_less [where 'a = nat, of w] by (simp only: word_unat_eq_iff unat_ucast mod_less)

lemma ucast_of_nat: "(ucast (w :: 'a::len word) :: 'b::len word) = of_nat (unat w)"
  by simp

lemma list_update_Cons_numeral [simp]:
  "(x # xs)[numeral v := y] = x # xs[pred_numeral v := y]"
  by (simp add: numeral_eq_Suc)

lemma replicate_Cons_numeral [simp]: "replicate (numeral v) x = x # replicate (pred_numeral v) x"
  by (simp add: numeral_eq_Suc)

lemma ucast_word_of_nat:
  "k < 2 ^ LENGTH('a) \<Longrightarrow> (ucast (word_of_nat k :: 'a::len word) :: 'b::len word) = word_of_nat k"
  by (simp only: ucast_of_nat unat_of_nat mod_less)

lemma bytes_of_word16 [word_bytes]:
  "push_bit 8 (ucast (ucast (drop_bit 8 v) :: byte)) OR ucast (ucast v :: byte) = (v :: 16 word)"
  by (rule bit_word_eqI) (auto simp: bit_simps not_less)

section \<open>Lists as memory\<close>

text \<open>\<open>overwrite xs i ys\<close> is the memory \<open>xs\<close> after \<open>memcpy (xs + i) ys\<close>.\<close>

definition overwrite :: "'a list \<Rightarrow> nat \<Rightarrow> 'a list \<Rightarrow> 'a list" where
  "overwrite xs i ys = take i xs @ ys @ drop (i + length ys) xs"

lemma length_overwrite [simp]:
  "i + length ys \<le> length xs \<Longrightarrow> length (overwrite xs i ys) = length xs"
  by (simp add: overwrite_def)

lemma take_overwrite [simp]: "i \<le> length xs \<Longrightarrow> take i (overwrite xs i ys) = take i xs"
  by (simp add: overwrite_def)

lemma take_overwrite_end [simp]:
  "i \<le> length xs \<Longrightarrow> take (i + length ys) (overwrite xs i ys) = take i xs @ ys"
  by (simp add: overwrite_def)

lemma overwrite_Nil [simp]: "overwrite xs i [] = xs"
  by (simp add: overwrite_def)

lemma overwrite_append:
  assumes "i + length ys \<le> length xs"
  shows "overwrite (overwrite xs i ys) (i + length ys) zs = overwrite xs i (ys @ zs)"
  using assms by (simp add: overwrite_def ac_simps)

lemma overwrite_Cons:
  assumes "i < length xs"
  shows "overwrite xs i (y # ys) = overwrite (xs[i := y]) (Suc i) ys"
  using assms by (simp add: overwrite_def take_Suc_conv_app_nth take_update_cancel)

lemma list_update_overwrite: "i < length xs \<Longrightarrow> xs[i := y] = overwrite xs i [y]"
  by (simp add: overwrite_Cons)

end
