(* ===== verification/Endian.thy ===== *)
theory Endian
  imports Prelude
begin

text \<open>
  The accessors of \<open>winpr/include/winpr/endian.h\<close>: reading and writing 8, 16, 32 and 64-bit
  integers at a byte address in either byte order. The address \<open>d\<close> is the memory from \<open>d\<close> on
  (a byte list) for the readers, and a memory with an offset for the writers, which return the
  updated memory. The pointers are arrays of the model, so the null checks always pass. A signed
  integer is the word with the same bits, read by \<open>sint\<close>.

  The locale \<open>scalar\<close> states what the stream layer relies on: a writer stores the bytes of the
  value and nothing else, and the reader is its inverse. Every accessor pair interprets it.
\<close>

section \<open>The accessors\<close>

definition data_get_le :: "nat \<Rightarrow> byte list \<Rightarrow> 'a::len word" where
  "data_get_le typesize ptr =
     foldl (\<lambda>v x. push_bit 8 v OR ucast (ptr ! (typesize - x - 1))) 0 [0..<typesize]"

definition data_get_be :: "nat \<Rightarrow> byte list \<Rightarrow> 'a::len word" where
  "data_get_be typesize ptr = foldl (\<lambda>v x. push_bit 8 v OR ucast (ptr ! x)) 0 [0..<typesize]"

definition winpr_Data_Get_UINT8 :: "byte list \<Rightarrow> 8 word" where
  "winpr_Data_Get_UINT8 d = d ! 0"

definition winpr_Data_Get_INT8 :: "byte list \<Rightarrow> 8 word" where
  "winpr_Data_Get_INT8 d = d ! 0"

definition winpr_Data_Get_UINT16 :: "byte list \<Rightarrow> 16 word" where
  "winpr_Data_Get_UINT16 = data_get_le 2"

definition winpr_Data_Get_UINT16_BE :: "byte list \<Rightarrow> 16 word" where
  "winpr_Data_Get_UINT16_BE = data_get_be 2"

definition winpr_Data_Get_INT16 :: "byte list \<Rightarrow> 16 word" where
  "winpr_Data_Get_INT16 d = winpr_Data_Get_UINT16 d"

definition winpr_Data_Get_INT16_BE :: "byte list \<Rightarrow> 16 word" where
  "winpr_Data_Get_INT16_BE d = winpr_Data_Get_UINT16_BE d"

definition winpr_Data_Get_UINT32 :: "byte list \<Rightarrow> 32 word" where
  "winpr_Data_Get_UINT32 = data_get_le 4"

definition winpr_Data_Get_UINT32_BE :: "byte list \<Rightarrow> 32 word" where
  "winpr_Data_Get_UINT32_BE = data_get_be 4"

definition winpr_Data_Get_INT32 :: "byte list \<Rightarrow> 32 word" where
  "winpr_Data_Get_INT32 d = winpr_Data_Get_UINT32 d"

definition winpr_Data_Get_INT32_BE :: "byte list \<Rightarrow> 32 word" where
  "winpr_Data_Get_INT32_BE d = winpr_Data_Get_UINT32_BE d"

definition winpr_Data_Get_UINT64 :: "byte list \<Rightarrow> 64 word" where
  "winpr_Data_Get_UINT64 = data_get_le 8"

definition winpr_Data_Get_UINT64_BE :: "byte list \<Rightarrow> 64 word" where
  "winpr_Data_Get_UINT64_BE = data_get_be 8"

definition winpr_Data_Get_INT64 :: "byte list \<Rightarrow> 64 word" where
  "winpr_Data_Get_INT64 d = winpr_Data_Get_UINT64 d"

definition winpr_Data_Get_INT64_BE :: "byte list \<Rightarrow> 64 word" where
  "winpr_Data_Get_INT64_BE d = winpr_Data_Get_UINT64_BE d"

definition winpr_Data_Write_UINT8 :: "byte list \<Rightarrow> nat \<Rightarrow> 8 word \<Rightarrow> byte list" where
  "winpr_Data_Write_UINT8 d i v = d[i := v]"

definition winpr_Data_Write_INT8 :: "byte list \<Rightarrow> nat \<Rightarrow> 8 word \<Rightarrow> byte list" where
  "winpr_Data_Write_INT8 d i v = d[i := v]"

definition winpr_Data_Write_UINT16 :: "byte list \<Rightarrow> nat \<Rightarrow> 16 word \<Rightarrow> byte list" where
  "winpr_Data_Write_UINT16 d i v =
     d[i := ucast (v AND 0xFF), i + 1 := ucast (drop_bit 8 v AND 0xFF)]"

definition winpr_Data_Write_UINT16_BE :: "byte list \<Rightarrow> nat \<Rightarrow> 16 word \<Rightarrow> byte list" where
  "winpr_Data_Write_UINT16_BE d i v =
     d[i + 1 := ucast (v AND 0xFF), i := ucast (drop_bit 8 v AND 0xFF)]"

definition winpr_Data_Write_INT16 :: "byte list \<Rightarrow> nat \<Rightarrow> 16 word \<Rightarrow> byte list" where
  "winpr_Data_Write_INT16 d i v =
     d[i := ucast (v AND 0xFF), i + 1 := ucast (signed_drop_bit 8 v AND 0xFF)]"

definition winpr_Data_Write_INT16_BE :: "byte list \<Rightarrow> nat \<Rightarrow> 16 word \<Rightarrow> byte list" where
  "winpr_Data_Write_INT16_BE d i v =
     d[i + 1 := ucast (v AND 0xFF), i := ucast (signed_drop_bit 8 v AND 0xFF)]"

definition winpr_Data_Write_UINT32 :: "byte list \<Rightarrow> nat \<Rightarrow> 32 word \<Rightarrow> byte list" where
  "winpr_Data_Write_UINT32 d i v =
     (let b = winpr_Data_Write_UINT16 d i (ucast (v AND 0xFFFF))
      in winpr_Data_Write_UINT16 b (i + 2) (ucast (drop_bit 16 v AND 0xFFFF)))"

definition winpr_Data_Write_UINT32_BE :: "byte list \<Rightarrow> nat \<Rightarrow> 32 word \<Rightarrow> byte list" where
  "winpr_Data_Write_UINT32_BE d i v =
     (let b = winpr_Data_Write_UINT16_BE d i (ucast (drop_bit 16 v AND 0xFFFF))
      in winpr_Data_Write_UINT16_BE b (i + 2) (ucast (v AND 0xFFFF)))"

definition winpr_Data_Write_INT32 :: "byte list \<Rightarrow> nat \<Rightarrow> 32 word \<Rightarrow> byte list" where
  "winpr_Data_Write_INT32 d i v =
     (let b = winpr_Data_Write_UINT16 d i (ucast (v AND 0xFFFF))
      in winpr_Data_Write_UINT16 b (i + 2) (ucast (signed_drop_bit 16 v AND 0xFFFF)))"

definition winpr_Data_Write_INT32_BE :: "byte list \<Rightarrow> nat \<Rightarrow> 32 word \<Rightarrow> byte list" where
  "winpr_Data_Write_INT32_BE d i v =
     (let b = winpr_Data_Write_UINT16_BE d i (ucast (signed_drop_bit 16 v AND 0xFFFF))
      in winpr_Data_Write_UINT16_BE b (i + 2) (ucast (v AND 0xFFFF)))"

definition winpr_Data_Write_UINT64 :: "byte list \<Rightarrow> nat \<Rightarrow> 64 word \<Rightarrow> byte list" where
  "winpr_Data_Write_UINT64 d i v =
     (let b = winpr_Data_Write_UINT32 d i (ucast (v AND 0xFFFFFFFF))
      in winpr_Data_Write_UINT32 b (i + 4) (ucast (drop_bit 32 v AND 0xFFFFFFFF)))"

definition winpr_Data_Write_UINT64_BE :: "byte list \<Rightarrow> nat \<Rightarrow> 64 word \<Rightarrow> byte list" where
  "winpr_Data_Write_UINT64_BE d i v =
     (let b = winpr_Data_Write_UINT32_BE d i (ucast (drop_bit 32 v AND 0xFFFFFFFF))
      in winpr_Data_Write_UINT32_BE b (i + 4) (ucast (v AND 0xFFFFFFFF)))"

definition winpr_Data_Write_INT64 :: "byte list \<Rightarrow> nat \<Rightarrow> 64 word \<Rightarrow> byte list" where
  "winpr_Data_Write_INT64 d i v =
     (let b = winpr_Data_Write_UINT32 d i (ucast (v AND 0xFFFFFFFF))
      in winpr_Data_Write_UINT32 b (i + 4) (ucast (signed_drop_bit 32 v AND 0xFFFFFFFF)))"

definition winpr_Data_Write_INT64_BE :: "byte list \<Rightarrow> nat \<Rightarrow> 64 word \<Rightarrow> byte list" where
  "winpr_Data_Write_INT64_BE d i v =
     (let b = winpr_Data_Write_UINT32_BE d i (ucast (signed_drop_bit 32 v AND 0xFFFFFFFF))
      in winpr_Data_Write_UINT32_BE b (i + 4) (ucast (v AND 0xFFFFFFFF)))"

section \<open>The byte sequences of integers\<close>

definition word_be :: "nat \<Rightarrow> 'a::len word \<Rightarrow> byte list" where
  "word_be n v = map (\<lambda>i. ucast (drop_bit (8 * (n - 1 - i)) v)) [0..<n]"

definition word_le :: "nat \<Rightarrow> 'a::len word \<Rightarrow> byte list" where
  "word_le n v = map (\<lambda>i. ucast (drop_bit (8 * i) v)) [0..<n]"

abbreviation be16 :: "16 word \<Rightarrow> byte list" where "be16 \<equiv> word_be 2"
abbreviation be32 :: "32 word \<Rightarrow> byte list" where "be32 \<equiv> word_be 4"
abbreviation be64 :: "64 word \<Rightarrow> byte list" where "be64 \<equiv> word_be 8"
abbreviation le16 :: "16 word \<Rightarrow> byte list" where "le16 \<equiv> word_le 2"
abbreviation le32 :: "32 word \<Rightarrow> byte list" where "le32 \<equiv> word_le 4"
abbreviation le64 :: "64 word \<Rightarrow> byte list" where "le64 \<equiv> word_le 8"

lemma length_word_be_le [simp]: "length (word_be n v) = n" "length (word_le n v) = n"
  by (simp_all add: word_be_def word_le_def)

lemma nth_word_be [simp]: "i < n \<Longrightarrow> word_be n v ! i = ucast (drop_bit (8 * (n - 1 - i)) v)"
  by (simp add: word_be_def)

lemma nth_word_le [simp]: "i < n \<Longrightarrow> word_le n v ! i = ucast (drop_bit (8 * i) v)"
  by (simp add: word_le_def)

lemma word_be_append:
  "word_be (m + n) v = word_be m (drop_bit (8 * n) v) @ word_be n v"
  by (rule nth_equalityI) (auto simp: nth_append algebra_simps)

lemma word_le_append:
  "word_le (m + n) v = word_le m v @ word_le n (drop_bit (8 * m) v)"
  by (rule nth_equalityI) (auto simp: nth_append algebra_simps)

lemma word_be_ucast:
  "8 * n \<le> LENGTH('b::len) \<Longrightarrow> word_be n (ucast v :: 'b word) = word_be n (v :: 'a::len word)"
  by (rule nth_equalityI, simp, rule bit_word_eqI) (auto simp: bit_simps dest: bit_imp_le_length)

lemma word_le_ucast:
  "8 * n \<le> LENGTH('b::len) \<Longrightarrow> word_le n (ucast v :: 'b word) = word_le n (v :: 'a::len word)"
  by (rule nth_equalityI, simp, rule bit_word_eqI) (auto simp: bit_simps dest: bit_imp_le_length)

section \<open>Reading, bit by bit\<close>

lemma data_get_be_Suc: "data_get_be (Suc n) bs = push_bit 8 (data_get_be n bs) OR ucast (bs ! n)"
  by (simp add: data_get_be_def)

lemma bit_data_get_be:
  "bit (data_get_be n bs :: 'a::len word) k \<longleftrightarrow>
     k < LENGTH('a) \<and> k < 8 * n \<and> bit (bs ! (n - 1 - k div 8)) (k mod 8)"
proof (induction n arbitrary: k)
  case 0
  show ?case by (simp add: data_get_be_def)
next
  case (Suc n)
  show ?case
  proof (cases "k < 8")
    case True
    then show ?thesis by (auto simp: data_get_be_Suc bit_simps)
  next
    case False
    then have "\<not> bit (bs ! n) k" using bit_imp_le_length [of "bs ! n" k] by auto
    with False have "bit (data_get_be (Suc n) bs :: 'a word) k \<longleftrightarrow>
        k < LENGTH('a) \<and> bit (data_get_be n bs :: 'a word) (k - 8)"
      by (simp add: data_get_be_Suc bit_simps)
    also have "bit (data_get_be n bs :: 'a word) (k - 8) \<longleftrightarrow> k - 8 < LENGTH('a) \<and> k - 8 < 8 * n \<and>
        bit (bs ! (n - 1 - (k - 8) div 8)) ((k - 8) mod 8)"
      by (rule Suc.IH)
    also have "n - 1 - (k - 8) div 8 = Suc n - 1 - k div 8"
      using False by (simp add: le_div_geq)
    also have "(k - 8) mod 8 = k mod 8"
      using False by (simp add: le_mod_geq)
    also have "k - 8 < 8 * n \<longleftrightarrow> k < 8 * Suc n"
      using False by auto
    finally show ?thesis by (meson less_imp_diff_less)
  qed
qed

lemma data_get_le_be:
  "data_get_le n bs = data_get_be n (map (\<lambda>x. bs ! (n - x - 1)) [0..<n])"
  unfolding data_get_le_def data_get_be_def by (rule foldl_cong) auto

lemma bit_data_get_le:
  "bit (data_get_le n bs :: 'a::len word) k \<longleftrightarrow>
     k < LENGTH('a) \<and> k < 8 * n \<and> bit (bs ! (k div 8)) (k mod 8)"
  by (auto simp: data_get_le_be bit_data_get_be less_mult_imp_div_less mult.commute)

lemma data_get_be_word_be:
  fixes v :: "'a::len word"
  assumes "LENGTH('a) = 8 * n"
  shows "data_get_be n (word_be n v @ r) = v"
proof (rule bit_word_eqI)
  fix k assume "k < LENGTH('a)"
  with assms have "k div 8 < n" "k < 8 * n" by auto
  then show "bit (data_get_be n (word_be n v @ r) :: 'a word) k = bit v k"
    using \<open>k < LENGTH('a)\<close> by (auto simp: bit_data_get_be nth_append bit_simps)
qed

lemma data_get_le_word_le:
  fixes v :: "'a::len word"
  assumes "LENGTH('a) = 8 * n"
  shows "data_get_le n (word_le n v @ r) = v"
proof (rule bit_word_eqI)
  fix k assume "k < LENGTH('a)"
  with assms have "k div 8 < n" "k < 8 * n" by auto
  then show "bit (data_get_le n (word_le n v @ r) :: 'a word) k = bit v k"
    using \<open>k < LENGTH('a)\<close> by (auto simp: bit_data_get_le nth_append bit_simps)
qed

lemma word_be_data_get_be:
  assumes "LENGTH('a::len) = 8 * n" and "n \<le> length bs"
  shows "word_be n (data_get_be n bs :: 'a word) = take n bs"
proof (rule nth_equalityI)
  fix i assume "i < length (word_be n (data_get_be n bs :: 'a word))"
  then have i: "i < n" by simp
  show "word_be n (data_get_be n bs :: 'a word) ! i = take n bs ! i"
    by (rule bit_word_eqI) (use i assms in \<open>auto simp: bit_simps bit_data_get_be\<close>)
qed (use assms in simp)

lemma word_le_data_get_le:
  assumes "LENGTH('a::len) = 8 * n" and "n \<le> length bs"
  shows "word_le n (data_get_le n bs :: 'a word) = take n bs"
proof (rule nth_equalityI)
  fix i assume "i < length (word_le n (data_get_le n bs :: 'a word))"
  then have i: "i < n" by simp
  show "word_le n (data_get_le n bs :: 'a word) ! i = take n bs ! i"
    by (rule bit_word_eqI) (use i assms in \<open>auto simp: bit_simps bit_data_get_le\<close>)
qed (use assms in simp)

lemma data_get_be_take: "data_get_be n (take n bs) = data_get_be n bs"
  unfolding data_get_be_def by (rule foldl_cong) auto

lemma data_get_le_take: "data_get_le n (take n bs) = data_get_le n bs"
  unfolding data_get_le_def by (rule foldl_cong) auto

section \<open>The contract of an accessor pair\<close>

text \<open>
  \<open>store\<close> writes a value at an offset of a memory, \<open>fetch\<close> reads one at the start of a memory, and
  \<open>encode\<close> is the value's representation in \<open>width\<close> bytes.
\<close>

locale scalar =
  fixes width :: nat
    and store :: "byte list \<Rightarrow> nat \<Rightarrow> 'a \<Rightarrow> byte list"
    and fetch :: "byte list \<Rightarrow> 'a"
    and encode :: "'a \<Rightarrow> byte list"
  assumes length_encode [simp]: "length (encode v) = width"
    and store_encode: "i + width \<le> length d \<Longrightarrow> store d i v = overwrite d i (encode v)"
    and fetch_encode: "fetch (encode v @ r) = v"
    and fetch_take: "fetch (take width bs) = fetch bs"
    and encode_fetch: "width \<le> length bs \<Longrightarrow> encode (fetch bs) = take width bs"
begin

lemma fetch_store:
  assumes "i + width \<le> length d"
  shows "fetch (drop i (store d i v)) = v"
  using assms by (simp add: store_encode overwrite_def fetch_encode)

lemma length_store: "i + width \<le> length d \<Longrightarrow> length (store d i v) = length d"
  by (simp add: store_encode)

lemma store_frame:
  assumes "i + width \<le> length d" and "j < i \<or> i + width \<le> j"
  shows "store d i v ! j = d ! j"
  using assms by (auto simp: store_encode overwrite_def nth_append)

lemma encode_inj:
  assumes "encode v @ xs = encode w @ ys"
  shows "v = w \<and> xs = ys"
proof -
  have "v = fetch (encode v @ xs)" by (simp only: fetch_encode)
  also have "\<dots> = w" by (simp only: assms fetch_encode)
  finally show ?thesis using assms by simp
qed

lemma store_fetch:
  assumes "i + width \<le> length d"
  shows "store d i (fetch (drop i d)) = d"
proof -
  have "take width (drop i d) @ drop (i + width) d = drop i d"
    using append_take_drop_id [of width "drop i d"] by (simp add: add.commute)
  with assms show ?thesis by (simp add: store_encode encode_fetch overwrite_def)
qed

end

lemma overwrite_pair:
  "Suc (Suc i) \<le> length d \<Longrightarrow> d[i := a, Suc i := b] = overwrite d i [a, b]"
  by (simp add: overwrite_Cons)

lemma overwrite_words:
  assumes "i + length xs + length ys \<le> length d"
  shows "overwrite (overwrite d i xs) (i + length xs) ys = overwrite d i (xs @ ys)"
  using assms by (intro overwrite_append) simp

lemma word_be_2: "word_be 2 v = [ucast (drop_bit 8 v), ucast v]"
  by (simp add: word_be_def upt_rec)

lemma word_le_2: "word_le 2 v = [ucast v, ucast (drop_bit 8 v)]"
  by (simp add: word_le_def upt_rec)

lemma word_1: "word_be 1 v = [ucast v]" "word_le 1 v = [ucast v]"
  by (simp_all add: word_be_def word_le_def)

lemma signed_drop_bit_8 [word_bytes]:
  "(ucast (signed_drop_bit 8 (v :: 16 word)) :: byte) = ucast (drop_bit 8 v)"
  by (rule bit_word_eqI) (auto simp: bit_simps)

lemma signed_drop_bit_16 [word_bytes]:
  "(ucast (signed_drop_bit 16 (v :: 32 word)) :: 16 word) = ucast (drop_bit 16 v)"
  by (rule bit_word_eqI) (auto simp: bit_simps)

lemma signed_drop_bit_32 [word_bytes]:
  "(ucast (signed_drop_bit 32 (v :: 64 word)) :: 32 word) = ucast (drop_bit 32 v)"
  by (rule bit_word_eqI) (auto simp: bit_simps)

lemma Write_UINT16_overwrite:
  "i + 2 \<le> length d \<Longrightarrow> winpr_Data_Write_UINT16 d i v = overwrite d i (le16 v)"
  by (simp add: winpr_Data_Write_UINT16_def word_bytes word_le_2 overwrite_pair)

lemma Write_UINT16_BE_overwrite:
  "i + 2 \<le> length d \<Longrightarrow> winpr_Data_Write_UINT16_BE d i v = overwrite d i (be16 v)"
  by (simp add: winpr_Data_Write_UINT16_BE_def word_bytes word_be_2 overwrite_pair [symmetric]
      list_update_swap [of "Suc i" i])

lemma Write_UINT32_overwrite:
  "i + 4 \<le> length d \<Longrightarrow> winpr_Data_Write_UINT32 d i v = overwrite d i (le32 v)"
  using overwrite_words [of i "word_le 2 v" "word_le 2 (drop_bit 16 v)" d] word_le_append [of 2 2 v]
  by (simp add: winpr_Data_Write_UINT32_def word_bytes Write_UINT16_overwrite word_le_ucast)

lemma Write_UINT32_BE_overwrite:
  "i + 4 \<le> length d \<Longrightarrow> winpr_Data_Write_UINT32_BE d i v = overwrite d i (be32 v)"
  using overwrite_words [of i "word_be 2 (drop_bit 16 v)" "word_be 2 v" d] word_be_append [of 2 2 v]
  by (simp add: winpr_Data_Write_UINT32_BE_def word_bytes Write_UINT16_BE_overwrite word_be_ucast)

lemma Write_UINT64_overwrite:
  "i + 8 \<le> length d \<Longrightarrow> winpr_Data_Write_UINT64 d i v = overwrite d i (le64 v)"
  using overwrite_words [of i "word_le 4 v" "word_le 4 (drop_bit 32 v)" d] word_le_append [of 4 4 v]
  by (simp add: winpr_Data_Write_UINT64_def word_bytes Write_UINT32_overwrite word_le_ucast)

lemma Write_UINT64_BE_overwrite:
  "i + 8 \<le> length d \<Longrightarrow> winpr_Data_Write_UINT64_BE d i v = overwrite d i (be64 v)"
  using overwrite_words [of i "word_be 4 (drop_bit 32 v)" "word_be 4 v" d] word_be_append [of 4 4 v]
  by (simp add: winpr_Data_Write_UINT64_BE_def word_bytes Write_UINT32_BE_overwrite word_be_ucast)

text \<open>The signed writers store the same bytes as the unsigned ones.\<close>

lemma Write_INT_UINT:
  "winpr_Data_Write_INT8 = winpr_Data_Write_UINT8"
  "winpr_Data_Write_INT16 = winpr_Data_Write_UINT16"
  "winpr_Data_Write_INT16_BE = winpr_Data_Write_UINT16_BE"
  "winpr_Data_Write_INT32 = winpr_Data_Write_UINT32"
  "winpr_Data_Write_INT32_BE = winpr_Data_Write_UINT32_BE"
  "winpr_Data_Write_INT64 = winpr_Data_Write_UINT64"
  "winpr_Data_Write_INT64_BE = winpr_Data_Write_UINT64_BE"
  by (intro ext; simp add: winpr_Data_Write_INT8_def winpr_Data_Write_UINT8_def
      winpr_Data_Write_INT16_def winpr_Data_Write_UINT16_def winpr_Data_Write_INT16_BE_def
      winpr_Data_Write_UINT16_BE_def winpr_Data_Write_INT32_def winpr_Data_Write_UINT32_def
      winpr_Data_Write_INT32_BE_def winpr_Data_Write_UINT32_BE_def winpr_Data_Write_INT64_def
      winpr_Data_Write_UINT64_def winpr_Data_Write_INT64_BE_def winpr_Data_Write_UINT64_BE_def
      word_bytes)+

lemmas get_defs = winpr_Data_Get_UINT8_def winpr_Data_Get_UINT16_def winpr_Data_Get_UINT16_BE_def
  winpr_Data_Get_UINT32_def winpr_Data_Get_UINT32_BE_def winpr_Data_Get_UINT64_def
  winpr_Data_Get_UINT64_BE_def

lemmas get_laws = data_get_be_word_be data_get_le_word_le data_get_be_take data_get_le_take
  word_be_data_get_be word_le_data_get_le

interpretation u8: scalar "Suc 0" winpr_Data_Write_UINT8 winpr_Data_Get_UINT8 "\<lambda>v. [v]"
  by unfold_locales
    (auto simp: winpr_Data_Write_UINT8_def winpr_Data_Get_UINT8_def list_update_overwrite
      Suc_le_eq take_Suc_conv_app_nth)

interpretation u16le: scalar 2 winpr_Data_Write_UINT16 winpr_Data_Get_UINT16 le16
  by unfold_locales (simp_all add: get_defs get_laws Write_UINT16_overwrite)

interpretation u16be: scalar 2 winpr_Data_Write_UINT16_BE winpr_Data_Get_UINT16_BE be16
  by unfold_locales (simp_all add: get_defs get_laws Write_UINT16_BE_overwrite)

interpretation u32le: scalar 4 winpr_Data_Write_UINT32 winpr_Data_Get_UINT32 le32
  by unfold_locales (simp_all add: get_defs get_laws Write_UINT32_overwrite)

interpretation u32be: scalar 4 winpr_Data_Write_UINT32_BE winpr_Data_Get_UINT32_BE be32
  by unfold_locales (simp_all add: get_defs get_laws Write_UINT32_BE_overwrite)

interpretation u64le: scalar 8 winpr_Data_Write_UINT64 winpr_Data_Get_UINT64 le64
  by unfold_locales (simp_all add: get_defs get_laws Write_UINT64_overwrite)

interpretation u64be: scalar 8 winpr_Data_Write_UINT64_BE winpr_Data_Get_UINT64_BE be64
  by unfold_locales (simp_all add: get_defs get_laws Write_UINT64_BE_overwrite)

text \<open>The signed accessors: an arithmetic shift moves in copies of the sign, which the mask removes.\<close>

lemma signed_shift_masked:
  fixes v :: "'a::len word"
  assumes "n + k \<le> LENGTH('a)"
  shows "signed_drop_bit n v AND mask k = drop_bit n v AND mask k"
  using assms by (intro bit_word_eqI) (auto simp: bit_simps min_def)

lemma signed_shift_bytes:
  "signed_drop_bit 8 (v :: 16 word) AND 0xFF = drop_bit 8 v AND 0xFF"
  "signed_drop_bit 16 (w :: 32 word) AND 0xFFFF = drop_bit 16 w AND 0xFFFF"
  "signed_drop_bit 32 (x :: 64 word) AND 0xFFFFFFFF = drop_bit 32 x AND 0xFFFFFFFF"
  unfolding numeral_mask_8 numeral_mask_16 numeral_mask_32 by (simp_all add: signed_shift_masked)

lemma signed_writers:
  "winpr_Data_Write_INT8 = winpr_Data_Write_UINT8"
  "winpr_Data_Write_INT16 = winpr_Data_Write_UINT16" "winpr_Data_Write_INT16_BE = winpr_Data_Write_UINT16_BE"
  "winpr_Data_Write_INT32 = winpr_Data_Write_UINT32" "winpr_Data_Write_INT32_BE = winpr_Data_Write_UINT32_BE"
  "winpr_Data_Write_INT64 = winpr_Data_Write_UINT64" "winpr_Data_Write_INT64_BE = winpr_Data_Write_UINT64_BE"
  by (intro ext; simp only: winpr_Data_Write_INT8_def winpr_Data_Write_UINT8_def winpr_Data_Write_INT16_def
      winpr_Data_Write_UINT16_def winpr_Data_Write_INT16_BE_def winpr_Data_Write_UINT16_BE_def
      winpr_Data_Write_INT32_def winpr_Data_Write_UINT32_def winpr_Data_Write_INT32_BE_def
      winpr_Data_Write_UINT32_BE_def winpr_Data_Write_INT64_def winpr_Data_Write_UINT64_def
      winpr_Data_Write_INT64_BE_def winpr_Data_Write_UINT64_BE_def signed_shift_bytes)+

lemma signed_readers:
  "winpr_Data_Get_INT8 = winpr_Data_Get_UINT8"
  "winpr_Data_Get_INT16 = winpr_Data_Get_UINT16" "winpr_Data_Get_INT16_BE = winpr_Data_Get_UINT16_BE"
  "winpr_Data_Get_INT32 = winpr_Data_Get_UINT32" "winpr_Data_Get_INT32_BE = winpr_Data_Get_UINT32_BE"
  "winpr_Data_Get_INT64 = winpr_Data_Get_UINT64" "winpr_Data_Get_INT64_BE = winpr_Data_Get_UINT64_BE"
  by (intro ext; simp only: winpr_Data_Get_INT8_def winpr_Data_Get_UINT8_def winpr_Data_Get_INT16_def
      winpr_Data_Get_INT16_BE_def winpr_Data_Get_INT32_def winpr_Data_Get_INT32_BE_def
      winpr_Data_Get_INT64_def winpr_Data_Get_INT64_BE_def)+

text \<open>
  A writer and an accessor of \<open>w\<close> bytes: at every place of a buffer that holds \<open>w\<close> bytes the value stored
  there is the value loaded, and exactly those \<open>w\<close> bytes may differ from before.
\<close>

definition stores_at :: "nat \<Rightarrow> (byte list \<Rightarrow> nat \<Rightarrow> 'a \<Rightarrow> byte list) \<Rightarrow> (byte list \<Rightarrow> 'a) \<Rightarrow> bool" where
  "stores_at w store fetch \<longleftrightarrow> (\<forall>d i v. i + w \<le> length d \<longrightarrow>
     fetch (drop i (store d i v)) = v \<and> length (store d i v) = length d \<and>
     take i (store d i v) = take i d \<and> drop (i + w) (store d i v) = drop (i + w) d)"

context scalar
begin

lemma stores_at_width: "stores_at width store fetch"
  by (simp add: stores_at_def store_encode overwrite_def fetch_encode)

end

section \<open>The number a byte sequence denotes\<close>

definition be_nat :: "byte list \<Rightarrow> nat" where
  "be_nat bs = foldl (\<lambda>a b. 256 * a + unat b) 0 bs"

definition le_nat :: "byte list \<Rightarrow> nat" where
  "le_nat bs = be_nat (rev bs)"

lemma be_nat_Nil [simp]: "be_nat [] = 0"
  by (simp add: be_nat_def)

lemma be_nat_snoc [simp]: "be_nat (bs @ [b]) = 256 * be_nat bs + unat b"
  by (simp add: be_nat_def)

lemma be_nat_Cons: "be_nat (b # bs) = unat b * 256 ^ length bs + be_nat bs"
  by (induction bs rule: rev_induct) (simp_all add: be_nat_def algebra_simps)

lemma le_nat_Nil [simp]: "le_nat [] = 0"
  by (simp add: le_nat_def)

lemma le_nat_Cons [simp]: "le_nat (b # bs) = unat b + 256 * le_nat bs"
  by (simp add: le_nat_def)

lemma be_nat_less: "be_nat bs < 256 ^ length bs"
proof (induction bs rule: rev_induct)
  case (snoc b bs)
  then show ?case using unat_byte_less [of b] by simp
qed simp

lemma push_or_ucast:
  "push_bit 8 v OR ucast (b :: byte) = v * 256 + (ucast b :: 'a::len word)"
proof -
  have "push_bit 8 v + (ucast b :: 'a word) = push_bit 8 v OR ucast b"
    by (rule disjunctive_add) (auto simp: bit_push_bit_iff bit_ucast_iff dest: bit_imp_le_length)
  then show ?thesis by (simp add: push_bit_eq_mult)
qed

lemma data_get_be_nat:
  "n \<le> length ptr \<Longrightarrow> data_get_be n ptr = (word_of_nat (be_nat (take n ptr)) :: 'a::len word)"
proof (induction n)
  case 0
  then show ?case by (simp add: data_get_be_def)
next
  case (Suc n)
  have "data_get_be (Suc n) ptr = push_bit 8 (data_get_be n ptr) OR (ucast (ptr ! n) :: 'a word)"
    by (simp add: data_get_be_def)
  with Suc show ?case
    by (simp add: push_or_ucast take_Suc_conv_app_nth mult.commute)
qed

lemma data_get_le_rev:
  assumes "n \<le> length ptr"
  shows "data_get_le n ptr = data_get_be n (rev (take n ptr))"
proof -
  have "ptr ! (n - x - 1) = rev (take n ptr) ! x" if "x < n" for x
    using that assms by (simp add: rev_nth)
  then show ?thesis unfolding data_get_le_def data_get_be_def
    by (intro foldl_cong) auto
qed

lemma data_get_le_nat:
  assumes "n \<le> length ptr"
  shows "data_get_le n ptr = word_of_nat (le_nat (take n ptr))"
  using assms data_get_be_nat [of n "rev (take n ptr)"]
  by (simp add: data_get_le_rev le_nat_def)

lemma be_nat_word_be:
  "be_nat (word_be n (v :: 'a::len word)) = unat v mod 256 ^ n"
proof (induction n arbitrary: v)
  case 0
  then show ?case by (simp add: word_be_def)
next
  case (Suc n)
  have "word_be (Suc n) v = word_be n (drop_bit 8 v) @ [ucast v]"
    using word_be_append [of n 1 v] by (simp add: word_1 [unfolded One_nat_def])
  then show ?case using Suc [of "drop_bit 8 v"]
    by (simp add: unat_ucast unat_drop_bit mod_mult2_eq)
qed

lemma ucast_get_u16_be:
  assumes "2 \<le> length bs"
  shows "(ucast (winpr_Data_Get_UINT16_BE bs) :: 32 word) = word_of_nat (be_nat (take 2 bs))"
  using assms be_nat_less [of "take 2 bs"]
  by (simp add: winpr_Data_Get_UINT16_BE_def data_get_be_nat ucast_word_of_nat)

section \<open>Properties\<close>

text \<open>
  C36: the accessors of \<open>endian.h\<close> denote numbers: a big-endian (little-endian) accessor returns the
  number whose base-256 digits are the bytes read forwards (backwards), for every width.
\<close>

theorem accessors_denote_numbers:
  assumes "8 \<le> length d"
  shows "winpr_Data_Get_UINT16_BE d = word_of_nat (be_nat (take 2 d)) \<and>
    winpr_Data_Get_UINT32_BE d = word_of_nat (be_nat (take 4 d)) \<and>
    winpr_Data_Get_UINT64_BE d = word_of_nat (be_nat (take 8 d)) \<and>
    winpr_Data_Get_UINT16 d = word_of_nat (le_nat (take 2 d)) \<and>
    winpr_Data_Get_UINT32 d = word_of_nat (le_nat (take 4 d)) \<and>
    winpr_Data_Get_UINT64 d = word_of_nat (le_nat (take 8 d))"
  using assms by (simp add: get_defs data_get_be_nat data_get_le_nat)

theorem accessors_denote_numbers_witness:
  "winpr_Data_Get_UINT16_BE [1, 2, 3, 4, 5, 6, 7, 8] = 258 \<and>
   winpr_Data_Get_UINT16 [1, 2, 3, 4, 5, 6, 7, 8] = 513"
  using accessors_denote_numbers [of "[1, 2, 3, 4, 5, 6, 7, 8]"] by (simp add: be_nat_def)

text \<open>
  C37: storing a value with a writer of \<open>endian.h\<close> and loading it with the accessor of the same width,
  signedness and order returns the value; the writer of a \<open>w\<close>-byte value changes the \<open>w\<close> bytes at its place
  and no other byte of the buffer, whose length it keeps.
\<close>

theorem store_load:
  "stores_at 1 winpr_Data_Write_UINT8 winpr_Data_Get_UINT8 \<and> stores_at 1 winpr_Data_Write_INT8 winpr_Data_Get_INT8 \<and>
   stores_at 2 winpr_Data_Write_UINT16 winpr_Data_Get_UINT16 \<and>
   stores_at 2 winpr_Data_Write_UINT16_BE winpr_Data_Get_UINT16_BE \<and>
   stores_at 2 winpr_Data_Write_INT16 winpr_Data_Get_INT16 \<and>
   stores_at 2 winpr_Data_Write_INT16_BE winpr_Data_Get_INT16_BE \<and>
   stores_at 4 winpr_Data_Write_UINT32 winpr_Data_Get_UINT32 \<and>
   stores_at 4 winpr_Data_Write_UINT32_BE winpr_Data_Get_UINT32_BE \<and>
   stores_at 4 winpr_Data_Write_INT32 winpr_Data_Get_INT32 \<and>
   stores_at 4 winpr_Data_Write_INT32_BE winpr_Data_Get_INT32_BE \<and>
   stores_at 8 winpr_Data_Write_UINT64 winpr_Data_Get_UINT64 \<and>
   stores_at 8 winpr_Data_Write_UINT64_BE winpr_Data_Get_UINT64_BE \<and>
   stores_at 8 winpr_Data_Write_INT64 winpr_Data_Get_INT64 \<and>
   stores_at 8 winpr_Data_Write_INT64_BE winpr_Data_Get_INT64_BE"
  unfolding signed_writers signed_readers
  using u8.stores_at_width u16le.stores_at_width u16be.stores_at_width u32le.stores_at_width
    u32be.stores_at_width u64le.stores_at_width u64be.stores_at_width by simp

end
