(* ===== verification/WStream.thy ===== *)
theory WStream
  imports Endian
begin

text \<open>
  The byte stream \<open>wStream\<close> of \<open>winpr/include/winpr/stream.h\<close> and
  \<open>winpr/libwinpr/utils/stream.c\<close>, through which every protocol layer reads and writes.

  The storage is a byte list of \<open>s_capacity\<close> bytes and the cursor an offset into it, so
  \<open>buffer <= pointer\<close> holds by construction and the object pointer is never null. The allocator is
  an argument \<open>malloc\<close> of the operations that allocate: \<open>malloc n\<close> is \<open>None\<close> when the allocation
  is refused and otherwise \<open>n\<close> bytes of unspecified content.

  The second half states the contracts of the layers above. \<open>reads f p\<close> says that the function \<open>f\<close>
  on a readable stream returns exactly what the parser \<open>p\<close> makes of the unread bytes, leaves the
  cursor behind the bytes \<open>p\<close> consumed and never faults. \<open>writes f v bs\<close> says that \<open>f\<close> appends
  \<open>bs\<close> when there is room, and \<open>emits\<close> that it makes the room itself.
\<close>

named_theorems stream_defs \<open>definitions of the stream operations\<close>
named_theorems stream_exec \<open>symbolic execution of stream operations on well-formed streams\<close>

type_synonym malloc = "nat \<Rightarrow> byte list option"

record wStream =
  s_buffer :: "byte list"
  s_pointer :: nat
  s_length :: nat
  s_capacity :: nat
  s_count :: "32 word"
  s_pool :: "nat option"
  s_isAllocatedStream :: bool
  s_isOwner :: bool

section \<open>Creation, position and length\<close>

definition Stream_Capacity :: "wStream \<Rightarrow> nat" where
  "Stream_Capacity s = s_capacity s"

definition Stream_Length :: "wStream \<Rightarrow> nat" where
  "Stream_Length s = s_length s"

definition Stream_GetPosition :: "wStream \<Rightarrow> nat" where
  "Stream_GetPosition s = s_pointer s"

text \<open>The structure has 56 bytes on a 64-bit target: six words and two \<open>BOOL\<close>s.\<close>

definition sizeof_wStream :: nat where
  "sizeof_wStream = 56"

definition Stream_New :: "malloc \<Rightarrow> byte list option \<Rightarrow> nat \<Rightarrow> wStream option" where
  "Stream_New malloc buf sz =
     (if buf = None \<and> sz = 0 then None
      else if malloc sizeof_wStream = None then None
      else case (case buf of Some b \<Rightarrow> Some b | None \<Rightarrow> malloc sz) of
        None \<Rightarrow> None
      | Some b \<Rightarrow> Some \<lparr>s_buffer = b, s_pointer = 0, s_length = sz, s_capacity = sz,
          s_count = 1, s_pool = None, s_isAllocatedStream = True, s_isOwner = True\<rparr>)"

definition Stream_StaticInit :: "byte list \<Rightarrow> nat \<Rightarrow> wStream" where
  "Stream_StaticInit b sz =
     \<lparr>s_buffer = b, s_pointer = 0, s_length = sz, s_capacity = sz,
      s_count = 1, s_pool = None, s_isAllocatedStream = False, s_isOwner = False\<rparr>"

definition Stream_StaticConstInit :: "byte list \<Rightarrow> nat \<Rightarrow> wStream" where
  "Stream_StaticConstInit b sz = Stream_StaticInit b sz"

definition Stream_EnsureValidity :: "(wStream, unit) cfun" where
  "Stream_EnsureValidity s =
     (if s_pointer s \<le> s_capacity s \<and> s_length s \<le> s_capacity s
      then Success () s else Fault AssertionFailure)"

text \<open>\<open>Stream_Free\<close> reports which of the storage and the stream structure it releases.\<close>

definition Stream_Free :: "bool \<Rightarrow> (wStream, bool \<times> bool) cfun" where
  "Stream_Free bFreeBuffer = bind_c Stream_EnsureValidity
     (\<lambda>_ s. Success (bFreeBuffer \<and> s_isOwner s, s_isAllocatedStream s) s)"

definition Stream_SetLength :: "nat \<Rightarrow> (wStream, unit) cfun" where
  "Stream_SetLength l s =
     (if l > Stream_Capacity s then Failure (s\<lparr>s_length := 0\<rparr>)
      else Success () (s\<lparr>s_length := l\<rparr>))"

definition Stream_SetPosition :: "nat \<Rightarrow> (wStream, unit) cfun" where
  "Stream_SetPosition p s =
     (if p > Stream_Capacity s then Failure (s\<lparr>s_pointer := 0\<rparr>)
      else Success () (s\<lparr>s_pointer := p\<rparr>))"

definition Stream_SealLength :: "(wStream, unit) cfun" where
  "Stream_SealLength = bind_c (\<lambda>s. assert_c (s_pointer s \<le> s_capacity s) s)
     (\<lambda>_ s. Success () (s\<lparr>s_length := s_pointer s\<rparr>))"

definition Stream_GetRemainingCapacity :: "(wStream, nat) cfun" where
  "Stream_GetRemainingCapacity = bind_c (\<lambda>s. assert_c (s_pointer s \<le> s_capacity s) s)
     (\<lambda>_ s. Success (s_capacity s - s_pointer s) s)"

definition Stream_GetRemainingLength :: "(wStream, nat) cfun" where
  "Stream_GetRemainingLength =
     bind_c (\<lambda>s. assert_c (s_length s \<le> s_capacity s) s)
     (\<lambda>_. bind_c (\<lambda>s. assert_c (s_pointer s \<le> s_length s) s)
     (\<lambda>_ s. Success (s_length s - s_pointer s) s))"

definition Stream_Clear :: "(wStream, unit) cfun" where
  "Stream_Clear s = Success () (s\<lparr>s_buffer := replicate (s_capacity s) 0\<rparr>)"

section \<open>Capacity and length checks\<close>

definition Stream_CheckAndLogRequiredCapacityWLogExVa :: "nat \<Rightarrow> nat \<Rightarrow> (wStream, unit) cfun" where
  "Stream_CheckAndLogRequiredCapacityWLogExVa nmemb sz =
     bind_c (assert_c (sz \<noteq> 0)) (\<lambda>_. bind_c Stream_GetRemainingCapacity
     (\<lambda>rem. if rem div sz < nmemb then fail_c else return_c ()))"

definition Stream_CheckAndLogRequiredCapacityExVa :: "nat \<Rightarrow> nat \<Rightarrow> (wStream, unit) cfun" where
  "Stream_CheckAndLogRequiredCapacityExVa nmemb sz =
     bind_c (assert_c (sz \<noteq> 0)) (\<lambda>_. bind_c Stream_GetRemainingCapacity
     (\<lambda>rem. if rem div sz < nmemb then Stream_CheckAndLogRequiredCapacityWLogExVa nmemb sz
            else return_c ()))"

definition Stream_CheckAndLogRequiredCapacityEx :: "nat \<Rightarrow> nat \<Rightarrow> (wStream, unit) cfun" where
  "Stream_CheckAndLogRequiredCapacityEx nmemb sz =
     bind_c (assert_c (sz \<noteq> 0)) (\<lambda>_. bind_c Stream_GetRemainingCapacity
     (\<lambda>rem. if rem div sz < nmemb
            then bind_c (Stream_CheckAndLogRequiredCapacityExVa nmemb sz) (\<lambda>_. fail_c)
            else return_c ()))"

definition Stream_CheckAndLogRequiredCapacityWLogEx :: "nat \<Rightarrow> nat \<Rightarrow> (wStream, unit) cfun" where
  "Stream_CheckAndLogRequiredCapacityWLogEx nmemb sz =
     bind_c (assert_c (sz \<noteq> 0)) (\<lambda>_. bind_c Stream_GetRemainingCapacity
     (\<lambda>rem. if rem div sz < nmemb
            then bind_c (Stream_CheckAndLogRequiredCapacityWLogExVa nmemb sz) (\<lambda>_. fail_c)
            else return_c ()))"

definition Stream_CheckAndLogRequiredCapacity :: "nat \<Rightarrow> (wStream, unit) cfun" where
  "Stream_CheckAndLogRequiredCapacity len = Stream_CheckAndLogRequiredCapacityEx len 1"

definition Stream_CheckAndLogRequiredLengthWLogExVa :: "nat \<Rightarrow> nat \<Rightarrow> (wStream, unit) cfun" where
  "Stream_CheckAndLogRequiredLengthWLogExVa nmemb sz =
     bind_c (assert_c (sz > 0)) (\<lambda>_. bind_c Stream_GetRemainingLength
     (\<lambda>rem. if rem div sz < nmemb then fail_c else return_c ()))"

definition Stream_CheckAndLogRequiredLengthExVa :: "nat \<Rightarrow> nat \<Rightarrow> (wStream, unit) cfun" where
  "Stream_CheckAndLogRequiredLengthExVa nmemb sz =
     bind_c (assert_c (sz > 0)) (\<lambda>_. bind_c Stream_GetRemainingLength
     (\<lambda>rem. if rem div sz < nmemb then Stream_CheckAndLogRequiredLengthWLogExVa nmemb sz
            else return_c ()))"

definition Stream_CheckAndLogRequiredLengthEx :: "nat \<Rightarrow> nat \<Rightarrow> (wStream, unit) cfun" where
  "Stream_CheckAndLogRequiredLengthEx nmemb sz =
     bind_c (assert_c (sz > 0)) (\<lambda>_. bind_c Stream_GetRemainingLength
     (\<lambda>rem. if rem div sz < nmemb
            then bind_c (Stream_CheckAndLogRequiredLengthExVa nmemb sz) (\<lambda>_. fail_c)
            else return_c ()))"

definition Stream_CheckAndLogRequiredLengthWLogEx :: "nat \<Rightarrow> nat \<Rightarrow> (wStream, unit) cfun" where
  "Stream_CheckAndLogRequiredLengthWLogEx nmemb sz =
     bind_c (assert_c (sz > 0)) (\<lambda>_. bind_c Stream_GetRemainingLength
     (\<lambda>rem. if rem div sz < nmemb
            then bind_c (Stream_CheckAndLogRequiredLengthWLogExVa nmemb sz) (\<lambda>_. fail_c)
            else return_c ()))"

definition Stream_CheckAndLogRequiredLength :: "nat \<Rightarrow> (wStream, unit) cfun" where
  "Stream_CheckAndLogRequiredLength len = Stream_CheckAndLogRequiredLengthEx len 1"

section \<open>Growing the storage\<close>

text \<open>
  The \<open>do \<dots> while\<close> loop of \<open>Stream_EnsureCapacity\<close>, which doubles a \<open>size_t\<close> until it reaches
  the requested size; \<open>None\<close> is a loop that does not end.
\<close>

partial_function (option) grow_capacity :: "nat \<Rightarrow> nat \<Rightarrow> nat option" where
  "grow_capacity c sz =
     (let c' = (c * 2) mod SIZE_MOD in if c' < sz then grow_capacity c' sz else Some c')"

text \<open>
  The storage after a successful (re)allocation \<open>b\<close>: the old bytes are kept, the rest is zeroed,
  the length becomes the new capacity and the position is set again.
\<close>

definition stream_resized :: "byte list \<Rightarrow> nat \<Rightarrow> (wStream, unit) cfun" where
  "stream_resized b new_capacity s =
     (let old_capacity = s_capacity s; position = s_pointer s;
          buf = take old_capacity (s_buffer s) @ drop old_capacity b
      in bind_c (Stream_SetPosition position) (\<lambda>_. return_c ())
           (s\<lparr>s_buffer := take old_capacity buf @ replicate (new_capacity - old_capacity) 0,
              s_capacity := new_capacity, s_length := new_capacity\<rparr>))"

definition Stream_EnsureCapacity :: "malloc \<Rightarrow> nat \<Rightarrow> (wStream, unit) cfun" where
  "Stream_EnsureCapacity malloc sz s =
     (if s_capacity s < sz then
        (case grow_capacity (s_capacity s) sz of
           None \<Rightarrow> Fault NonTermination
         | Some new_capacity \<Rightarrow>
             if \<not> s_isOwner s then
               (case malloc new_capacity of
                  None \<Rightarrow> Fault NullDereference
                | Some b \<Rightarrow> stream_resized b new_capacity (s\<lparr>s_isOwner := True\<rparr>))
             else
               (case malloc new_capacity of
                  None \<Rightarrow> Failure s
                | Some b \<Rightarrow> stream_resized b new_capacity s))
      else Success () s)"

definition Stream_EnsureRemainingCapacity :: "malloc \<Rightarrow> nat \<Rightarrow> (wStream, unit) cfun" where
  "Stream_EnsureRemainingCapacity malloc sz s =
     (if (Stream_GetPosition s + sz) mod SIZE_MOD > Stream_Capacity s
      then Stream_EnsureCapacity malloc ((Stream_Capacity s + sz) mod SIZE_MOD) s
      else Success () s)"

section \<open>Seeking\<close>

definition Stream_ConstPointer :: "(wStream, byte list) cfun" where
  "Stream_ConstPointer s = Success (drop (s_pointer s) (s_buffer s)) s"

definition Stream_Seek :: "nat \<Rightarrow> (wStream, unit) cfun" where
  "Stream_Seek offset = bind_c Stream_GetRemainingCapacity
     (\<lambda>rem. bind_c (assert_c (rem \<ge> offset))
     (\<lambda>_ s. Success () (s\<lparr>s_pointer := s_pointer s + offset\<rparr>)))"

definition Stream_Rewind :: "nat \<Rightarrow> (wStream, unit) cfun" where
  "Stream_Rewind offset = bind_c (\<lambda>s. assert_c (s_pointer s \<ge> offset) s)
     (\<lambda>_ s. Success () (s\<lparr>s_pointer := s_pointer s - offset\<rparr>))"

definition Stream_SafeSeek :: "nat \<Rightarrow> (wStream, unit) cfun" where
  "Stream_SafeSeek sz = bind_c (Stream_CheckAndLogRequiredLengthEx sz 1)
     (\<lambda>_. Stream_Seek sz)"

section \<open>Reading\<close>

text \<open>
  The pattern of every \<open>stream_read_*\<close> function: assert that the type's size is left, fetch the
  value at the cursor, and advance unless peeking.
\<close>

definition stream_read_scalar :: "nat \<Rightarrow> (byte list \<Rightarrow> 'a) \<Rightarrow> bool \<Rightarrow> (wStream, 'a) cfun" where
  "stream_read_scalar typesize get seek =
     bind_c Stream_GetRemainingLength (\<lambda>rem. bind_c (assert_c (rem \<ge> typesize))
     (\<lambda>_ s. let v = get (drop (s_pointer s) (s_buffer s))
             in (if seek then bind_c (Stream_Seek typesize) (\<lambda>_. return_c v) else return_c v) s))"

definition stream_read_u8 :: "bool \<Rightarrow> (wStream, 8 word) cfun" where
  "stream_read_u8 = stream_read_scalar 1 winpr_Data_Get_UINT8"

definition stream_read_u16_le :: "bool \<Rightarrow> (wStream, 16 word) cfun" where
  "stream_read_u16_le = stream_read_scalar 2 winpr_Data_Get_UINT16"

definition stream_read_u16_be :: "bool \<Rightarrow> (wStream, 16 word) cfun" where
  "stream_read_u16_be = stream_read_scalar 2 winpr_Data_Get_UINT16_BE"

definition stream_read_i16_le :: "bool \<Rightarrow> (wStream, 16 word) cfun" where
  "stream_read_i16_le = stream_read_scalar 2 winpr_Data_Get_INT16"

definition stream_read_i16_be :: "bool \<Rightarrow> (wStream, 16 word) cfun" where
  "stream_read_i16_be = stream_read_scalar 2 winpr_Data_Get_INT16_BE"

definition stream_read_u32_le :: "bool \<Rightarrow> (wStream, 32 word) cfun" where
  "stream_read_u32_le = stream_read_scalar 4 winpr_Data_Get_UINT32"

definition stream_read_u32_be :: "bool \<Rightarrow> (wStream, 32 word) cfun" where
  "stream_read_u32_be = stream_read_scalar 4 winpr_Data_Get_UINT32_BE"

definition stream_read_i32_le :: "bool \<Rightarrow> (wStream, 32 word) cfun" where
  "stream_read_i32_le = stream_read_scalar 4 winpr_Data_Get_INT32"

definition stream_read_i32_be :: "bool \<Rightarrow> (wStream, 32 word) cfun" where
  "stream_read_i32_be = stream_read_scalar 4 winpr_Data_Get_INT32_BE"

definition stream_read_u64_le :: "bool \<Rightarrow> (wStream, 64 word) cfun" where
  "stream_read_u64_le = stream_read_scalar 8 winpr_Data_Get_UINT64"

definition stream_read_u64_be :: "bool \<Rightarrow> (wStream, 64 word) cfun" where
  "stream_read_u64_be = stream_read_scalar 8 winpr_Data_Get_UINT64_BE"

definition stream_read_i64_le :: "bool \<Rightarrow> (wStream, 64 word) cfun" where
  "stream_read_i64_le = stream_read_scalar 8 winpr_Data_Get_INT64"

definition stream_read_i64_be :: "bool \<Rightarrow> (wStream, 64 word) cfun" where
  "stream_read_i64_be = stream_read_scalar 8 winpr_Data_Get_INT64_BE"

text \<open>
  \<open>stream_read_i8\<close> has no assertion of its own: it fetches first, and only the seek checks the
  remaining capacity. A fetch at the end of the storage is outside the allocation.
\<close>

definition stream_read_i8 :: "bool \<Rightarrow> (wStream, 8 word) cfun" where
  "stream_read_i8 seek s =
     (if s_pointer s < length (s_buffer s) then
        let v = winpr_Data_Get_INT8 (drop (s_pointer s) (s_buffer s))
        in (if seek then bind_c (Stream_Seek 1) (\<lambda>_. return_c v) else return_c v) s
      else Fault OutOfBoundsAccess)"

definition Stream_Read :: "nat \<Rightarrow> (wStream, byte list) cfun" where
  "Stream_Read n = bind_c Stream_GetRemainingCapacity (\<lambda>rem. bind_c (assert_c (rem \<ge> n))
     (\<lambda>_ s. bind_c (Stream_Seek n)
       (\<lambda>_. return_c (take n (drop (s_pointer s) (s_buffer s)))) s))"

definition Stream_Peek :: "nat \<Rightarrow> (wStream, byte list) cfun" where
  "Stream_Peek n = bind_c Stream_GetRemainingCapacity (\<lambda>rem. bind_c (assert_c (rem \<ge> n))
     (\<lambda>_ s. Success (take n (drop (s_pointer s) (s_buffer s))) s))"

definition Stream_Read_UINT8 :: "(wStream, 8 word) cfun" where
  "Stream_Read_UINT8 = stream_read_u8 True"

definition Stream_Read_UINT16 :: "(wStream, 16 word) cfun" where
  "Stream_Read_UINT16 = stream_read_u16_le True"

definition Stream_Read_UINT16_BE :: "(wStream, 16 word) cfun" where
  "Stream_Read_UINT16_BE = stream_read_u16_be True"

definition Stream_Read_UINT32 :: "(wStream, 32 word) cfun" where
  "Stream_Read_UINT32 = stream_read_u32_le True"

definition Stream_Read_UINT32_BE :: "(wStream, 32 word) cfun" where
  "Stream_Read_UINT32_BE = stream_read_u32_be True"

definition Stream_Peek_UINT8 :: "(wStream, 8 word) cfun" where
  "Stream_Peek_UINT8 = stream_read_u8 False"

section \<open>Writing\<close>

text \<open>
  The pattern of every \<open>Stream_Write_*\<close> function: assert that the capacity is left, store the value
  at the cursor, advance. The range assertions of the macros hold because the argument already has
  the type.
\<close>

definition stream_write_scalar ::
    "nat \<Rightarrow> (byte list \<Rightarrow> nat \<Rightarrow> 'a \<Rightarrow> byte list) \<Rightarrow> 'a \<Rightarrow> (wStream, unit) cfun" where
  "stream_write_scalar sz put v =
     bind_c Stream_GetRemainingCapacity (\<lambda>rem. bind_c (assert_c (rem \<ge> sz))
     (\<lambda>_ s. Success () (s\<lparr>s_buffer := put (s_buffer s) (s_pointer s) v,
                          s_pointer := s_pointer s + sz\<rparr>)))"

definition Stream_Write_INT8 :: "8 word \<Rightarrow> (wStream, unit) cfun" where
  "Stream_Write_INT8 = stream_write_scalar 1 winpr_Data_Write_INT8"

definition Stream_Write_UINT8 :: "8 word \<Rightarrow> (wStream, unit) cfun" where
  "Stream_Write_UINT8 = stream_write_scalar 1 winpr_Data_Write_UINT8"

definition Stream_Write_INT16 :: "16 word \<Rightarrow> (wStream, unit) cfun" where
  "Stream_Write_INT16 = stream_write_scalar 2 winpr_Data_Write_INT16"

definition Stream_Write_UINT16 :: "16 word \<Rightarrow> (wStream, unit) cfun" where
  "Stream_Write_UINT16 = stream_write_scalar 2 winpr_Data_Write_UINT16"

definition Stream_Write_UINT16_BE :: "16 word \<Rightarrow> (wStream, unit) cfun" where
  "Stream_Write_UINT16_BE = stream_write_scalar 2 winpr_Data_Write_UINT16_BE"

definition Stream_Write_INT16_BE :: "16 word \<Rightarrow> (wStream, unit) cfun" where
  "Stream_Write_INT16_BE = stream_write_scalar 2 winpr_Data_Write_INT16_BE"

definition Stream_Write_UINT24_BE :: "32 word \<Rightarrow> (wStream, unit) cfun" where
  "Stream_Write_UINT24_BE v = bind_c (assert_c (v \<le> 0x00FFFFFF))
     (\<lambda>_. stream_write_scalar 3 (\<lambda>d i w. d[i := ucast (drop_bit 16 w AND 0xFF),
        i + 1 := ucast (drop_bit 8 w AND 0xFF), i + 2 := ucast (w AND 0xFF)]) v)"

definition Stream_Write_INT32 :: "32 word \<Rightarrow> (wStream, unit) cfun" where
  "Stream_Write_INT32 = stream_write_scalar 4 winpr_Data_Write_INT32"

definition Stream_Write_INT32_BE :: "32 word \<Rightarrow> (wStream, unit) cfun" where
  "Stream_Write_INT32_BE = stream_write_scalar 4 winpr_Data_Write_INT32_BE"

definition Stream_Write_UINT32 :: "32 word \<Rightarrow> (wStream, unit) cfun" where
  "Stream_Write_UINT32 = stream_write_scalar 4 winpr_Data_Write_UINT32"

definition Stream_Write_UINT32_BE :: "32 word \<Rightarrow> (wStream, unit) cfun" where
  "Stream_Write_UINT32_BE = stream_write_scalar 4 winpr_Data_Write_UINT32_BE"

definition Stream_Write_UINT64 :: "64 word \<Rightarrow> (wStream, unit) cfun" where
  "Stream_Write_UINT64 = stream_write_scalar 8 winpr_Data_Write_UINT64"

definition Stream_Write_UINT64_BE :: "64 word \<Rightarrow> (wStream, unit) cfun" where
  "Stream_Write_UINT64_BE = stream_write_scalar 8 winpr_Data_Write_UINT64_BE"

definition Stream_Write_INT64 :: "64 word \<Rightarrow> (wStream, unit) cfun" where
  "Stream_Write_INT64 = stream_write_scalar 8 winpr_Data_Write_INT64"

definition Stream_Write_INT64_BE :: "64 word \<Rightarrow> (wStream, unit) cfun" where
  "Stream_Write_INT64_BE = stream_write_scalar 8 winpr_Data_Write_INT64_BE"

text \<open>\<open>Stream_Write\<close> copies a whole array; the count is the array's length.\<close>

definition Stream_Write :: "byte list \<Rightarrow> (wStream, unit) cfun" where
  "Stream_Write b =
     (if length b > 0 then
        bind_c Stream_GetRemainingCapacity (\<lambda>rem. bind_c (assert_c (rem \<ge> length b))
        (\<lambda>_ s. Stream_Seek (length b) (s\<lparr>s_buffer := overwrite (s_buffer s) (s_pointer s) b\<rparr>)))
      else return_c ())"

definition Stream_Fill :: "byte \<Rightarrow> nat \<Rightarrow> (wStream, unit) cfun" where
  "Stream_Fill v n =
     bind_c Stream_GetRemainingCapacity (\<lambda>rem. bind_c (assert_c (rem \<ge> n))
     (\<lambda>_ s. Stream_Seek n (s\<lparr>s_buffer := overwrite (s_buffer s) (s_pointer s) (replicate n v)\<rparr>)))"

definition Stream_Zero :: "nat \<Rightarrow> (wStream, unit) cfun" where
  "Stream_Zero n = Stream_Fill 0 n"

text \<open>\<open>Stream_Copy\<close> works on two streams, which are distinct objects with distinct storage.\<close>

definition Stream_Copy :: "nat \<Rightarrow> (wStream \<times> wStream, unit) cfun" where
  "Stream_Copy n = (\<lambda>(src, dst).
     case (Stream_Peek n src, Stream_GetRemainingCapacity dst) of
       (Success b src', Success rem dst') \<Rightarrow>
         if rem \<ge> n then
           (case (Stream_Seek n (dst'\<lparr>s_buffer := overwrite (s_buffer dst') (s_pointer dst') b\<rparr>),
                  Stream_Seek n src') of
              (Success _ dst'', Success _ src'') \<Rightarrow> Success () (src'', dst'')
            | _ \<Rightarrow> Fault AssertionFailure)
         else Fault AssertionFailure
     | _ \<Rightarrow> Fault AssertionFailure)"

fun write_utf16_loop :: "16 word list \<Rightarrow> (wStream, unit) cfun" where
  "write_utf16_loop [] = return_c ()"
| "write_utf16_loop (c # cs) = bind_c (Stream_Write_UINT16 c) (\<lambda>_. write_utf16_loop cs)"

definition Stream_Write_UTF16_String :: "16 word list \<Rightarrow> (wStream, unit) cfun" where
  "Stream_Write_UTF16_String src = bind_c (Stream_CheckAndLogRequiredCapacityEx (length src) 2)
     (\<lambda>_. write_utf16_loop src)"

fun read_utf16_loop :: "nat \<Rightarrow> (wStream, 16 word list) cfun" where
  "read_utf16_loop 0 = return_c []"
| "read_utf16_loop (Suc n) =
     bind_c Stream_Read_UINT16 (\<lambda>c. bind_c (read_utf16_loop n) (\<lambda>cs. return_c (c # cs)))"

definition Stream_Read_UTF16_String :: "nat \<Rightarrow> (wStream, 16 word list) cfun" where
  "Stream_Read_UTF16_String len = bind_c (Stream_CheckAndLogRequiredLengthEx len 2)
     (\<lambda>_. read_utf16_loop len)"

section \<open>Well-formed streams\<close>

text \<open>The invariant behind \<open>Stream_EnsureValidity\<close>, with the size of the storage.\<close>

definition wf_stream :: "wStream \<Rightarrow> bool" where
  "wf_stream s \<longleftrightarrow> length (s_buffer s) = s_capacity s \<and> s_pointer s \<le> s_capacity s \<and>
     s_length s \<le> s_capacity s \<and> s_capacity s < SIZE_MOD"

text \<open>A stream from which can be read: the cursor is within the valid data.\<close>

definition readable :: "wStream \<Rightarrow> bool" where
  "readable s \<longleftrightarrow> wf_stream s \<and> s_pointer s \<le> s_length s"

definition remaining :: "wStream \<Rightarrow> byte list" where
  "remaining s = drop (s_pointer s) (take (s_length s) (s_buffer s))"

definition written :: "wStream \<Rightarrow> byte list" where
  "written s = take (s_pointer s) (s_buffer s)"

definition room :: "wStream \<Rightarrow> nat" where
  "room s = s_capacity s - s_pointer s"

definition advance :: "nat \<Rightarrow> wStream \<Rightarrow> wStream" where
  "advance n s = s\<lparr>s_pointer := s_pointer s + n\<rparr>"

definition put :: "byte list \<Rightarrow> wStream \<Rightarrow> wStream" where
  "put bs s = s\<lparr>s_buffer := overwrite (s_buffer s) (s_pointer s) bs,
                s_pointer := s_pointer s + length bs\<rparr>"

lemma readable_wf [simp]: "readable s \<Longrightarrow> wf_stream s"
  by (simp add: readable_def)

lemma length_remaining: "readable s \<Longrightarrow> length (remaining s) = s_length s - s_pointer s"
  by (simp add: readable_def wf_stream_def remaining_def)

lemma remaining_le_room: "readable s \<Longrightarrow> length (remaining s) \<le> room s"
  by (simp add: length_remaining room_def) (auto simp: readable_def wf_stream_def)

lemma take_remaining:
  "n \<le> length (remaining s) \<Longrightarrow>
     take n (drop (s_pointer s) (s_buffer s)) = take n (remaining s)"
  by (simp add: remaining_def drop_take)

lemma readable_advance [simp]:
  "readable s \<Longrightarrow> n \<le> length (remaining s) \<Longrightarrow> readable (advance n s)"
  by (auto simp: length_remaining readable_def wf_stream_def advance_def)

lemma remaining_advance [simp]: "remaining (advance n s) = drop n (remaining s)"
  by (simp add: remaining_def advance_def add.commute)

lemma advance_advance [simp]: "advance n (advance m s) = advance (m + n) s"
  by (simp add: advance_def add.assoc)

lemma advance_0 [simp]: "advance 0 s = s"
  by (simp add: advance_def)

lemma wf_put [simp]: "wf_stream s \<Longrightarrow> length bs \<le> room s \<Longrightarrow> wf_stream (put bs s)"
  by (auto simp: wf_stream_def put_def room_def)

lemma room_put [simp]: "room (put bs s) = room s - length bs"
  by (simp add: room_def put_def)

lemma put_put [simp]:
  assumes "wf_stream s" and "length (xs @ ys) \<le> room s"
  shows "put ys (put xs s) = put (xs @ ys) s"
  using assms overwrite_append [of "s_pointer s" xs "s_buffer s" ys]
  by (auto simp: put_def wf_stream_def room_def add.assoc)

lemma put_Nil [simp]: "put [] s = s"
  by (simp add: put_def)

lemma put_simps [simp]:
  "s_pointer (put bs s) = s_pointer s + length bs" "s_capacity (put bs s) = s_capacity s"
  "s_length (put bs s) = s_length s" "s_isOwner (put bs s) = s_isOwner s"
  by (simp_all add: put_def)

lemma written_put [simp]:
  "wf_stream s \<Longrightarrow> length bs \<le> room s \<Longrightarrow> written (put bs s) = written s @ bs"
  by (simp add: written_def put_def wf_stream_def room_def)

section \<open>Execution on well-formed streams\<close>

lemma GetRemainingCapacity_wf [stream_exec]:
  "wf_stream s \<Longrightarrow> Stream_GetRemainingCapacity s = Success (room s) s"
  by (simp add: Stream_GetRemainingCapacity_def c_simps wf_stream_def room_def)

lemma GetRemainingLength_readable [stream_exec]:
  "readable s \<Longrightarrow> Stream_GetRemainingLength s = Success (length (remaining s)) s"
  by (simp add: Stream_GetRemainingLength_def c_simps length_remaining)
    (simp add: readable_def wf_stream_def)

lemma CheckLengthEx_readable [stream_exec]:
  "readable s \<Longrightarrow> 0 < sz \<Longrightarrow> Stream_CheckAndLogRequiredLengthEx n sz s =
     (if n * sz \<le> length (remaining s) then Success () s else Failure s)"
  by (auto simp: Stream_CheckAndLogRequiredLengthEx_def Stream_CheckAndLogRequiredLengthExVa_def
      Stream_CheckAndLogRequiredLengthWLogExVa_def c_simps stream_exec
      div_less_iff_less_mult not_less [symmetric])

lemma CheckLength_readable [stream_exec]:
  "readable s \<Longrightarrow> Stream_CheckAndLogRequiredLength n s =
     (if n \<le> length (remaining s) then Success () s else Failure s)"
  by (simp add: Stream_CheckAndLogRequiredLength_def stream_exec)

lemma CheckCapacityEx_wf [stream_exec]:
  "wf_stream s \<Longrightarrow> 0 < sz \<Longrightarrow> Stream_CheckAndLogRequiredCapacityEx n sz s =
     (if n * sz \<le> room s then Success () s else Failure s)"
  by (auto simp: Stream_CheckAndLogRequiredCapacityEx_def Stream_CheckAndLogRequiredCapacityExVa_def
      Stream_CheckAndLogRequiredCapacityWLogExVa_def c_simps stream_exec
      div_less_iff_less_mult not_less [symmetric])

lemma CheckCapacity_wf [stream_exec]:
  "wf_stream s \<Longrightarrow> Stream_CheckAndLogRequiredCapacity n s =
     (if n \<le> room s then Success () s else Failure s)"
  by (simp add: Stream_CheckAndLogRequiredCapacity_def stream_exec)

lemma Seek_wf [stream_exec]:
  "wf_stream s \<Longrightarrow> Stream_Seek n s =
     (if n \<le> room s then Success () (advance n s) else Fault AssertionFailure)"
  by (simp add: Stream_Seek_def c_simps stream_exec advance_def)

lemma SafeSeek_readable [stream_exec]:
  "readable s \<Longrightarrow> Stream_SafeSeek n s =
     (if n \<le> length (remaining s) then Success () (advance n s) else Failure s)"
  using remaining_le_room [of s]
  by (auto simp: Stream_SafeSeek_def c_simps stream_exec)

lemma Read_readable [stream_exec]:
  assumes "readable s" and "n \<le> length (remaining s)"
  shows "Stream_Read n s = Success (take n (remaining s)) (advance n s)"
  using assms remaining_le_room [of s]
  by (simp add: Stream_Read_def c_simps stream_exec take_remaining)

lemma Write_wf [stream_exec]:
  "wf_stream s \<Longrightarrow> length b \<le> room s \<Longrightarrow> Stream_Write b s = Success () (put b s)"
  by (auto simp: Stream_Write_def Stream_Seek_def Stream_GetRemainingCapacity_def c_simps
      wf_stream_def room_def put_def)

lemma Fill_wf [stream_exec]:
  "wf_stream s \<Longrightarrow> n \<le> room s \<Longrightarrow> Stream_Fill v n s = Success () (put (replicate n v) s)"
  by (auto simp: Stream_Fill_def Stream_Seek_def Stream_GetRemainingCapacity_def c_simps
      wf_stream_def room_def put_def)

lemma Zero_wf [stream_exec]:
  "wf_stream s \<Longrightarrow> n \<le> room s \<Longrightarrow> Stream_Zero n s = Success () (put (replicate n 0) s)"
  by (simp add: Stream_Zero_def stream_exec)

text \<open>Reading and writing a scalar, once for every accessor pair.\<close>

context scalar
begin

lemma read_scalar:
  assumes "readable s" and "width \<le> length (remaining s)"
  shows "stream_read_scalar width fetch seek s =
    Success (fetch (remaining s)) (if seek then advance width s else s)"
proof -
  have "take width (drop (s_pointer s) (s_buffer s)) = take width (remaining s)"
    using assms by (simp add: take_remaining)
  then have "fetch (drop (s_pointer s) (s_buffer s)) = fetch (remaining s)"
    by (metis fetch_take)
  with assms remaining_le_room [of s] show ?thesis
    by (simp add: stream_read_scalar_def c_simps stream_exec)
qed

lemma read_scalar_short:
  assumes "readable s" and "length (remaining s) < width"
  shows "stream_read_scalar width fetch seek s = Fault AssertionFailure"
  using assms by (simp add: stream_read_scalar_def c_simps stream_exec)

lemma write_scalar:
  assumes "wf_stream s" and "width \<le> room s"
  shows "stream_write_scalar width store v s = Success () (put (encode v) s)"
  using assms store_encode [of "s_pointer s" "s_buffer s" v]
  by (auto simp: stream_write_scalar_def c_simps stream_exec put_def wf_stream_def room_def)

lemma write_scalar_full:
  assumes "wf_stream s" and "room s < width"
  shows "stream_write_scalar width store v s = Fault AssertionFailure"
  using assms by (simp add: stream_write_scalar_def c_simps stream_exec)

end

lemmas Read_defs = Stream_Read_UINT8_def Stream_Read_UINT16_def Stream_Read_UINT16_BE_def
  Stream_Read_UINT32_def Stream_Read_UINT32_BE_def Stream_Peek_UINT8_def stream_read_u8_def
  stream_read_u16_le_def stream_read_u16_be_def stream_read_u32_le_def stream_read_u32_be_def

lemma Read_scalars [stream_exec]:
  assumes "readable s"
  shows "remaining s \<noteq> [] \<Longrightarrow> Stream_Read_UINT8 s = Success (hd (remaining s)) (advance 1 s)"
    and "remaining s \<noteq> [] \<Longrightarrow> Stream_Peek_UINT8 s = Success (hd (remaining s)) s"
    and "2 \<le> length (remaining s) \<Longrightarrow>
      Stream_Read_UINT16 s = Success (winpr_Data_Get_UINT16 (remaining s)) (advance 2 s)"
    and "2 \<le> length (remaining s) \<Longrightarrow>
      Stream_Read_UINT16_BE s = Success (winpr_Data_Get_UINT16_BE (remaining s)) (advance 2 s)"
    and "4 \<le> length (remaining s) \<Longrightarrow>
      Stream_Read_UINT32 s = Success (winpr_Data_Get_UINT32 (remaining s)) (advance 4 s)"
    and "4 \<le> length (remaining s) \<Longrightarrow>
      Stream_Read_UINT32_BE s = Success (winpr_Data_Get_UINT32_BE (remaining s)) (advance 4 s)"
  using assms
  by (simp_all add: Read_defs u8.read_scalar u16le.read_scalar u16be.read_scalar
      u32le.read_scalar u32be.read_scalar Suc_le_eq winpr_Data_Get_UINT8_def hd_conv_nth)

lemma Write_scalars [stream_exec]:
  assumes "wf_stream s"
  shows "1 \<le> room s \<Longrightarrow> Stream_Write_UINT8 a s = Success () (put [a] s)"
    and "2 \<le> room s \<Longrightarrow> Stream_Write_UINT16 b s = Success () (put (le16 b) s)"
    and "2 \<le> room s \<Longrightarrow> Stream_Write_UINT16_BE b s = Success () (put (be16 b) s)"
    and "4 \<le> room s \<Longrightarrow> Stream_Write_UINT32 c s = Success () (put (le32 c) s)"
    and "4 \<le> room s \<Longrightarrow> Stream_Write_UINT32_BE c s = Success () (put (be32 c) s)"
    and "8 \<le> room s \<Longrightarrow> Stream_Write_UINT64 d s = Success () (put (le64 d) s)"
    and "8 \<le> room s \<Longrightarrow> Stream_Write_UINT64_BE d s = Success () (put (be64 d) s)"
  using assms
  by (simp_all add: Stream_Write_UINT8_def Stream_Write_UINT16_def Stream_Write_UINT16_BE_def
      Stream_Write_UINT32_def Stream_Write_UINT32_BE_def Stream_Write_UINT64_def
      Stream_Write_UINT64_BE_def u8.write_scalar u16le.write_scalar u16be.write_scalar
      u32le.write_scalar u32be.write_scalar u64le.write_scalar u64be.write_scalar)

section \<open>Growing\<close>

text \<open>
  The doubling loop never ends on an empty stream, and ends with less than twice the request when
  the stream has some capacity and the request stays below half of the range of \<open>size_t\<close>.
\<close>

lemma grow_capacity_zero:
  assumes "0 < sz"
  shows "grow_capacity 0 sz = None"
proof (rule ccontr)
  assume "grow_capacity 0 sz \<noteq> None"
  then obtain r where "grow_capacity 0 sz = Some r" by auto
  then have "0 = (0::nat) \<longrightarrow> sz = 0"
    by (rule grow_capacity.raw_induct [where P = "\<lambda>c n r. c = 0 \<longrightarrow> n = 0", rotated])
      (auto simp: Let_def split: if_splits)
  with assms show False by simp
qed

lemma grow_capacity_Some:
  assumes "0 < c" and "c < sz" and "sz \<le> 2 ^ 63"
  shows "\<exists>r. grow_capacity c sz = Some r \<and> sz \<le> r \<and> r < 2 * sz"
  using assms
proof (induction "sz - c" arbitrary: c rule: less_induct)
  case less
  have m: "(c * 2) mod SIZE_MOD = c * 2"
    using less.prems by simp
  show ?case
  proof (cases "c * 2 < sz")
    case True
    then have "sz - c * 2 < sz - c" using less.prems by simp
    from less.hyps [OF this] True less.prems
    show ?thesis by (subst grow_capacity.simps) (simp add: m Let_def)
  next
    case False
    then show ?thesis using less.prems by (subst grow_capacity.simps) (simp add: m Let_def)
  qed
qed

lemma grow_capacity_bounds:
  assumes "grow_capacity c sz = Some r"
  shows "sz \<le> r \<and> r < SIZE_MOD"
  by (rule grow_capacity.raw_induct [where P = "\<lambda>c n r. n \<le> r \<and> r < SIZE_MOD", OF _ assms])
    (auto simp: Let_def split: if_splits)

text \<open>
  \<open>malloc\<close> as the C standard documents it (a returned block has the requested size), and the same
  with memory for every request.
\<close>

definition malloc_spec :: "malloc \<Rightarrow> bool" where
  "malloc_spec malloc \<longleftrightarrow> (\<forall>n b. malloc n = Some b \<longrightarrow> length b = n)"

definition memory_available :: "malloc \<Rightarrow> bool" where
  "memory_available malloc \<longleftrightarrow> (\<forall>n. malloc n \<noteq> None)"

lemma resized:
  assumes "wf_stream s" and "s_capacity s \<le> n" and "n < SIZE_MOD"
  shows "\<exists>t. stream_resized b n s = Success () t \<and> wf_stream t \<and> s_capacity t = n \<and>
    s_pointer t = s_pointer s \<and> take (s_capacity s) (s_buffer t) = s_buffer s"
  using assms
  by (auto simp: stream_resized_def Stream_SetPosition_def Stream_Capacity_def c_simps Let_def
      wf_stream_def)

lemma EnsureCapacity_ok:
  assumes "wf_stream s" "0 < s_capacity s" "sz \<le> 2 ^ 63" and mem: "memory_available malloc"
  shows "\<exists>t. Stream_EnsureCapacity malloc sz s = Success () t \<and> wf_stream t \<and> sz \<le> s_capacity t \<and>
    s_capacity s \<le> s_capacity t \<and> s_capacity t \<le> max (s_capacity s) (2 * sz) \<and>
    s_pointer t = s_pointer s \<and> take (s_capacity s) (s_buffer t) = s_buffer s"
proof (cases "s_capacity s < sz")
  case False
  then show ?thesis using assms by (simp add: Stream_EnsureCapacity_def wf_stream_def)
next
  case True
  with assms obtain r where r: "grow_capacity (s_capacity s) sz = Some r" "sz \<le> r" "r < 2 * sz"
    using grow_capacity_Some by blast
  obtain b where b: "malloc r = Some b" using mem by (fastforce simp: memory_available_def)
  have wf: "wf_stream (s\<lparr>s_isOwner := True\<rparr>)" using assms(1) by (simp add: wf_stream_def)
  have "r < SIZE_MOD" using r assms(3) by simp
  with resized [OF assms(1), of r b] resized [OF wf, of r b] r True show ?thesis
    by (cases "s_isOwner s") (auto simp: Stream_EnsureCapacity_def b)
qed

lemma EnsureCapacity_states:
  assumes "wf_stream s"
  shows "case Stream_EnsureCapacity malloc sz s of
      Fault _ \<Rightarrow> True | Failure t \<Rightarrow> t = s | Success _ t \<Rightarrow> wf_stream t \<and> sz \<le> s_capacity t"
proof (cases "s_capacity s < sz")
  case False
  then show ?thesis using assms by (simp add: Stream_EnsureCapacity_def)
next
  case True
  have wf: "wf_stream (s\<lparr>s_isOwner := True\<rparr>)" using assms by (simp add: wf_stream_def)
  show ?thesis
  proof (cases "grow_capacity (s_capacity s) sz")
    case None
    with True show ?thesis by (simp add: Stream_EnsureCapacity_def)
  next
    case (Some r)
    note r = grow_capacity_bounds [OF Some]
    have *: "case stream_resized b r u of
        Fault _ \<Rightarrow> True | Failure t \<Rightarrow> t = s | Success _ t \<Rightarrow> wf_stream t \<and> sz \<le> s_capacity t"
      if "wf_stream u" "s_capacity u = s_capacity s" for b u
      using resized [OF that(1), of r b] r True that(2) by auto
    show ?thesis
      using * [OF assms refl] * [OF wf] True Some
      by (simp add: Stream_EnsureCapacity_def split: option.split)
  qed
qed

lemma EnsureRemainingCapacity_room:
  "wf_stream s \<Longrightarrow> n \<le> room s \<Longrightarrow> Stream_EnsureRemainingCapacity malloc n s = Success () s"
proof -
  assume "wf_stream s" "n \<le> room s"
  then have "s_pointer s + n \<le> s_capacity s" "(s_pointer s + n) mod SIZE_MOD = s_pointer s + n"
    by (auto simp: wf_stream_def room_def)
  then show ?thesis
    by (simp only: Stream_EnsureRemainingCapacity_def Stream_GetPosition_def Stream_Capacity_def)
      simp
qed

text \<open>
  \<open>growable n s\<close>: \<open>n\<close> more bytes can be appended to \<open>s\<close> without the sizes leaving their range. It is
  kept by every append of at most \<open>n\<close> bytes, since growing at most quadruples the position reached.
\<close>

definition growable :: "nat \<Rightarrow> wStream \<Rightarrow> bool" where
  "growable n s \<longleftrightarrow> wf_stream s \<and> 0 < s_capacity s \<and> s_capacity s \<le> 2 ^ 62 \<and>
     s_pointer s + n \<le> 2 ^ 60"

lemma EnsureRemainingCapacity_ok:
  assumes g: "growable n s" and "k \<le> n" and mem: "memory_available malloc"
  shows "\<exists>t. Stream_EnsureRemainingCapacity malloc k s = Success () t \<and> growable n t \<and>
    k \<le> room t \<and> s_pointer t = s_pointer s \<and> written t = written s"
proof (cases "s_pointer s + k \<le> s_capacity s")
  case True
  with assms show ?thesis
    by (auto simp: EnsureRemainingCapacity_room growable_def room_def)
next
  case False
  from g have wf: "wf_stream s" "s_pointer s \<le> s_capacity s"
    by (auto simp: growable_def wf_stream_def)
  have sz: "s_capacity s + k \<le> 2 ^ 63" "(s_capacity s + k) mod SIZE_MOD = s_capacity s + k"
    "(s_pointer s + k) mod SIZE_MOD = s_pointer s + k"
    using g \<open>k \<le> n\<close> by (auto simp: growable_def)
  from EnsureCapacity_ok [OF wf(1) _ sz(1) mem] g obtain t where
    t: "Stream_EnsureCapacity malloc (s_capacity s + k) s = Success () t" "wf_stream t"
      "s_capacity s + k \<le> s_capacity t" "s_capacity t \<le> max (s_capacity s) (2 * (s_capacity s + k))"
      "s_pointer t = s_pointer s" "take (s_capacity s) (s_buffer t) = s_buffer s"
    by (auto simp: growable_def)
  have "written t = written s"
    using t(5,6) wf(2) by (metis min.absorb1 take_take written_def)
  moreover have "s_capacity t \<le> 2 ^ 62"
    using t(4) False g \<open>k \<le> n\<close> by (auto simp: growable_def)
  ultimately show ?thesis
    using t False g sz wf
    by (auto simp: Stream_EnsureRemainingCapacity_def Stream_GetPosition_def Stream_Capacity_def
        growable_def room_def)
qed

section \<open>Every stream is well-formed\<close>

text \<open>
  The states in which a call leaves its stream, and the steps of a stream under the operations of
  the module; reading and writing scalars are the steps \<open>read\<close> and \<open>write\<close>.
\<close>

fun left_in :: "('s, 'a) outcome \<Rightarrow> 's set" where
  "left_in (Fault e) = {}"
| "left_in (Failure s) = {s}"
| "left_in (Success v s) = {s}"

inductive stream_step :: "malloc \<Rightarrow> wStream \<Rightarrow> wStream \<Rightarrow> bool" for malloc where
  set_length: "t \<in> left_in (Stream_SetLength l s) \<Longrightarrow> stream_step malloc s t"
| set_position: "t \<in> left_in (Stream_SetPosition p s) \<Longrightarrow> stream_step malloc s t"
| seal: "t \<in> left_in (Stream_SealLength s) \<Longrightarrow> stream_step malloc s t"
| clear: "t \<in> left_in (Stream_Clear s) \<Longrightarrow> stream_step malloc s t"
| ensure: "t \<in> left_in (Stream_EnsureCapacity malloc n s) \<Longrightarrow> stream_step malloc s t"
| ensure_remaining: "t \<in> left_in (Stream_EnsureRemainingCapacity malloc n s) \<Longrightarrow> stream_step malloc s t"
| seek: "t \<in> left_in (Stream_Seek n s) \<Longrightarrow> stream_step malloc s t"
| safe_seek: "t \<in> left_in (Stream_SafeSeek n s) \<Longrightarrow> stream_step malloc s t"
| rewind: "t \<in> left_in (Stream_Rewind n s) \<Longrightarrow> stream_step malloc s t"
| read_bytes: "t \<in> left_in (Stream_Read n s) \<Longrightarrow> stream_step malloc s t"
| read_u8: "t \<in> left_in (stream_read_u8 b s) \<Longrightarrow> stream_step malloc s t"
| read_i8: "t \<in> left_in (stream_read_i8 b s) \<Longrightarrow> stream_step malloc s t"
| read_u16_le: "t \<in> left_in (stream_read_u16_le b s) \<Longrightarrow> stream_step malloc s t"
| read_u16_be: "t \<in> left_in (stream_read_u16_be b s) \<Longrightarrow> stream_step malloc s t"
| read_i16_le: "t \<in> left_in (stream_read_i16_le b s) \<Longrightarrow> stream_step malloc s t"
| read_i16_be: "t \<in> left_in (stream_read_i16_be b s) \<Longrightarrow> stream_step malloc s t"
| read_u32_le: "t \<in> left_in (stream_read_u32_le b s) \<Longrightarrow> stream_step malloc s t"
| read_u32_be: "t \<in> left_in (stream_read_u32_be b s) \<Longrightarrow> stream_step malloc s t"
| read_i32_le: "t \<in> left_in (stream_read_i32_le b s) \<Longrightarrow> stream_step malloc s t"
| read_i32_be: "t \<in> left_in (stream_read_i32_be b s) \<Longrightarrow> stream_step malloc s t"
| read_u64_le: "t \<in> left_in (stream_read_u64_le b s) \<Longrightarrow> stream_step malloc s t"
| read_u64_be: "t \<in> left_in (stream_read_u64_be b s) \<Longrightarrow> stream_step malloc s t"
| read_i64_le: "t \<in> left_in (stream_read_i64_le b s) \<Longrightarrow> stream_step malloc s t"
| read_i64_be: "t \<in> left_in (stream_read_i64_be b s) \<Longrightarrow> stream_step malloc s t"
| read_utf16: "t \<in> left_in (Stream_Read_UTF16_String n s) \<Longrightarrow> stream_step malloc s t"
| write_u8: "t \<in> left_in (Stream_Write_UINT8 v8 s) \<Longrightarrow> stream_step malloc s t"
| write_i8: "t \<in> left_in (Stream_Write_INT8 v8 s) \<Longrightarrow> stream_step malloc s t"
| write_u16: "t \<in> left_in (Stream_Write_UINT16 v16 s) \<Longrightarrow> stream_step malloc s t"
| write_u16_be: "t \<in> left_in (Stream_Write_UINT16_BE v16 s) \<Longrightarrow> stream_step malloc s t"
| write_i16: "t \<in> left_in (Stream_Write_INT16 v16 s) \<Longrightarrow> stream_step malloc s t"
| write_i16_be: "t \<in> left_in (Stream_Write_INT16_BE v16 s) \<Longrightarrow> stream_step malloc s t"
| write_u32: "t \<in> left_in (Stream_Write_UINT32 v32 s) \<Longrightarrow> stream_step malloc s t"
| write_u32_be: "t \<in> left_in (Stream_Write_UINT32_BE v32 s) \<Longrightarrow> stream_step malloc s t"
| write_i32: "t \<in> left_in (Stream_Write_INT32 v32 s) \<Longrightarrow> stream_step malloc s t"
| write_i32_be: "t \<in> left_in (Stream_Write_INT32_BE v32 s) \<Longrightarrow> stream_step malloc s t"
| write_u64: "t \<in> left_in (Stream_Write_UINT64 v64 s) \<Longrightarrow> stream_step malloc s t"
| write_u64_be: "t \<in> left_in (Stream_Write_UINT64_BE v64 s) \<Longrightarrow> stream_step malloc s t"
| write_i64: "t \<in> left_in (Stream_Write_INT64 v64 s) \<Longrightarrow> stream_step malloc s t"
| write_i64_be: "t \<in> left_in (Stream_Write_INT64_BE v64 s) \<Longrightarrow> stream_step malloc s t"
| write_u24_be: "t \<in> left_in (Stream_Write_UINT24_BE v32 s) \<Longrightarrow> stream_step malloc s t"
| write_bytes: "t \<in> left_in (Stream_Write bs s) \<Longrightarrow> stream_step malloc s t"
| fill: "t \<in> left_in (Stream_Fill v n s) \<Longrightarrow> stream_step malloc s t"
| zero: "t \<in> left_in (Stream_Zero n s) \<Longrightarrow> stream_step malloc s t"
| write_utf16: "t \<in> left_in (Stream_Write_UTF16_String ws s) \<Longrightarrow> stream_step malloc s t"
| copy_from: "Stream_Copy n (s, d) = Success () (t, d') \<Longrightarrow> stream_step malloc s t"
| copy_to: "Stream_Copy n (c, s) = Success () (c', t) \<Longrightarrow> stream_step malloc s t"

inductive stream_reachable :: "malloc \<Rightarrow> wStream \<Rightarrow> bool" for malloc where
  new: "Stream_New malloc None n = Some s \<Longrightarrow> n < SIZE_MOD \<Longrightarrow> stream_reachable malloc s"
| wrap: "Stream_New malloc (Some b) (length b) = Some s \<Longrightarrow> length b < SIZE_MOD \<Longrightarrow>
    stream_reachable malloc s"
| static: "length b < SIZE_MOD \<Longrightarrow> stream_reachable malloc (Stream_StaticInit b (length b))"
| step: "stream_reachable malloc s \<Longrightarrow> stream_step malloc s t \<Longrightarrow> stream_reachable malloc t"

definition keeps_wf :: "(wStream, 'a) cfun \<Rightarrow> bool" where
  "keeps_wf f \<longleftrightarrow> (\<forall>s. wf_stream s \<longrightarrow> (\<forall>t \<in> left_in (f s). wf_stream t))"

lemma keeps_wf_bind:
  "keeps_wf f \<Longrightarrow> (\<And>v. keeps_wf (k v)) \<Longrightarrow> keeps_wf (bind_c f k)"
  unfolding keeps_wf_def
proof (intro allI impI ballI)
  fix s t
  assume f: "\<forall>s. wf_stream s \<longrightarrow> (\<forall>t \<in> left_in (f s). wf_stream t)"
    and k: "\<And>v. \<forall>s. wf_stream s \<longrightarrow> (\<forall>t \<in> left_in (k v s). wf_stream t)"
    and s: "wf_stream s" and t: "t \<in> left_in (bind_c f k s)"
  from f s have "\<forall>t \<in> left_in (f s). wf_stream t" by blast
  with k t show "wf_stream t" by (cases "f s") (auto simp: bind_c_def)
qed

lemma keeps_wf_if:
  "(b \<Longrightarrow> keeps_wf f) \<Longrightarrow> (\<not> b \<Longrightarrow> keeps_wf g) \<Longrightarrow> keeps_wf (if b then f else g)"
  by simp

lemma keeps_wf_basic [intro, simp]:
  "keeps_wf (return_c v)" "keeps_wf fail_c" "keeps_wf (assert_c b)"
  "keeps_wf Stream_GetRemainingCapacity" "keeps_wf Stream_GetRemainingLength"
  by (auto simp: keeps_wf_def c_simps Stream_GetRemainingCapacity_def Stream_GetRemainingLength_def)

lemma keeps_wf_position [intro, simp]:
  "keeps_wf (Stream_SetLength n)" "keeps_wf (Stream_SetPosition n)" "keeps_wf Stream_SealLength"
  "keeps_wf Stream_Clear" "keeps_wf (Stream_Rewind n)"
  by (auto simp: keeps_wf_def Stream_SetLength_def Stream_SetPosition_def Stream_SealLength_def
      Stream_Clear_def Stream_Rewind_def Stream_Capacity_def wf_stream_def c_simps)

lemma keeps_wf_Seek [intro, simp]: "keeps_wf (Stream_Seek n)"
  by (auto simp: keeps_wf_def stream_exec) (auto simp: advance_def wf_stream_def room_def)

lemma keeps_wf_Check [intro, simp]: "keeps_wf (Stream_CheckAndLogRequiredLengthEx n m)"
  unfolding Stream_CheckAndLogRequiredLengthEx_def Stream_CheckAndLogRequiredLengthExVa_def
    Stream_CheckAndLogRequiredLengthWLogExVa_def
  by (intro keeps_wf_bind keeps_wf_if keeps_wf_basic)

lemma keeps_wf_SafeSeek [intro, simp]: "keeps_wf (Stream_SafeSeek n)"
  unfolding Stream_SafeSeek_def by (intro keeps_wf_bind keeps_wf_Check keeps_wf_Seek)

lemma keeps_wf_read [intro, simp]: "keeps_wf (stream_read_scalar n g b)"
  unfolding stream_read_scalar_def
  by (intro keeps_wf_bind keeps_wf_basic)
    (auto simp: keeps_wf_def Let_def c_simps stream_exec advance_def wf_stream_def room_def)

lemma keeps_wf_write_wf:
  assumes "\<And>d i v. i + n \<le> length d \<Longrightarrow> length (p d i v) = length d"
  shows "keeps_wf (stream_write_scalar n p v)"
  using assms
  by (auto simp: keeps_wf_def stream_write_scalar_def c_simps stream_exec wf_stream_def room_def)

lemma keeps_wf_write [intro, simp]:
  "keeps_wf (Stream_Write_UINT8 v8)" "keeps_wf (Stream_Write_INT8 v8)" "keeps_wf (Stream_Write_UINT16 v16)"
  "keeps_wf (Stream_Write_UINT16_BE v16)" "keeps_wf (Stream_Write_INT16 v16)"
  "keeps_wf (Stream_Write_INT16_BE v16)" "keeps_wf (Stream_Write_UINT32 v32)"
  "keeps_wf (Stream_Write_UINT32_BE v32)" "keeps_wf (Stream_Write_INT32 v32)"
  "keeps_wf (Stream_Write_INT32_BE v32)" "keeps_wf (Stream_Write_UINT64 v64)"
  "keeps_wf (Stream_Write_UINT64_BE v64)" "keeps_wf (Stream_Write_INT64 v64)"
  "keeps_wf (Stream_Write_INT64_BE v64)"
  by (simp_all add: Stream_Write_UINT8_def Stream_Write_INT8_def Stream_Write_UINT16_def Stream_Write_UINT16_BE_def
      Stream_Write_INT16_def Stream_Write_INT16_BE_def Stream_Write_UINT32_def Stream_Write_UINT32_BE_def
      Stream_Write_INT32_def Stream_Write_INT32_BE_def Stream_Write_UINT64_def Stream_Write_UINT64_BE_def
      Stream_Write_INT64_def Stream_Write_INT64_BE_def signed_writers
      keeps_wf_write_wf u8.length_store u16le.length_store u16be.length_store u32le.length_store
      u32be.length_store u64le.length_store u64be.length_store)

lemma keeps_wf_write_u24 [intro, simp]: "keeps_wf (Stream_Write_UINT24_BE v)"
  unfolding Stream_Write_UINT24_BE_def
  by (intro keeps_wf_bind keeps_wf_basic keeps_wf_write_wf) simp

lemma keeps_wf_blocks [intro, simp]:
  "keeps_wf (Stream_Write bs)" "keeps_wf (Stream_Fill v n)" "keeps_wf (Stream_Zero n)" "keeps_wf (Stream_Read n)"
  by (auto simp: keeps_wf_def Stream_Write_def Stream_Fill_def Stream_Zero_def Stream_Read_def Stream_Seek_def
      Stream_GetRemainingCapacity_def c_simps wf_stream_def split: if_splits)

lemma keeps_wf_ensure [intro, simp]:
  "keeps_wf (Stream_EnsureCapacity malloc n)" "keeps_wf (Stream_EnsureRemainingCapacity malloc n)"
proof -
  have *: "wf_stream t" if "wf_stream s" "t \<in> left_in (Stream_EnsureCapacity malloc m s)" for m s t
    using EnsureCapacity_states [OF that(1), where malloc = malloc and sz = m] that
    by (auto split: outcome.splits)
  then show "keeps_wf (Stream_EnsureCapacity malloc n)" by (auto simp: keeps_wf_def)
  show "keeps_wf (Stream_EnsureRemainingCapacity malloc n)"
    using * by (auto simp: keeps_wf_def Stream_EnsureRemainingCapacity_def)
qed

lemma keeps_wf_read_i8 [intro, simp]: "keeps_wf (stream_read_i8 b)"
  by (auto simp: keeps_wf_def stream_read_i8_def Let_def c_simps stream_exec advance_def
      wf_stream_def room_def)

lemmas stream_readers = stream_read_u8_def stream_read_u16_le_def stream_read_u16_be_def stream_read_i16_le_def
  stream_read_i16_be_def stream_read_u32_le_def stream_read_u32_be_def stream_read_i32_le_def stream_read_i32_be_def
  stream_read_u64_le_def stream_read_u64_be_def stream_read_i64_le_def stream_read_i64_be_def

lemma keeps_wf_read_utf16 [intro, simp]: "keeps_wf (Stream_Read_UTF16_String n)"
proof -
  have "keeps_wf (read_utf16_loop n)"
    by (induction n) (auto simp: Stream_Read_UINT16_def stream_readers intro!: keeps_wf_bind)
  then show ?thesis unfolding Stream_Read_UTF16_String_def by (intro keeps_wf_bind keeps_wf_Check)
qed

lemma keeps_wf_write_utf16 [intro, simp]: "keeps_wf (Stream_Write_UTF16_String ws)"
proof -
  have "keeps_wf (write_utf16_loop ws)" by (induction ws) (auto intro!: keeps_wf_bind)
  moreover have "keeps_wf (Stream_CheckAndLogRequiredCapacityEx n m)" for n m
    unfolding Stream_CheckAndLogRequiredCapacityEx_def Stream_CheckAndLogRequiredCapacityExVa_def
      Stream_CheckAndLogRequiredCapacityWLogExVa_def
    by (intro keeps_wf_bind keeps_wf_if keeps_wf_basic)
  ultimately show ?thesis unfolding Stream_Write_UTF16_String_def by (intro keeps_wf_bind)
qed

lemma keeps_wf_copy:
  assumes "Stream_Copy n (c, d) = Success () (c', d')"
  shows "wf_stream c \<Longrightarrow> wf_stream c'" "wf_stream d \<Longrightarrow> wf_stream d'"
  using assms
  by (auto simp: Stream_Copy_def Stream_Peek_def Stream_GetRemainingCapacity_def Stream_Seek_def c_simps
      wf_stream_def split: if_splits)

lemmas keeps_wf_steps = keeps_wf_position keeps_wf_Seek keeps_wf_SafeSeek keeps_wf_read keeps_wf_read_i8
  keeps_wf_read_utf16 keeps_wf_write keeps_wf_write_u24 keeps_wf_blocks keeps_wf_write_utf16 keeps_wf_ensure

lemma stream_step_wf: "stream_step malloc s t \<Longrightarrow> wf_stream s \<Longrightarrow> wf_stream t"
  by (induction rule: stream_step.induct)
    (auto dest: keeps_wf_steps [unfolded keeps_wf_def, rule_format] keeps_wf_copy simp: stream_readers)

lemma stream_reachable_wf:
  assumes "stream_reachable malloc s" and "malloc_spec malloc"
  shows "wf_stream s"
  using assms
proof (induction rule: stream_reachable.induct)
  case (step s t)
  then show ?case by (blast intro: stream_step_wf)
qed (auto simp: Stream_New_def Stream_StaticInit_def wf_stream_def malloc_spec_def
    split: if_splits option.splits)

section \<open>A concrete stream and allocator\<close>

abbreviation calloc :: malloc where
  "calloc n \<equiv> Some (replicate n 0)"

abbreviation blank :: "nat \<Rightarrow> wStream" where
  "blank n \<equiv> Stream_StaticInit (replicate n 0) n"

lemma memory_available_calloc: "memory_available calloc"
  by (simp add: memory_available_def)

lemma growable_blank:
  "length b = n \<Longrightarrow> 0 < n \<Longrightarrow> n \<le> 2 ^ 62 \<Longrightarrow> k \<le> 2 ^ 60 \<Longrightarrow> growable k (Stream_StaticInit b n)"
  by (simp add: growable_def Stream_StaticInit_def wf_stream_def)

lemma wf_blank: "length b = n \<Longrightarrow> n < SIZE_MOD \<Longrightarrow> wf_stream (Stream_StaticInit b n)"
  by (simp add: Stream_StaticInit_def wf_stream_def)

lemma room_blank: "room (Stream_StaticInit b n) = n"
  by (simp add: Stream_StaticInit_def room_def)

lemma readable_static: "length bs < SIZE_MOD \<Longrightarrow> readable (Stream_StaticInit bs (length bs))"
  by (simp add: Stream_StaticInit_def wf_stream_def readable_def)

lemma remaining_static: "remaining (Stream_StaticInit bs (length bs)) = bs"
  by (simp add: Stream_StaticInit_def remaining_def)

section \<open>Properties\<close>

text \<open>
  C1: every stream made by \<open>Stream_New\<close> or \<open>Stream_StaticInit\<close>, over its own storage or over an array given
  with its true size, and changed by any sequence of the operations that change a stream (positions and
  lengths, growing, seeking, the readers and writers of every width, order and sign, blocks, UTF-16
  strings, copies between streams), failed ones included, has its cursor and its length within its
  capacity and a buffer of exactly that capacity.
\<close>

theorem stream_always_well_formed:
  assumes "stream_reachable malloc s" and "malloc_spec malloc"
  shows "wf_stream s"
  using assms by (rule stream_reachable_wf)

theorem stream_always_well_formed_witness:
  "\<exists>s t u. Stream_New calloc None 4 = Some s \<and> Stream_Write_UINT24_BE 0x010203 s = Success () t \<and>
    Stream_SetPosition 9 t = Failure u \<and> s_buffer u = [1, 2, 3, 0] \<and> wf_stream u"
proof -
  let ?s = "\<lparr>s_buffer = [0, 0, 0, 0], s_pointer = 0, s_length = 4, s_capacity = 4, s_count = 1, s_pool = None,
    s_isAllocatedStream = True, s_isOwner = True\<rparr>"
  let ?t = "?s\<lparr>s_buffer := [1, 2, 3, 0], s_pointer := 3\<rparr>"
  have s: "Stream_New calloc None 4 = Some ?s" by (simp add: Stream_New_def numeral_eq_Suc)
  have t: "Stream_Write_UINT24_BE 0x010203 ?s = Success () ?t"
    by (simp add: Stream_Write_UINT24_BE_def stream_write_scalar_def Stream_GetRemainingCapacity_def c_simps)
  have u: "Stream_SetPosition 9 ?t = Failure (?t\<lparr>s_pointer := 0\<rparr>)"
    by (simp add: Stream_SetPosition_def Stream_Capacity_def)
  have "stream_reachable calloc ?s" using s by (rule stream_reachable.new) simp
  moreover have "stream_step calloc ?s ?t" by (rule stream_step.write_u24_be) (subst t, simp)
  moreover have "stream_step calloc ?t (?t\<lparr>s_pointer := 0\<rparr>)" by (rule stream_step.set_position) (subst u, simp)
  ultimately have "stream_reachable calloc (?t\<lparr>s_pointer := 0\<rparr>)" by (blast intro: stream_reachable.step)
  then have "wf_stream (?t\<lparr>s_pointer := 0\<rparr>)" by (rule stream_always_well_formed) (simp add: malloc_spec_def)
  with s t u show ?thesis by auto
qed

text \<open>
  C3: with memory available, \<open>Stream_EnsureRemainingCapacity\<close> succeeds on a stream of non-zero
  capacity, makes at least the requested room behind the cursor, and keeps the cursor and everything
  written before it.
\<close>

theorem ensure_remaining_capacity_makes_room:
  assumes "growable n s" "memory_available malloc"
  shows "\<exists>t. Stream_EnsureRemainingCapacity malloc n s = Success () t \<and> wf_stream t \<and>
    n \<le> room t \<and> s_pointer t = s_pointer s \<and> written t = written s"
  using EnsureRemainingCapacity_ok [OF assms(1) order.refl assms(2)] by (auto simp: growable_def)

theorem ensure_remaining_capacity_makes_room_witness:
  "\<exists>t. Stream_EnsureRemainingCapacity calloc 9 (blank 1) = Success () t \<and> wf_stream t \<and>
    9 \<le> room t \<and> s_pointer t = s_pointer (blank 1) \<and> written t = written (blank 1)"
  by (rule ensure_remaining_capacity_makes_room) (simp_all add: growable_blank memory_available_calloc)

text \<open>
  C38: on a stream of capacity zero the doubling loop of \<open>Stream_EnsureCapacity\<close> never ends,
  whatever the allocator does and whatever non-zero capacity is asked for.
\<close>

theorem ensure_capacity_empty_stream_diverges:
  assumes "s_capacity s = 0" and "0 < n"
  shows "Stream_EnsureCapacity malloc n s = Fault NonTermination"
  using assms by (simp add: Stream_EnsureCapacity_def grow_capacity_zero)

theorem ensure_capacity_empty_stream_diverges_witness:
  "Stream_EnsureCapacity calloc 1 (Stream_StaticInit [] 0) = Fault NonTermination"
  by (rule ensure_capacity_empty_stream_diverges) (simp_all add: Stream_StaticInit_def)

end
