(* ===== verification/Codec.thy ===== *)
theory Codec
  imports WStream
begin

text \<open>
  The contracts between the stream and the protocol layers, and what follows from them once.

  A wire format is a pair of an encoder and a parser on byte lists. \<open>codec\<close> is the law of a format,
  \<open>stream_codec\<close> adds a stream writer and a stream reader that implement the pair on a stream with
  room, and \<open>growing_codec\<close> a writer that enlarges the stream itself. Each reader and writer pair of
  PER, BER, TPKT and TPDU interprets one of them in its own theory.
\<close>

section \<open>Parsers\<close>

type_synonym 'a parser = "byte list \<Rightarrow> ('a \<times> byte list) option"

definition bind_p :: "'a parser \<Rightarrow> ('a \<Rightarrow> 'b parser) \<Rightarrow> 'b parser" where
  "bind_p p q bs = (case p bs of None \<Rightarrow> None | Some (v, rest) \<Rightarrow> q v rest)"

definition return_p :: "'a \<Rightarrow> 'a parser" where
  "return_p v bs = Some (v, bs)"

definition fail_p :: "'a parser" where
  "fail_p bs = None"

definition skip_p :: "nat \<Rightarrow> unit parser" where
  "skip_p n bs = (if n \<le> length bs then Some ((), drop n bs) else None)"

fun many_p :: "nat \<Rightarrow> 'a parser \<Rightarrow> 'a list parser" where
  "many_p 0 p = return_p []"
| "many_p (Suc n) p = bind_p p (\<lambda>v. bind_p (many_p n p) (\<lambda>vs. return_p (v # vs)))"

lemma bind_p_Some [simp]: "p bs = Some (v, rest) \<Longrightarrow> bind_p p q bs = q v rest"
  by (simp add: bind_p_def)

lemma bind_p_None [simp]: "p bs = None \<Longrightarrow> bind_p p q bs = None"
  by (simp add: bind_p_def)

definition map_p :: "('a \<Rightarrow> 'b) \<Rightarrow> 'a parser \<Rightarrow> 'b parser" where
  "map_p g p = bind_p p (\<lambda>v. return_p (g v))"

lemma bind_p_assoc: "bind_p (bind_p p q) r = bind_p p (\<lambda>v. bind_p (q v) r)"
  by (rule ext) (simp add: bind_p_def split: option.split)

lemma bind_p_cong: "(\<And>v xs. q v xs = r v xs) \<Longrightarrow> bind_p p q bs = bind_p p r bs"
  by (simp add: bind_p_def split: option.split)

section \<open>Readers\<close>

text \<open>
  \<open>agrees s r x\<close>: the outcome \<open>x\<close> of a reader run in \<open>s\<close> is the parser result \<open>r\<close> on the unread
  bytes of \<open>s\<close>, and the only change to the stream is that the cursor moved within them.
\<close>

definition agrees :: "wStream \<Rightarrow> ('a \<times> byte list) option \<Rightarrow> (wStream, 'a) outcome \<Rightarrow> bool" where
  "agrees s r x \<longleftrightarrow> (case r of
     Some (v, rest) \<Rightarrow>
       \<exists>n \<le> length (remaining s). x = Success v (advance n s) \<and> rest = drop n (remaining s)
   | None \<Rightarrow> \<exists>n \<le> length (remaining s). x = Failure (advance n s))"

definition reads :: "(wStream, 'a) cfun \<Rightarrow> 'a parser \<Rightarrow> bool" where
  "reads f p \<longleftrightarrow> (\<forall>s. readable s \<longrightarrow> agrees s (p (remaining s)) (f s))"

text \<open>
  Inside a function the contract holds after a length check: \<open>reads_when m\<close> is the contract on
  streams with at least \<open>m\<close> unread bytes.
\<close>

definition reads_when :: "nat \<Rightarrow> (wStream, 'a) cfun \<Rightarrow> 'a parser \<Rightarrow> bool" where
  "reads_when m f p \<longleftrightarrow>
     (\<forall>s. readable s \<and> m \<le> length (remaining s) \<longrightarrow> agrees s (p (remaining s)) (f s))"

lemma agrees_None [simp]:
  "agrees s None x \<longleftrightarrow> (\<exists>n \<le> length (remaining s). x = Failure (advance n s))"
  by (simp add: agrees_def)

lemma agrees_Some [simp]:
  "agrees s (Some (v, rest)) x \<longleftrightarrow>
     (\<exists>n \<le> length (remaining s). x = Success v (advance n s) \<and> rest = drop n (remaining s))"
  by (simp add: agrees_def)

lemma agrees_here: "agrees s None (Failure s)" "agrees s (Some (v, remaining s)) (Success v s)"
  by (auto intro!: exI [of _ 0])

lemma agrees_advance:
  assumes "n \<le> length (remaining s)" and "agrees (advance n s) r x"
  shows "agrees s r x"
proof (cases r)
  case None
  with assms obtain i where "i \<le> length (remaining s) - n" "x = Failure (advance (n + i) s)"
    by auto
  with None assms(1) show ?thesis by (auto intro!: exI [of _ "n + i"])
next
  case (Some a)
  with assms obtain v rest i where "a = (v, rest)" "i \<le> length (remaining s) - n"
    "x = Success v (advance (n + i) s)" "rest = drop (n + i) (remaining s)"
    by (cases a) (auto simp: add.commute)
  with Some assms(1) show ?thesis by (auto intro!: exI [of _ "n + i"])
qed

lemma agrees_bind:
  assumes f: "agrees s (p (remaining s)) (f s)"
    and k: "\<And>v n. n \<le> length (remaining s) \<Longrightarrow> p (remaining s) = Some (v, drop n (remaining s)) \<Longrightarrow>
      agrees (advance n s) (q v (remaining (advance n s))) (k v (advance n s))"
  shows "agrees s (bind_p p q (remaining s)) (bind_c f k s)"
proof (cases "p (remaining s)")
  case None
  with f show ?thesis by (auto simp: bind_c_def)
next
  case (Some a)
  with f obtain v n where n: "n \<le> length (remaining s)" "f s = Success v (advance n s)"
    and a: "a = (v, drop n (remaining s))" by (cases a) auto
  from k [OF n(1)] Some a have
    "agrees (advance n s) (q v (remaining (advance n s))) (k v (advance n s))" by simp
  with n have "agrees s (q v (remaining (advance n s))) (k v (advance n s))"
    by (rule_tac agrees_advance)
  with Some a n show ?thesis by (simp add: bind_c_def)
qed

lemma reads_iff_reads_when: "reads f p \<longleftrightarrow> reads_when 0 f p"
  by (simp add: reads_def reads_when_def)

lemma reads_when_mono: "reads_when m f p \<Longrightarrow> m \<le> m' \<Longrightarrow> reads_when m' f p"
  by (simp add: reads_when_def)

lemma reads_reads_when: "reads f p \<Longrightarrow> reads_when m f p"
  by (simp add: reads_def reads_when_def)

lemma reads_bind:
  assumes "reads f p" and "\<And>v. reads (k v) (q v)"
  shows "reads (bind_c f k) (bind_p p q)"
  unfolding reads_def
proof (intro allI impI, rule agrees_bind)
  fix s assume s: "readable s"
  with assms(1) show "agrees s (p (remaining s)) (f s)" by (simp add: reads_def)
  fix v n assume "n \<le> length (remaining s)"
  with s have "readable (advance n s)" by simp
  with assms(2) [of v] show
    "agrees (advance n s) (q v (remaining (advance n s))) (k v (advance n s))"
    unfolding reads_def by blast
qed

lemma reads_return: "reads (return_c v) (return_p v)"
  by (auto simp: reads_def return_c_def return_p_def intro!: exI [of _ 0])

lemma reads_fail: "reads fail_c fail_p"
  by (auto simp: reads_def fail_c_def fail_p_def intro!: exI [of _ 0])

lemma reads_if: "(b \<Longrightarrow> reads f p) \<Longrightarrow> (\<not> b \<Longrightarrow> reads g q) \<Longrightarrow>
    reads (if b then f else g) (if b then p else q)"
  by simp

lemma reads_SafeSeek: "reads (Stream_SafeSeek n) (skip_p n)"
  unfolding reads_def skip_p_def by (auto simp: stream_exec intro: exI [of _ 0])

definition check_p :: "nat \<Rightarrow> 'a parser \<Rightarrow> 'a parser" where
  "check_p n p bs = (if n \<le> length bs then p bs else None)"

definition u8_p :: "8 word parser" where
  "u8_p bs = Some (hd bs, tl bs)"

definition u16_be_p :: "16 word parser" where
  "u16_be_p bs = Some (winpr_Data_Get_UINT16_BE bs, drop 2 bs)"

definition u16_le_p :: "16 word parser" where
  "u16_le_p bs = Some (winpr_Data_Get_UINT16 bs, drop 2 bs)"

definition u32_be_p :: "32 word parser" where
  "u32_be_p bs = Some (winpr_Data_Get_UINT32_BE bs, drop 4 bs)"

definition bytes_p :: "nat \<Rightarrow> byte list parser" where
  "bytes_p n bs = Some (take n bs, drop n bs)"

definition drop_p :: "nat \<Rightarrow> unit parser" where
  "drop_p n bs = Some ((), drop n bs)"

lemmas parser_defs = bind_p_def return_p_def fail_p_def check_p_def u8_p_def u16_be_p_def
  u16_le_p_def u32_be_p_def bytes_p_def drop_p_def

lemma bind_check:
  assumes "readable s"
  shows "bind_c (Stream_CheckAndLogRequiredLength n) k s =
    (if n \<le> length (remaining s) then k () s else Failure s)"
  using assms by (simp add: bind_c_def stream_exec)

lemma reads_when_check:
  assumes "reads_when (max m n) f p"
  shows "reads_when m (bind_c (Stream_CheckAndLogRequiredLength n) (\<lambda>_. f)) (check_p n p)"
  using assms unfolding reads_when_def check_p_def
  by (simp add: bind_check) (auto intro: exI [of _ 0])

lemma reads_check:
  assumes "reads_when n f p"
  shows "reads (bind_c (Stream_CheckAndLogRequiredLength n) (\<lambda>_. f)) (check_p n p)"
  using reads_when_check [of 0 n f p] assms by (simp add: reads_iff_reads_when)

lemma reads_when_check_only:
  assumes "reads_when n f p"
  shows "reads_when m (bind_c (Stream_CheckAndLogRequiredLength n) (\<lambda>_. f)) (check_p n p)"
  by (rule reads_reads_when) (rule reads_check [OF assms])

text \<open>One primitive that consumes \<open>n\<close> bytes, followed by the rest of the function.\<close>

lemma reads_when_step:
  assumes prim: "\<And>s. readable s \<Longrightarrow> n \<le> length (remaining s) \<Longrightarrow>
      f s = Success (g (remaining s)) (advance n s)"
    and p: "\<And>bs. n \<le> length bs \<Longrightarrow> p bs = Some (g bs, drop n bs)"
    and k: "\<And>v. reads_when m (k v) (q v)"
  shows "reads_when (n + m) (bind_c f k) (bind_p p q)"
  unfolding reads_when_def
proof (intro allI impI)
  fix s assume s: "readable s \<and> n + m \<le> length (remaining s)"
  then have "readable (advance n s)" "m \<le> length (remaining (advance n s))" by auto
  with k [of "g (remaining s)"] have
    "agrees (advance n s) (q (g (remaining s)) (remaining (advance n s)))
      (k (g (remaining s)) (advance n s))" unfolding reads_when_def by blast
  then have "agrees s (q (g (remaining s)) (remaining (advance n s)))
      (k (g (remaining s)) (advance n s))" using s by (rule_tac agrees_advance) auto
  then show "agrees s (bind_p p q (remaining s)) (bind_c f k s)"
    using s by (simp add: bind_p_def bind_c_def prim p)
qed

lemma reads_when_take:
  assumes "n \<le> m"
    and "\<And>s. readable s \<Longrightarrow> n \<le> length (remaining s) \<Longrightarrow>
      f s = Success (g (remaining s)) (advance n s)"
    and "\<And>bs. n \<le> length bs \<Longrightarrow> p bs = Some (g bs, drop n bs)"
    and "\<And>v. reads_when (m - n) (k v) (q v)"
  shows "reads_when m (bind_c f k) (bind_p p q)"
  using reads_when_step [OF assms(2-4)] assms(1) by simp

lemma reads_when_u8:
  "1 \<le> m \<Longrightarrow> (\<And>v. reads_when (m - 1) (k v) (q v)) \<Longrightarrow>
     reads_when m (bind_c Stream_Read_UINT8 k) (bind_p u8_p q)"
  by (erule reads_when_take [where g = hd]) (simp_all add: u8_p_def stream_exec drop_Suc Suc_le_eq)

lemma reads_when_u16_be:
  "2 \<le> m \<Longrightarrow> (\<And>v. reads_when (m - 2) (k v) (q v)) \<Longrightarrow>
     reads_when m (bind_c Stream_Read_UINT16_BE k) (bind_p u16_be_p q)"
  by (erule reads_when_take) (simp_all add: u16_be_p_def stream_exec)

lemma reads_when_u16_le:
  "2 \<le> m \<Longrightarrow> (\<And>v. reads_when (m - 2) (k v) (q v)) \<Longrightarrow>
     reads_when m (bind_c Stream_Read_UINT16 k) (bind_p u16_le_p q)"
  by (erule reads_when_take) (simp_all add: u16_le_p_def stream_exec)

lemma reads_when_u32_be:
  "4 \<le> m \<Longrightarrow> (\<And>v. reads_when (m - 4) (k v) (q v)) \<Longrightarrow>
     reads_when m (bind_c Stream_Read_UINT32_BE k) (bind_p u32_be_p q)"
  by (erule reads_when_take) (simp_all add: u32_be_p_def stream_exec)

lemma reads_when_bytes:
  "n \<le> m \<Longrightarrow> (\<And>v. reads_when (m - n) (k v) (q v)) \<Longrightarrow>
     reads_when m (bind_c (Stream_Read n) k) (bind_p (bytes_p n) q)"
  by (erule reads_when_take) (simp_all add: bytes_p_def stream_exec)

lemma reads_when_seek:
  assumes "n \<le> m" and "reads_when (m - n) f p"
  shows "reads_when m (bind_c (Stream_Seek n) (\<lambda>_. f)) (bind_p (drop_p n) (\<lambda>_. p))"
proof (rule reads_when_take [OF assms(1)])
  show "Stream_Seek n s = Success () (advance n s)" if "readable s" "n \<le> length (remaining s)" for s
    using that remaining_le_room [of s] by (simp add: stream_exec)
qed (simp_all add: drop_p_def assms(2))

text \<open>Keep a pointer to the next \<open>n\<close> bytes and seek past them.\<close>

lemma reads_when_pointer:
  assumes "n \<le> m" and "\<And>v. reads_when (m - n) (k v) (q v)"
  shows "reads_when m (bind_c Stream_ConstPointer (\<lambda>p. bind_c (Stream_Seek n) (\<lambda>_. k (take n p))))
    (bind_p (bytes_p n) q)"
proof -
  let ?f = "\<lambda>s. bind_c Stream_ConstPointer (\<lambda>p. bind_c (Stream_Seek n) (\<lambda>_. return_c (take n p))) s"
  have "?f s = Success (take n (remaining s)) (advance n s)"
    if "readable s" "n \<le> length (remaining s)" for s
    using that remaining_le_room [of s]
    by (simp add: bind_c_def Stream_ConstPointer_def return_c_def stream_exec take_remaining)
  then have "reads_when m (bind_c ?f k) (bind_p (bytes_p n) q)"
    using assms by (intro reads_when_take [where g = "take n"]) (simp_all add: bytes_p_def)
  moreover have "bind_c ?f k =
      bind_c Stream_ConstPointer (\<lambda>p. bind_c (Stream_Seek n) (\<lambda>_. k (take n p)))"
    by (rule ext) (simp add: bind_c_def return_c_def Stream_ConstPointer_def split: outcome.split)
  ultimately show ?thesis by simp
qed

definition peek_p :: "byte parser" where
  "peek_p bs = Some (hd bs, bs)"

lemma reads_when_peek:
  assumes "1 \<le> m" "\<And>v. reads_when m (k v) (q v)"
  shows "reads_when m (bind_c Stream_Peek_UINT8 k) (bind_p peek_p q)"
  unfolding reads_when_def
proof (intro allI impI)
  fix s assume s: "readable s \<and> m \<le> length (remaining s)"
  then have "remaining s \<noteq> []" using assms(1) by auto
  then show "agrees s (bind_p peek_p q (remaining s)) (bind_c Stream_Peek_UINT8 k s)"
    using s assms(2) [of "hd (remaining s)"]
    by (simp add: bind_p_def peek_p_def bind_c_def stream_exec reads_when_def)
qed

text \<open>A function that ends in one primitive.\<close>

lemma bind_c_return_right: "bind_c f return_c = f"
  by (rule ext) (simp add: bind_c_def return_c_def split: outcome.split)

lemma bind_p_return_right: "bind_p p return_p = p"
  by (rule ext) (simp add: bind_p_def return_p_def split: option.split)

lemma reads_when_last:
  assumes "reads_when m (bind_c f return_c) (bind_p p return_p)"
  shows "reads_when m f p"
  using assms by (simp only: bind_c_return_right bind_p_return_right)

lemma reads_when_last_unit:
  fixes f :: "(wStream, unit) cfun"
  assumes "reads_when m (bind_c f (\<lambda>_. return_c ())) (bind_p p (\<lambda>_. return_p ()))"
  shows "reads_when m f p"
proof (rule reads_when_last)
  have c: "(\<lambda>_. return_c ()) = (return_c :: unit \<Rightarrow> (wStream, unit) cfun)"
    and p: "(\<lambda>_. return_p ()) = (return_p :: unit \<Rightarrow> unit parser)" by (rule ext, simp)+
  show "reads_when m (bind_c f return_c) (bind_p p return_p)" using assms unfolding c p .
qed

lemma reads_when_bind:
  assumes f: "reads f p" and k: "\<And>v. reads (k v) (q v)"
  shows "reads_when m (bind_c f k) (bind_p p q)"
  by (rule reads_reads_when) (rule reads_bind [OF f k])

lemma reads_when_if: "(b \<Longrightarrow> reads_when m f p) \<Longrightarrow> (\<not> b \<Longrightarrow> reads_when m g q) \<Longrightarrow>
    reads_when m (if b then f else g) (if b then p else q)"
  by simp

lemmas reads_when_basic = reads_return [THEN reads_reads_when] reads_fail [THEN reads_reads_when]

lemmas reads_when_intros = reads_check reads_when_check_only reads_when_u8 reads_when_u16_be
  reads_when_u16_le reads_when_u32_be reads_when_bytes reads_when_seek reads_when_if reads_when_basic
  reads_if reads_return reads_fail

lemma check_u8: "check_p 1 (bind_p u8_p f) (b # r) = f b r" "check_p 1 p [] = None"
  by (simp_all add: parser_defs)

lemma reads_when_bytes_last: "reads_when n (Stream_Read n) (bytes_p n)"
  by (rule reads_when_last, intro reads_when_intros) simp

lemma reads_cong: "reads f p \<Longrightarrow> (\<And>bs. p bs = q bs) \<Longrightarrow> reads f q"
  by (simp add: reads_def)

lemma reads_Some:
  assumes "reads f p" "readable s" "p (remaining s) = Some (v, rest)"
  obtains n where "n \<le> length (remaining s)" "f s = Success v (advance n s)"
    "rest = drop n (remaining s)"
  using assms(1) [unfolded reads_def, rule_format, OF assms(2)] assms(3) that by auto

lemma reads_None:
  assumes "reads f p" "readable s" "p (remaining s) = None"
  obtains n where "n \<le> length (remaining s)" "f s = Failure (advance n s)"
  using assms(1) [unfolded reads_def, rule_format, OF assms(2)] assms(3) that by auto

text \<open>What the contract means: no fault, and nothing but the cursor moves, within the data.\<close>

lemma reads_no_fault: "reads f p \<Longrightarrow> readable s \<Longrightarrow> f s \<noteq> Fault e"
  unfolding reads_def agrees_def by (drule spec [of _ s]) (auto split: option.splits)

lemma reads_moves: "reads f p \<Longrightarrow> readable s \<Longrightarrow> t \<in> left_in (f s) \<Longrightarrow>
    \<exists>n \<le> length (remaining s). t = advance n s"
  unfolding reads_def agrees_def by (drule spec [of _ s]) (auto split: option.splits)

lemma reads_readable: "reads f p \<Longrightarrow> readable s \<Longrightarrow> t \<in> left_in (f s) \<Longrightarrow> readable t"
  using reads_moves by fastforce

section \<open>Writers\<close>

definition writes :: "(wStream, 'r) cfun \<Rightarrow> 'r \<Rightarrow> byte list \<Rightarrow> bool" where
  "writes f r bs \<longleftrightarrow> (\<forall>s. wf_stream s \<and> length bs \<le> room s \<longrightarrow> f s = Success r (put bs s))"

definition emits :: "(malloc \<Rightarrow> (wStream, 'r) cfun) \<Rightarrow> 'r \<Rightarrow> byte list \<Rightarrow> bool" where
  "emits f r bs \<longleftrightarrow> (\<forall>malloc s. memory_available malloc \<and> growable (length bs) s \<longrightarrow>
     (\<exists>t. f malloc s = Success r t \<and> growable 0 t \<and> s_pointer t = s_pointer s + length bs \<and>
        written t = written s @ bs))"

lemma writesD: "writes f r bs \<Longrightarrow> wf_stream s \<Longrightarrow> length bs \<le> room s \<Longrightarrow> f s = Success r (put bs s)"
  by (simp add: writes_def)

lemma writes_bind:
  assumes "writes f r xs" "writes (k r) r' ys"
  shows "writes (bind_c f k) r' (xs @ ys)"
  using assms by (auto simp: writes_def bind_c_def)

lemma writes_seq: "writes f () xs \<Longrightarrow> writes g r ys \<Longrightarrow> writes (bind_c f (\<lambda>_. g)) r (xs @ ys)"
  by (rule writes_bind)

lemma writes_return: "writes (return_c r) r []"
  by (simp add: writes_def return_c_def)

lemma emits_bind:
  assumes f: "emits f r xs" and k: "emits (\<lambda>m. k m r) r' ys"
  shows "emits (\<lambda>m. bind_c (f m) (k m)) r' (xs @ ys)"
  unfolding emits_def
proof (intro allI impI)
  fix malloc s
  assume *: "memory_available malloc \<and> growable (length (xs @ ys)) s"
  then have "growable (length xs) s" by (simp add: growable_def)
  with f * obtain t where t: "f malloc s = Success r t" "growable 0 t"
    "s_pointer t = s_pointer s + length xs" "written t = written s @ xs"
    unfolding emits_def by blast
  with * have "growable (length ys) t" by (simp add: growable_def)
  with k * obtain u where "k malloc r t = Success r' u" "growable 0 u"
    "s_pointer u = s_pointer t + length ys" "written u = written t @ ys"
    unfolding emits_def by blast
  with t show "\<exists>t. bind_c (f malloc) (k malloc) s = Success r' t \<and> growable 0 t \<and>
      s_pointer t = s_pointer s + length (xs @ ys) \<and> written t = written s @ xs @ ys"
    by (auto simp: bind_c_def)
qed

lemma writes_scalars:
  "writes (Stream_Write_UINT8 a) () [a]" "writes (Stream_Write_UINT16 b) () (le16 b)"
  "writes (Stream_Write_UINT16_BE b) () (be16 b)" "writes (Stream_Write_UINT32 c) () (le32 c)"
  "writes (Stream_Write_UINT32_BE c) () (be32 c)" "writes (Stream_Write bs) () bs"
  "writes (Stream_Zero n) () (replicate n 0)"
  by (simp_all add: writes_def stream_exec)

lemma writes_cast:
  fixes v :: "'a::len word" and k :: "'b::len word \<Rightarrow> (wStream, 'r) cfun"
  assumes "(ucast (ucast v :: 'b word) :: 'a word) = v" and "writes (k (ucast v)) r bs"
  shows "writes (bind_c (asserting_int_cast v) k) r bs"
  using assms by (simp add: writes_def asserting_int_cast_def c_simps)

lemma writes_assert:
  "b \<Longrightarrow> writes f r bs \<Longrightarrow> writes (bind_c (assert_c b) (\<lambda>_. f)) r bs"
  by (simp add: writes_def c_simps)

lemma writes_cong: "writes f r bs \<Longrightarrow> bs = bs' \<Longrightarrow> writes f r bs'"
  by simp

text \<open>\<open>WINPR_ASSERT(Stream_GetRemainingCapacity(s) >= n)\<close>\<close>

definition assert_capacity :: "nat \<Rightarrow> (wStream, unit) cfun" where
  "assert_capacity n = bind_c Stream_GetRemainingCapacity (\<lambda>rem. assert_c (rem \<ge> n))"

lemma writes_check_capacity:
  "writes f r bs \<Longrightarrow> n \<le> length bs \<Longrightarrow>
     writes (bind_c (Stream_CheckAndLogRequiredCapacity n) (\<lambda>_. f)) r bs"
  by (simp add: writes_def c_simps stream_exec)

lemma writes_assert_capacity:
  "writes f r bs \<Longrightarrow> n \<le> length bs \<Longrightarrow> writes (bind_c (assert_capacity n) (\<lambda>_. f)) r bs"
  by (simp add: writes_def assert_capacity_def c_simps stream_exec)

lemma writes_u8_then: "writes (k ()) r bs \<Longrightarrow> writes (bind_c (Stream_Write_UINT8 a) k) r (a # bs)"
  using writes_bind [OF writes_scalars(1)] by fastforce

lemma writes_u16_be_then:
  "writes (k ()) r bs \<Longrightarrow> writes (bind_c (Stream_Write_UINT16_BE a) k) r (be16 a @ bs)"
  by (rule writes_bind [OF writes_scalars(3)])

lemma writes_u32_be_then:
  "writes (k ()) r bs \<Longrightarrow> writes (bind_c (Stream_Write_UINT32_BE a) k) r (be32 a @ bs)"
  by (rule writes_bind [OF writes_scalars(5)])

lemma writes_bytes_then:
  "writes (k ()) r bs \<Longrightarrow> writes (bind_c (Stream_Write a) k) r (a @ bs)"
  by (rule writes_bind [OF writes_scalars(6)])

lemma writes_return_eq: "r = r' \<Longrightarrow> writes (return_c r) r' []"
  by (simp add: writes_return)

lemma writes_u16_then:
  "writes (k ()) r bs \<Longrightarrow> writes (bind_c (Stream_Write_UINT16 a) k) r (le16 a @ bs)"
  by (rule writes_bind [OF writes_scalars(2)])

lemma writes_u32_then:
  "writes (k ()) r bs \<Longrightarrow> writes (bind_c (Stream_Write_UINT32 a) k) r (le32 a @ bs)"
  by (rule writes_bind [OF writes_scalars(4)])

lemma writes_zero_then:
  "writes (k ()) r bs \<Longrightarrow> writes (bind_c (Stream_Zero n) k) r (replicate n 0 @ bs)"
  by (rule writes_bind [OF writes_scalars(7)])

lemma writes_if: "(b \<Longrightarrow> writes f r xs) \<Longrightarrow> (\<not> b \<Longrightarrow> writes g r ys) \<Longrightarrow>
    writes (if b then f else g) r (if b then xs else ys)"
  by simp

text \<open>
  Symbolic execution of a writer: the bytes it appends are collected from left to right. The side
  conditions come after the rest of the function.
\<close>

lemmas writes_steps = writes_if writes_assert_capacity writes_check_capacity writes_assert [rotated]
  writes_u8_then writes_u16_then writes_u16_be_then writes_u32_then writes_u32_be_then
  writes_bytes_then writes_zero_then writes_cast [rotated] writes_return_eq writes_scalars

text \<open>
  The writing pattern of the PER layer: make room for at most \<open>n\<close> bytes, then write \<open>bs\<close>.
\<close>

lemma emits_ensure:
  assumes w: "writes f r bs" and "k = length bs"
  shows "emits (\<lambda>m. bind_c (Stream_EnsureRemainingCapacity m k) (\<lambda>_. f)) r bs"
  unfolding emits_def
proof (intro allI impI)
  fix malloc s
  assume *: "memory_available malloc \<and> growable (length bs) s"
  then obtain t where t: "Stream_EnsureRemainingCapacity malloc k s = Success () t"
    "growable (length bs) t" "length bs \<le> room t" "s_pointer t = s_pointer s" "written t = written s"
    using EnsureRemainingCapacity_ok [of "length bs" s k malloc] \<open>k = length bs\<close> by auto
  then have "f t = Success r (put bs t)" using w by (simp add: writes_def growable_def)
  with t show "\<exists>t. bind_c (Stream_EnsureRemainingCapacity malloc k) (\<lambda>_. f) s = Success r t \<and>
      growable 0 t \<and> s_pointer t = s_pointer s + length bs \<and> written t = written s @ bs"
    by (auto simp: bind_c_def growable_def)
qed

lemma writes_ensure:
  assumes "writes f r bs" and "k \<le> length bs"
  shows "writes (bind_c (Stream_EnsureRemainingCapacity m k) (\<lambda>_. f)) r bs"
  using assms by (auto simp: writes_def bind_c_def EnsureRemainingCapacity_room)

lemma emits_return: "emits (\<lambda>m. return_c r) r []"
  by (auto simp: emits_def return_c_def)

section \<open>Formats\<close>

locale codec =
  fixes enc :: "'a \<Rightarrow> byte list" and dec :: "'a parser" and valid :: "'a \<Rightarrow> bool"
  assumes dec_enc: "valid v \<Longrightarrow> dec (enc v @ rest) = Some (v, rest)"
begin

lemma enc_prefix_free:
  assumes "valid v" "valid w" "enc v @ xs = enc w @ ys"
  shows "v = w \<and> xs = ys"
proof -
  have "Some (v, xs) = dec (enc v @ xs)" by (rule dec_enc [OF assms(1), symmetric])
  also have "\<dots> = Some (w, ys)" by (simp only: assms(3) dec_enc [OF assms(2)])
  finally show ?thesis by simp
qed

lemma dec_many:
  "\<forall>v \<in> set vs. valid v \<Longrightarrow> many_p (length vs) dec (concat (map enc vs) @ rest) = Some (vs, rest)"
  by (induction vs) (auto simp: return_p_def dec_enc)

end

locale stream_codec = codec enc dec valid
  for enc :: "'a \<Rightarrow> byte list" and dec :: "'a parser" and valid :: "'a \<Rightarrow> bool" +
  fixes wr :: "'a \<Rightarrow> (wStream, 'r) cfun" and res :: "'a \<Rightarrow> 'r" and rd :: "(wStream, 'a) cfun"
  assumes wr_writes: "valid v \<Longrightarrow> writes (wr v) (res v) (enc v)"
    and rd_reads: "reads rd dec"
begin

lemma rd_accepts:
  assumes "readable s" "valid v" "remaining s = enc v @ rest"
  shows "rd s = Success v (advance (length (enc v)) s)"
proof -
  from assms have "dec (remaining s) = Some (v, rest)" by (simp add: dec_enc)
  with rd_reads assms(1) obtain n where n: "n \<le> length (remaining s)"
    "rd s = Success v (advance n s)" "rest = drop n (remaining s)" by (rule reads_Some)
  have "length rest = length (remaining s) - n"
    using arg_cong [OF n(3), of length] by simp
  moreover have "length (remaining s) = length (enc v) + length rest"
    using assms(3) by simp
  ultimately have "n = length (enc v)" using n(1) by linarith
  with n(2) show ?thesis by simp
qed

end

text \<open>
  The turn-around between writing and reading one message: \<open>Stream_SealLength\<close>, then
  \<open>Stream_SetPosition\<close> back to where the message starts.
\<close>

definition turn_around :: "nat \<Rightarrow> (wStream, unit) cfun" where
  "turn_around p = bind_c Stream_SealLength (\<lambda>_. Stream_SetPosition p)"

lemma turn_around_ok:
  assumes "wf_stream t" "p \<le> s_pointer t"
  obtains u where "turn_around p t = Success () u" "readable u" "s_pointer u = p"
    "remaining u = drop p (written t)"
  using assms that [of "t\<lparr>s_length := s_pointer t, s_pointer := p\<rparr>"]
  by (simp add: turn_around_def Stream_SealLength_def Stream_SetPosition_def Stream_Capacity_def
      c_simps wf_stream_def readable_def remaining_def written_def)

lemma turn_around_put:
  assumes "wf_stream s" "length bs \<le> room s"
  shows "\<exists>u. turn_around (s_pointer s) (put bs s) = Success () u \<and> readable u \<and> remaining u = bs"
proof -
  have len: "length (written s) = s_pointer s"
    using assms(1) by (simp add: written_def wf_stream_def)
  obtain u where "turn_around (s_pointer s) (put bs s) = Success () u" "readable u"
    "remaining u = drop (s_pointer s) (written (put bs s))"
    using turn_around_ok [of "put bs s" "s_pointer s"] assms by auto
  with len assms show ?thesis by auto
qed

context stream_codec
begin

text \<open>Reading back what was written returns the value and consumes all of it.\<close>

lemma write_read:
  assumes "valid v" "wf_stream s" "length (enc v) \<le> room s"
  shows "\<exists>t u w. wr v s = Success (res v) t \<and> turn_around (s_pointer s) t = Success () u \<and>
    rd u = Success v w \<and> remaining w = []"
proof -
  let ?t = "put (enc v) s"
  have t: "wr v s = Success (res v) ?t"
    using wr_writes assms by (simp add: writes_def)
  obtain u where u: "turn_around (s_pointer s) ?t = Success () u" "readable u" "remaining u = enc v @ []"
    using turn_around_put [OF assms(2,3)] by auto
  with rd_accepts u assms(1) have "rd u = Success v (advance (length (enc v)) u)" by blast
  with t u show ?thesis by auto
qed

end

text \<open>A writer whose bytes the reader accepts.\<close>

lemma emit_accepted:
  assumes e: "emits f r bs" and rd: "reads rd dec" and dec: "dec bs = Some (v, [])"
    and "growable (length bs) s" "memory_available malloc"
  shows "\<exists>t u w. f malloc s = Success r t \<and> written t = written s @ bs \<and>
    turn_around (s_pointer s) t = Success () u \<and> rd u = Success v w \<and> remaining w = []"
proof -
  obtain t where t: "f malloc s = Success r t" "growable 0 t" "s_pointer t = s_pointer s + length bs"
    "written t = written s @ bs"
    using e assms(4,5) unfolding emits_def by blast
  have len: "length (written s) = s_pointer s"
    using assms(4) by (simp add: written_def growable_def wf_stream_def)
  obtain u where u: "turn_around (s_pointer s) t = Success () u" "readable u"
    "remaining u = drop (s_pointer s) (written t)"
    using turn_around_ok [of t "s_pointer s"] t by (auto simp: growable_def)
  then have "remaining u = bs" using len t by simp
  with reads_Some [OF rd u(2)] dec obtain n where "rd u = Success v (advance n u)" "n \<le> length (remaining u)"
    "[] = drop n (remaining u)" by metis
  with t u show ?thesis by auto
qed

locale growing_codec = codec enc dec valid
  for enc :: "'a \<Rightarrow> byte list" and dec :: "'a parser" and valid :: "'a \<Rightarrow> bool" +
  fixes wrm :: "malloc \<Rightarrow> 'a \<Rightarrow> (wStream, 'r) cfun" and res :: "'a \<Rightarrow> 'r"
    and rd :: "(wStream, 'a) cfun"
  assumes wrm_emits: "valid v \<Longrightarrow> emits (\<lambda>m. wrm m v) (res v) (enc v)"
    and wrm_writes: "valid v \<Longrightarrow> writes (wrm m v) (res v) (enc v)"
    and rdm_reads: "reads rd dec"

sublocale growing_codec \<subseteq> stream_codec enc dec valid "wrm m" res rd for m
  by unfold_locales (simp_all add: wrm_writes rdm_reads)

context growing_codec
begin

lemma emit_read:
  assumes "valid v" "growable (length (enc v)) s" "memory_available malloc"
  shows "\<exists>t u w. wrm malloc v s = Success (res v) t \<and> written t = written s @ enc v \<and>
    turn_around (s_pointer s) t = Success () u \<and> rd u = Success v w \<and> remaining w = []"
  using emit_accepted [OF wrm_emits [OF assms(1)] rdm_reads _ assms(2,3)] dec_enc [OF assms(1), of "[]"] by simp

end

text \<open>A writer whose bytes the reader refuses.\<close>

lemma emit_rejected:
  assumes e: "emits f r bs" and rd: "reads rd dec" and "dec bs = None"
    and "growable (length bs) s" "memory_available malloc"
  shows "\<exists>t u w. f malloc s = Success r t \<and> written t = written s @ bs \<and>
    turn_around (s_pointer s) t = Success () u \<and> rd u = Failure w"
proof -
  obtain t where t: "f malloc s = Success r t" "growable 0 t"
    "s_pointer t = s_pointer s + length bs" "written t = written s @ bs"
    using e assms(4,5) unfolding emits_def by blast
  have len: "length (written s) = s_pointer s"
    using assms(4) by (simp add: written_def growable_def wf_stream_def)
  obtain u where u: "turn_around (s_pointer s) t = Success () u" "readable u"
    "remaining u = drop (s_pointer s) (written t)"
    using turn_around_ok [of t "s_pointer s"] t by (auto simp: growable_def)
  then have "remaining u = bs" using len t by simp
  with rd u(2) assms(3) obtain w where "rd u = Failure w" by (auto elim: reads_None)
  with t u show ?thesis by auto
qed

end
