(* ===== verification/Session.thy ===== *)
theory Session
  imports Codec
begin

text \<open>
  Functions on a stream and on the state of a session: \<open>nego.c\<close>, \<open>mcs.c\<close> and \<open>gcc.c\<close> read a message and
  change the structure of their module on the way. The contract of such a function is a parser that
  starts from the state and yields the next one.
\<close>

section \<open>Running on the stream or on the state\<close>

definition on_stream :: "(wStream, 'a) cfun \<Rightarrow> (wStream \<times> 'm, 'a) cfun" where
  "on_stream f = (\<lambda>(s, m). case f s of
     Fault e \<Rightarrow> Fault e | Failure s' \<Rightarrow> Failure (s', m) | Success v s' \<Rightarrow> Success v (s', m))"

definition get_state :: "(wStream \<times> 'm, 'm) cfun" where
  "get_state = (\<lambda>(s, m). Success m (s, m))"

definition change_state :: "('m \<Rightarrow> 'm) \<Rightarrow> (wStream \<times> 'm, unit) cfun" where
  "change_state g = (\<lambda>(s, m). Success () (s, g m))"

text \<open>A call whose result the code ignores.\<close>

definition ignoring :: "('s, unit) cfun \<Rightarrow> ('s, unit) cfun" where
  "ignoring f s = (case f s of Failure s' \<Rightarrow> Success () s' | r \<Rightarrow> r)"

lemma on_stream_bind: "f s = Success v s' \<Longrightarrow> bind_c (on_stream f) g (s, m) = g v (s', m)"
  by (simp add: bind_c_def on_stream_def)

lemma on_stream_fail: "f s = Failure s' \<Longrightarrow> bind_c (on_stream f) g (s, m) = Failure (s', m)"
  by (simp add: bind_c_def on_stream_def)

lemma state_bind:
  "bind_c get_state k (s, m) = k m (s, m)" "bind_c (change_state g) h (s, m) = h () (s, g m)"
  by (simp_all add: bind_c_def get_state_def change_state_def)

section \<open>The contract\<close>

type_synonym ('m, 'r) state_parser = "'m \<Rightarrow> ('r \<times> 'm) parser"

definition bind_sp :: "('m, 'a) state_parser \<Rightarrow> ('a \<Rightarrow> ('m, 'b) state_parser) \<Rightarrow> ('m, 'b) state_parser" where
  "bind_sp p q m = bind_p (p m) (\<lambda>(v, m'). q v m')"

definition lift_sp :: "'a parser \<Rightarrow> ('m, 'a) state_parser" where
  "lift_sp p m = bind_p p (\<lambda>v. return_p (v, m))"

definition get_sp :: "('m, 'm) state_parser" where
  "get_sp m = return_p (m, m)"

definition change_sp :: "('m \<Rightarrow> 'm) \<Rightarrow> ('m, unit) state_parser" where
  "change_sp g m = return_p ((), g m)"

definition fail_sp :: "('m, 'a) state_parser" where
  "fail_sp m = fail_p"

definition return_sp :: "'a \<Rightarrow> ('m, 'a) state_parser" where
  "return_sp v m = return_p (v, m)"

lemmas sp_defs = bind_sp_def lift_sp_def get_sp_def change_sp_def fail_sp_def return_sp_def

definition settles :: "wStream \<Rightarrow> (('r \<times> 'm) \<times> byte list) option \<Rightarrow> (wStream \<times> 'm, 'r) outcome \<Rightarrow> bool" where
  "settles s r x \<longleftrightarrow> (case r of
     Some ((v, m'), rest) \<Rightarrow>
       \<exists>n \<le> length (remaining s). x = Success v (advance n s, m') \<and> rest = drop n (remaining s)
   | None \<Rightarrow> \<exists>n \<le> length (remaining s). \<exists>m'. x = Failure (advance n s, m'))"

definition runs :: "(wStream \<times> 'm, 'r) cfun \<Rightarrow> ('m, 'r) state_parser \<Rightarrow> bool" where
  "runs f q \<longleftrightarrow> (\<forall>s m. readable s \<longrightarrow> settles s (q m (remaining s)) (f (s, m)))"

lemma runsI: "(\<And>s m. readable s \<Longrightarrow> settles s (q m (remaining s)) (f (s, m))) \<Longrightarrow> runs f q"
  by (simp add: runs_def)

lemma settles_here:
  "settles s (Some ((v, m), remaining s)) (Success v (s, m))" "settles s None (Failure (s, m))"
  by (auto simp: settles_def intro: exI [of _ 0])

lemma settles_advance:
  assumes "settles (advance n s) r x" "n \<le> length (remaining s)"
  shows "settles s r x"
proof (cases r)
  case None
  with assms obtain i m' where "i \<le> length (remaining s) - n" "x = Failure (advance (n + i) s, m')"
    by (auto simp: settles_def)
  with None assms(2) show ?thesis by (auto simp: settles_def intro!: exI [of _ "n + i"])
next
  case (Some a)
  obtain v m' rest where "a = ((v, m'), rest)" by (metis surj_pair)
  with Some assms obtain i where "i \<le> length (remaining s) - n" "x = Success v (advance (n + i) s, m')"
    "rest = drop (n + i) (remaining s)" by (auto simp: settles_def add.commute)
  with Some \<open>a = ((v, m'), rest)\<close> assms(2) show ?thesis by (auto simp: settles_def intro!: exI [of _ "n + i"])
qed

lemma settles_bind:
  assumes f: "settles s (p m (remaining s)) (f (s, m))"
    and k: "\<And>v n m'. n \<le> length (remaining s) \<Longrightarrow> p m (remaining s) = Some ((v, m'), drop n (remaining s)) \<Longrightarrow>
      settles (advance n s) (q v m' (drop n (remaining s))) (g v (advance n s, m'))"
  shows "settles s (bind_sp p q m (remaining s)) (bind_c f g (s, m))"
proof (cases "p m (remaining s)")
  case None
  with f show ?thesis by (auto simp: settles_def bind_sp_def bind_c_def)
next
  case (Some a)
  obtain v m' rest where a: "a = ((v, m'), rest)" by (metis surj_pair)
  with Some f obtain n where n: "n \<le> length (remaining s)" "f (s, m) = Success v (advance n s, m')"
    "rest = drop n (remaining s)" by (auto simp: settles_def)
  have "settles (advance n s) (q v m' rest) (g v (advance n s, m'))" using k [OF n(1), of v m'] Some a n(3) by simp
  then have "settles s (q v m' rest) (g v (advance n s, m'))" using n(1) by (rule settles_advance)
  with Some a n(2) show ?thesis by (simp add: bind_sp_def bind_c_def)
qed

lemma runs_bind:
  fixes f :: "(wStream \<times> 'm, 'a) cfun"
  assumes f: "runs f p" and k: "\<And>v. runs (g v) (q v)"
  shows "runs (bind_c f g) (bind_sp p q)"
proof (rule runsI, rule settles_bind)
  fix s and m :: 'm assume "readable s"
  then show "settles s (p m (remaining s)) (f (s, m))" using f by (simp add: runs_def)
next
  fix s v n and m m' :: 'm assume "readable s" "n \<le> length (remaining s)"
  then have "readable (advance n s)" by simp
  with k [of v] show "settles (advance n s) (q v m' (drop n (remaining s))) (g v (advance n s, m'))"
    unfolding runs_def by (metis remaining_advance)
qed

lemma runs_on_stream:
  assumes "reads f p"
  shows "runs (on_stream f) (lift_sp p)"
proof (rule runsI)
  fix s and m :: 'b assume s: "readable s"
  show "settles s (lift_sp p m (remaining s)) (on_stream f (s, m))"
  proof (cases "p (remaining s)")
    case None
    from assms s None obtain n where "n \<le> length (remaining s)" "f s = Failure (advance n s)" by (rule reads_None)
    with None show ?thesis by (auto simp: settles_def lift_sp_def on_stream_def)
  next
    case (Some a)
    obtain v rest where "a = (v, rest)" by (cases a)
    with Some have p: "p (remaining s) = Some (v, rest)" by simp
    with assms s obtain n where "n \<le> length (remaining s)" "f s = Success v (advance n s)" "rest = drop n (remaining s)"
      by (rule reads_Some)
    with p show ?thesis by (auto simp: settles_def lift_sp_def on_stream_def return_p_def)
  qed
qed

lemma runs_state: "runs get_state get_sp" "runs (change_state g) (change_sp g)" "runs fail_c fail_sp" "runs (return_c v) (return_sp v)"
  by (auto simp: runs_def get_state_def change_state_def fail_c_def return_c_def sp_defs return_p_def fail_p_def
      intro: settles_here)

lemma runs_if: "(b \<Longrightarrow> runs f p) \<Longrightarrow> (\<not> b \<Longrightarrow> runs g q) \<Longrightarrow> runs (if b then f else g) (if b then p else q)"
  by simp

lemmas runs_intros = runs_bind runs_on_stream runs_state runs_if

lemma runs_cong: "runs f p \<Longrightarrow> (\<And>m bs. p m bs = q m bs) \<Longrightarrow> runs f q"
  by (simp add: runs_def)

text \<open>What the contract means.\<close>

lemma runs_no_fault: "runs f q \<Longrightarrow> readable s \<Longrightarrow> f (s, m) \<noteq> Fault e"
  unfolding runs_def settles_def by (cases "q m (remaining s)") (drule spec [of _ s], drule spec [of _ m], force)+

lemma runs_Some:
  assumes "runs f q" "readable s" "q m (remaining s) = Some ((v, m'), rest)"
  obtains n where "n \<le> length (remaining s)" "f (s, m) = Success v (advance n s, m')" "rest = drop n (remaining s)"
  using assms(1) [unfolded runs_def, rule_format, OF assms(2), of m] assms(3) that by (auto simp: settles_def)

lemma runs_None:
  assumes "runs f q" "readable s" "q m (remaining s) = None"
  obtains n m' where "n \<le> length (remaining s)" "f (s, m) = Failure (advance n s, m')"
  using assms(1) [unfolded runs_def, rule_format, OF assms(2), of m] assms(3) that by (auto simp: settles_def)

section \<open>Fixed-size fields after a length check\<close>

definition runs_when :: "nat \<Rightarrow> (wStream \<times> 'm, 'r) cfun \<Rightarrow> ('m, 'r) state_parser \<Rightarrow> bool" where
  "runs_when k f q \<longleftrightarrow>
     (\<forall>s m. readable s \<and> k \<le> length (remaining s) \<longrightarrow> settles s (q m (remaining s)) (f (s, m)))"

lemma runs_runs_when: "runs f q \<Longrightarrow> runs_when k f q"
  by (simp add: runs_def runs_when_def)

lemma runs_when_runs: "runs_when 0 f q \<Longrightarrow> runs f q"
  by (simp add: runs_def runs_when_def)

definition check_sp :: "nat \<Rightarrow> ('m, 'r) state_parser \<Rightarrow> ('m, 'r) state_parser" where
  "check_sp n q m = check_p n (q m)"

lemma runs_check_of_size:
  assumes "runs_when (n * k) f q" "0 < k"
  shows "runs (bind_c (on_stream (Stream_CheckAndLogRequiredLengthWLogEx n k)) (\<lambda>_. f)) (check_sp (n * k) q)"
proof (rule runsI)
  fix s and m :: 'a assume s: "readable s"
  have "length (remaining s) div k < n \<longleftrightarrow> length (remaining s) < n * k" using assms(2)
    by (simp add: div_less_iff_less_mult)
  moreover have "Stream_GetRemainingLength s = Success (length (remaining s)) s" using s by (simp add: stream_exec)
  ultimately have e: "Stream_CheckAndLogRequiredLengthWLogEx n k s =
      (if length (remaining s) < n * k then Failure s else Success () s)" using assms(2)
    by (simp add: Stream_CheckAndLogRequiredLengthWLogEx_def Stream_CheckAndLogRequiredLengthWLogExVa_def c_simps)
  show "settles s (check_sp (n * k) q m (remaining s))
      (bind_c (on_stream (Stream_CheckAndLogRequiredLengthWLogEx n k)) (\<lambda>_. f) (s, m))"
  proof (cases "length (remaining s) < n * k")
    case True
    then show ?thesis using e by (simp add: check_sp_def check_p_def settles_here bind_c_def on_stream_def)
  next
    case False
    then show ?thesis using e assms(1) s
      by (simp add: check_sp_def check_p_def runs_when_def bind_c_def on_stream_def)
  qed
qed

lemma runs_check:
  assumes "runs_when n f q"
  shows "runs (bind_c (on_stream (Stream_CheckAndLogRequiredLength n)) (\<lambda>_. f)) (check_sp n q)"
proof (rule runsI)
  fix s and m :: 'a assume s: "readable s"
  have e: "Stream_CheckAndLogRequiredLength n s = (if n \<le> length (remaining s) then Success () s else Failure s)"
    using s by (simp add: stream_exec)
  show "settles s (check_sp n q m (remaining s))
      (bind_c (on_stream (Stream_CheckAndLogRequiredLength n)) (\<lambda>_. f) (s, m))"
  proof (cases "n \<le> length (remaining s)")
    case False
    then show ?thesis using e by (simp add: check_sp_def check_p_def settles_here bind_c_def on_stream_def)
  next
    case True
    then show ?thesis using e assms s by (simp add: check_sp_def check_p_def runs_when_def bind_c_def on_stream_def)
  qed
qed

lemma runs_when_take:
  assumes "n \<le> k"
    and prim: "\<And>s. readable s \<Longrightarrow> n \<le> length (remaining s) \<Longrightarrow> f s = Success (h (remaining s)) (advance n s)"
    and p: "\<And>bs. n \<le> length bs \<Longrightarrow> p bs = Some (h bs, drop n bs)"
    and g: "\<And>v. runs_when (k - n) (g v) (q v)"
  shows "runs_when k (bind_c (on_stream f) g) (bind_sp (lift_sp p) q)"
  unfolding runs_when_def
proof (intro allI impI)
  fix s and m :: 'b assume s: "readable s \<and> k \<le> length (remaining s)"
  then have n: "n \<le> length (remaining s)" using assms(1) by simp
  have "readable (advance n s) \<and> k - n \<le> length (remaining (advance n s))" using s n by auto
  then have "settles (advance n s) (q (h (remaining s)) m (remaining (advance n s)))
      (g (h (remaining s)) (advance n s, m))" using g [of "h (remaining s)"] unfolding runs_when_def by blast
  then have "settles s (q (h (remaining s)) m (drop n (remaining s))) (g (h (remaining s)) (advance n s, m))"
    using n by (auto intro: settles_advance)
  then show "settles s (bind_sp (lift_sp p) q m (remaining s)) (bind_c (on_stream f) g (s, m))"
    using s n by (simp add: sp_defs bind_p_def return_p_def on_stream_bind [OF prim] p)
qed

definition u32_le_p :: "32 word parser" where
  "u32_le_p bs = Some (winpr_Data_Get_UINT32 bs, drop 4 bs)"

lemma runs_when_u16:
  "2 \<le> k \<Longrightarrow> (\<And>v. runs_when (k - 2) (g v) (q v)) \<Longrightarrow>
     runs_when k (bind_c (on_stream Stream_Read_UINT16) g) (bind_sp (lift_sp u16_le_p) q)"
  by (erule runs_when_take) (simp_all add: u16_le_p_def stream_exec)

lemma runs_when_u32:
  "4 \<le> k \<Longrightarrow> (\<And>v. runs_when (k - 4) (g v) (q v)) \<Longrightarrow>
     runs_when k (bind_c (on_stream Stream_Read_UINT32) g) (bind_sp (lift_sp u32_le_p) q)"
  by (erule runs_when_take) (simp_all add: u32_le_p_def stream_exec)

lemma runs_when_bytes:
  "n \<le> k \<Longrightarrow> (\<And>v. runs_when (k - n) (g v) (q v)) \<Longrightarrow>
     runs_when k (bind_c (on_stream (Stream_Read n)) g) (bind_sp (lift_sp (bytes_p n)) q)"
  by (erule runs_when_take) (simp_all add: bytes_p_def stream_exec)

lemma runs_when_state:
  "(\<And>m. runs_when k (h m) (p m)) \<Longrightarrow> runs_when k (bind_c get_state h) (bind_sp get_sp p)"
  "runs_when k f q \<Longrightarrow> runs_when k (bind_c (change_state g) (\<lambda>_. f)) (bind_sp (change_sp g) (\<lambda>_. q))"
  by (auto simp: runs_when_def state_bind sp_defs bind_p_def return_p_def)

lemma runs_when_if:
  "(b \<Longrightarrow> runs_when k f p) \<Longrightarrow> (\<not> b \<Longrightarrow> runs_when k g q) \<Longrightarrow> runs_when k (if b then f else g) (if b then p else q)"
  by simp

lemmas runs_when_intros = runs_check [THEN runs_runs_when] runs_when_u16 runs_when_u32 runs_when_bytes runs_when_state
  runs_when_if runs_state [THEN runs_runs_when]

text \<open>A message of fixed form, parsed outright.\<close>

lemma check_bind:
  "check_sp n q m bs = (if n \<le> length bs then q m bs else None)"
  "bind_sp (lift_sp u16_le_p) h16 m bs = h16 (winpr_Data_Get_UINT16 bs) m (drop 2 bs)"
  "bind_sp (lift_sp u32_le_p) h32 m bs = h32 (winpr_Data_Get_UINT32 bs) m (drop 4 bs)"
  "bind_sp (lift_sp (bytes_p n)) h m bs = h (take n bs) m (drop n bs)"
  "bind_sp get_sp hm m bs = hm m m bs" "bind_sp (change_sp g) hu m bs = hu () (g m) bs"
  "return_sp v m bs = Some ((v, m), bs)" "fail_sp m bs = None" "change_sp g m bs = Some (((), g m), bs)"
  by (simp_all add: check_sp_def check_p_def sp_defs bind_p_def return_p_def fail_p_def u16_le_p_def u32_le_p_def bytes_p_def)

section \<open>Writing through a temporary stream\<close>

text \<open>
  A message whose length is announced in front of it is written to a stream of the same capacity first;
  \<open>k\<close> gets the bytes written there.
\<close>

definition in_temp :: "malloc \<Rightarrow> (wStream, unit) cfun \<Rightarrow> (byte list \<Rightarrow> (wStream, 'r) cfun) \<Rightarrow> (wStream, 'r) cfun" where
  "in_temp malloc body k s =
     (case Stream_New malloc None (Stream_Capacity s) of
        None \<Rightarrow> Failure s
      | Some tmps \<Rightarrow>
          (case body tmps of
             Fault e \<Rightarrow> Fault e
           | Failure _ \<Rightarrow> Failure s
           | Success _ tmps \<Rightarrow> k (written tmps) s))"

lemma new_stream:
  assumes "malloc_spec malloc" "Stream_New malloc None sz = Some s" "sz < SIZE_MOD"
  shows "wf_stream s" "s_pointer s = 0" "s_capacity s = sz"
  using assms by (auto simp: Stream_New_def malloc_spec_def wf_stream_def split: if_splits option.splits)

lemma new_stream_available:
  assumes "malloc_spec malloc" "memory_available malloc" "0 < sz" "sz < SIZE_MOD"
  obtains s where "Stream_New malloc None sz = Some s" "wf_stream s" "s_pointer s = 0" "s_capacity s = sz"
    "room s = sz" "written s = []"
proof -
  obtain b where "malloc sz = Some b" using assms(2) by (fastforce simp: memory_available_def)
  then obtain s where s: "Stream_New malloc None sz = Some s" using assms(2,3)
    by (simp add: Stream_New_def memory_available_def)
  with new_stream [OF assms(1) s assms(4)] that show ?thesis by (auto simp: room_def written_def)
qed

lemma writes_in_temp:
  assumes body: "writes body () bs" and k: "writes (k bs) r cs" and "length bs \<le> length cs" "0 < length cs"
    and m: "malloc_spec malloc" "memory_available malloc"
  shows "writes (in_temp malloc body k) r cs"
  unfolding writes_def
proof (intro allI impI)
  fix s assume s: "wf_stream s \<and> length cs \<le> room s"
  then have c: "length cs \<le> s_capacity s" "s_capacity s < SIZE_MOD" by (auto simp: room_def wf_stream_def)
  with m assms(4) obtain t where t: "Stream_New malloc None (s_capacity s) = Some t" "wf_stream t" "room t = s_capacity s"
    "written t = []" by (metis new_stream_available order.strict_trans2)
  with c(1) assms(3) body have "body t = Success () (put bs t)" by (auto intro: writesD)
  moreover have "written (put bs t) = bs" using t c(1) assms(3) by simp
  moreover have "k bs s = Success r (put cs s)" using k s by (auto intro: writesD)
  ultimately show "in_temp malloc body k s = Success r (put cs s)"
    using t(1) by (simp add: in_temp_def Stream_Capacity_def)
qed

end
