(* ===== verification/Tpkt.thy ===== *)
theory Tpkt
  imports Codec
begin

text \<open>
  The TPKT packet header of ITU-T T.123, \<open>libfreerdp/core/tpkt.c\<close>, and the X.224 transport protocol
  data units inside it, \<open>libfreerdp/core/tpdu.c\<close>: version, reserved byte and big-endian packet length,
  then the length indicator, the code and the class 0 parameters.
\<close>

section \<open>The functions of tpkt.c\<close>

text \<open>\<open>-1\<close> when there is no byte to look at, otherwise whether it is the version.\<close>

definition tpkt_verify_header :: "(wStream, int) cfun" where
  "tpkt_verify_header s =
     (case Stream_CheckAndLogRequiredLength 1 s of
        Failure s \<Rightarrow> Success (- 1) s
      | Fault e \<Rightarrow> Fault e
      | Success _ s \<Rightarrow>
          bind_c Stream_Peek_UINT8 (\<lambda>version. return_c (if version = 3 then 1 else 0)) s)"

definition tpkt_read_header :: "(wStream, 16 word) cfun" where
  "tpkt_read_header =
     bind_c (Stream_CheckAndLogRequiredLength 1) (\<lambda>_.
     bind_c Stream_Peek_UINT8 (\<lambda>version.
     if version = 3 then
       bind_c (Stream_CheckAndLogRequiredLength 4) (\<lambda>_.
       bind_c (Stream_Seek 2) (\<lambda>_.
       bind_c Stream_Read_UINT16_BE (\<lambda>len.
       if len < 7 then fail_c
       else bind_c (Stream_CheckAndLogRequiredLength (unat len - 4)) (\<lambda>_. return_c len))))
     else return_c 0))"

definition tpkt_ensure_stream_consumed :: "nat \<Rightarrow> (wStream, unit) cfun" where
  "tpkt_ensure_stream_consumed len =
     (if len > 65535 then fail_c
      else bind_c Stream_GetRemainingLength (\<lambda>rem. if rem > 0 then fail_c else return_c ()))"

definition tpkt_write_header :: "nat \<Rightarrow> (wStream, unit) cfun" where
  "tpkt_write_header len =
     bind_c (Stream_CheckAndLogRequiredCapacity 4) (\<lambda>_.
     bind_c (Stream_Write_UINT8 3) (\<lambda>_.
     bind_c (Stream_Write_UINT8 0) (\<lambda>_.
     bind_c (assert_c (len \<le> 65535)) (\<lambda>_.
     Stream_Write_UINT16_BE (word_of_nat len)))))"

section \<open>The functions of tpdu.c\<close>

definition X224_TPDU_CONNECTION_REQUEST :: byte where "X224_TPDU_CONNECTION_REQUEST = 0xE0"
definition X224_TPDU_CONNECTION_CONFIRM :: byte where "X224_TPDU_CONNECTION_CONFIRM = 0xD0"
definition X224_TPDU_DISCONNECT_REQUEST :: byte where "X224_TPDU_DISCONNECT_REQUEST = 0x80"
definition X224_TPDU_DATA :: byte where "X224_TPDU_DATA = 0xF0"
definition X224_TPDU_ERROR :: byte where "X224_TPDU_ERROR = 0x70"

lemmas tpdu_codes = X224_TPDU_CONNECTION_REQUEST_def X224_TPDU_CONNECTION_CONFIRM_def
  X224_TPDU_DISCONNECT_REQUEST_def X224_TPDU_DATA_def X224_TPDU_ERROR_def

text \<open>The results are the code and the length indicator.\<close>

definition tpdu_read_header :: "16 word \<Rightarrow> (wStream, byte \<times> byte) cfun" where
  "tpdu_read_header tpktlength =
     bind_c (Stream_CheckAndLogRequiredLength 3) (\<lambda>_.
     bind_c Stream_Read_UINT8 (\<lambda>li.
     bind_c Stream_Read_UINT8 (\<lambda>code.
     if unat li + 4 > unat tpktlength then fail_c
     else if code = X224_TPDU_DATA then bind_c (Stream_Seek 1) (\<lambda>_. return_c (code, li))
     else bind_c (Stream_SafeSeek 5) (\<lambda>_. return_c (code, li)))))"

definition tpdu_write_header :: "16 word \<Rightarrow> byte \<Rightarrow> (wStream, unit) cfun" where
  "tpdu_write_header len code =
     bind_c (Stream_CheckAndLogRequiredCapacity 3) (\<lambda>_.
     bind_c (assert_c (len \<le> 255)) (\<lambda>_.
     bind_c (Stream_Write_UINT8 (ucast len)) (\<lambda>_.
     bind_c (Stream_Write_UINT8 code) (\<lambda>_.
     if code = X224_TPDU_DATA then Stream_Write_UINT8 0x80
     else
       bind_c (Stream_CheckAndLogRequiredCapacity 5) (\<lambda>_.
       bind_c (Stream_Write_UINT16 0) (\<lambda>_.
       bind_c (Stream_Write_UINT16 0) (\<lambda>_.
       Stream_Write_UINT8 0)))))))"

definition tpdu_read_connection_request :: "16 word \<Rightarrow> (wStream, byte) cfun" where
  "tpdu_read_connection_request tpktlength =
     bind_c (tpdu_read_header tpktlength) (\<lambda>(code, li).
     if code \<noteq> X224_TPDU_CONNECTION_REQUEST then fail_c else return_c li)"

definition tpdu_write_connection_request :: "16 word \<Rightarrow> (wStream, unit) cfun" where
  "tpdu_write_connection_request len = tpdu_write_header len X224_TPDU_CONNECTION_REQUEST"

text \<open>
  The number of parameter bytes still to come is a difference of \<open>size_t\<close>, which wraps when the length
  indicator is less than what was already read.
\<close>

definition tpdu_read_connection_confirm :: "16 word \<Rightarrow> (wStream, byte) cfun" where
  "tpdu_read_connection_confirm tpktlength s =
     (let position = Stream_GetPosition s in
      bind_c (tpdu_read_header tpktlength) (\<lambda>(code, li).
      if code \<noteq> X224_TPDU_CONNECTION_CONFIRM then fail_c
      else (\<lambda>s.
        let bytes_read = (Stream_GetPosition s - position) - 1;
            more = nat ((int (unat li) - int bytes_read) mod int SIZE_MOD) in
        bind_c (Stream_CheckAndLogRequiredLength more) (\<lambda>_. return_c li) s)) s)"

definition tpdu_write_connection_confirm :: "16 word \<Rightarrow> (wStream, unit) cfun" where
  "tpdu_write_connection_confirm len = tpdu_write_header len X224_TPDU_CONNECTION_CONFIRM"

definition tpdu_write_disconnect_request :: "16 word \<Rightarrow> (wStream, unit) cfun" where
  "tpdu_write_disconnect_request len = tpdu_write_header len X224_TPDU_DISCONNECT_REQUEST"

definition tpdu_write_data :: "(wStream, unit) cfun" where
  "tpdu_write_data = tpdu_write_header 2 X224_TPDU_DATA"

definition tpdu_read_data :: "16 word \<Rightarrow> (wStream, 16 word) cfun" where
  "tpdu_read_data tpktlength =
     bind_c (tpdu_read_header tpktlength) (\<lambda>(code, li).
     if code \<noteq> X224_TPDU_DATA then fail_c else return_c (ucast li))"

definition tpdu_type_to_string :: "int \<Rightarrow> string" where
  "tpdu_type_to_string ty =
     (if ty = uint X224_TPDU_CONNECTION_REQUEST then ''X224_TPDU_CONNECTION_REQUEST''
      else if ty = uint X224_TPDU_CONNECTION_CONFIRM then ''X224_TPDU_CONNECTION_CONFIRM''
      else if ty = uint X224_TPDU_DISCONNECT_REQUEST then ''X224_TPDU_DISCONNECT_REQUEST''
      else if ty = uint X224_TPDU_DATA then ''X224_TPDU_DATA''
      else if ty = uint X224_TPDU_ERROR then ''X224_TPDU_ERROR''
      else ''X224_TPDU_UNKNOWN'')"

section \<open>Formats\<close>

text \<open>A header whose packet is not complete is refused; bytes that are no TPKT are left alone.\<close>

definition dec_tpkt :: "16 word parser" where
  "dec_tpkt bs =
     (if bs = [] then None
      else if hd bs \<noteq> 3 then Some (0, bs)
      else
        let n = be_nat (take 2 (drop 2 bs)) in
        if 7 \<le> n \<and> n \<le> length bs then Some (word_of_nat n, drop 4 bs) else None)"

lemma reads_tpkt: "reads tpkt_read_header dec_tpkt"
proof (rule reads_cong)
  let ?q = "check_p 1 (bind_p peek_p (\<lambda>v. if v = 3 then check_p 4 (bind_p (drop_p 2) (\<lambda>_.
      bind_p u16_be_p (\<lambda>len. if len < 7 then fail_p else check_p (unat len - 4) (return_p len))))
      else return_p 0))"
  show "reads tpkt_read_header ?q"
    unfolding tpkt_read_header_def by (intro reads_when_intros reads_when_peek) simp_all
  fix bs :: "byte list"
  show "?q bs = dec_tpkt bs"
  proof (cases "4 \<le> length bs")
    case True
    define n where "n = be_nat (take 2 (drop 2 bs))"
    have n: "n < 65536" using True be_nat_less [of "take 2 (drop 2 bs)"] by (simp add: n_def)
    have v: "winpr_Data_Get_UINT16_BE (drop 2 bs) = word_of_nat n"
      using True by (simp add: winpr_Data_Get_UINT16_BE_def data_get_be_nat n_def)
    have l: "(word_of_nat n :: 16 word) < 7 \<longleftrightarrow> n < 7" "unat (word_of_nat n :: 16 word) = n"
      using n by (simp_all add: word_less_nat_alt unat_of_nat)
    from True have "bs \<noteq> []" by auto
    then show ?thesis using True n l
      by (auto simp: dec_tpkt_def parser_defs peek_p_def v n_def [symmetric] Let_def Suc_le_eq)
  next
    case False
    then show ?thesis
      by (auto simp: dec_tpkt_def parser_defs peek_p_def Let_def Suc_le_eq)
  qed
qed


definition enc_tpkt :: "nat \<Rightarrow> byte list" where
  "enc_tpkt n = [3, 0] @ be16 (word_of_nat n)"

lemma writes_tpkt: "n \<le> 65535 \<Longrightarrow> writes (tpkt_write_header n) () (enc_tpkt n)"
  unfolding tpkt_write_header_def enc_tpkt_def
  by (rule writes_cong, (rule writes_steps | (simp; fail))+)

lemma length_enc_tpkt [simp]: "length (enc_tpkt n) = 4"
  by (simp add: enc_tpkt_def)

text \<open>The header in front of a complete packet.\<close>

lemma dec_tpkt_enc:
  assumes "n = 4 + length payload" "7 \<le> n" "n \<le> 65535"
  shows "dec_tpkt (enc_tpkt n @ payload @ rest) = Some (word_of_nat n, payload @ rest)"
proof -
  have "be_nat (be16 (word_of_nat n)) = n" using assms(3) by (simp add: be_nat_word_be unat_of_nat)
  then show ?thesis using assms by (simp add: dec_tpkt_def enc_tpkt_def)
qed

fun dec_tpdu :: "16 word \<Rightarrow> (byte \<times> byte) parser" where
  "dec_tpdu tpktlength (li # code # r) =
     (let n = (if code = 0xF0 then 1 else 5) in
      if unat li + 4 \<le> unat tpktlength \<and> r \<noteq> [] \<and> n \<le> length r then Some ((code, li), drop n r)
      else None)"
| "dec_tpdu tpktlength _ = None"

lemma reads_tpdu: "reads (tpdu_read_header tpktlength) (dec_tpdu tpktlength)"
proof (rule reads_cong)
  let ?q = "check_p 3 (bind_p u8_p (\<lambda>li. bind_p u8_p (\<lambda>code.
      if unat li + 4 > unat tpktlength then fail_p
      else if code = X224_TPDU_DATA then bind_p (drop_p 1) (\<lambda>_. return_p (code, li))
      else bind_p (skip_p 5) (\<lambda>_. return_p (code, li)))))"
  show "reads (tpdu_read_header tpktlength) ?q"
    unfolding tpdu_read_header_def
    by (intro reads_when_intros) (simp_all add: reads_when_bind reads_SafeSeek reads_return)
  show "?q bs = dec_tpdu tpktlength bs" for bs
    by (cases "(tpktlength, bs)" rule: dec_tpdu.cases)
      (auto simp: parser_defs skip_p_def X224_TPDU_DATA_def Let_def Suc_le_eq)
qed

definition enc_tpdu :: "byte \<Rightarrow> byte \<Rightarrow> byte list" where
  "enc_tpdu code li = [li, code] @ (if code = 0xF0 then [0x80] else replicate 5 0)"

lemma writes_tpdu:
  "len \<le> 255 \<Longrightarrow> writes (tpdu_write_header len code) () (enc_tpdu code (ucast len))"
  unfolding tpdu_write_header_def
  by (rule writes_cong, (rule writes_steps | (simp add: enc_tpdu_def X224_TPDU_DATA_def word_le_2; fail))+)

lemma dec_tpdu_enc:
  "unat li + 4 \<le> unat tpktlength \<Longrightarrow>
     dec_tpdu tpktlength (enc_tpdu code li @ rest) = Some ((code, li), rest)"
  by (simp add: enc_tpdu_def)


text \<open>The length indicator of a confirm has to cover the six bytes of the header behind it.\<close>

definition dec_confirm :: "16 word \<Rightarrow> byte parser" where
  "dec_confirm tpktlength = bind_p (dec_tpdu tpktlength) (\<lambda>(code, li) bs.
     if code = 0xD0 \<and> 6 \<le> unat li \<and> unat li - 6 \<le> length bs then Some (li, bs) else None)"

lemma dec_tpdu_consumed:
  assumes "dec_tpdu tpktlength bs = Some ((0xD0, li), drop n bs)" "n \<le> length bs"
  shows "n = 7"
proof -
  obtain r where r: "bs = li # 0xD0 # r" "5 \<le> length r" "drop 5 r = drop n bs"
    using assms(1) by (cases "(tpktlength, bs)" rule: dec_tpdu.cases) (auto simp: Let_def split: if_splits)
  from arg_cong [OF r(3), of length] r(1,2) assms(2) show ?thesis by auto
qed

lemma size_diff_wrap:
  assumes "l + 7 < SIZE_MOD" "k < 256"
  shows "nat ((int k - 6) mod int SIZE_MOD) \<le> l \<longleftrightarrow> 6 \<le> k \<and> k - 6 \<le> l"
proof (cases "6 \<le> k")
  case True
  then have e: "(int k - 6) mod int SIZE_MOD = int (k - 6)"
    using assms(2) by (subst mod_pos_pos_trivial) auto
  show ?thesis unfolding e nat_int using True by simp
next
  case False
  have "(int k - 6) mod int SIZE_MOD = (int k - 6 + int SIZE_MOD) mod int SIZE_MOD"
    by (rule mod_add_self2 [symmetric])
  also have "\<dots> = int k - 6 + int SIZE_MOD" using False by (subst mod_pos_pos_trivial) auto
  finally show ?thesis using False assms by auto
qed

lemma reads_confirm: "reads (tpdu_read_connection_confirm tpktlength) (dec_confirm tpktlength)"
  unfolding reads_def
proof (intro allI impI)
  fix s assume s: "readable s"
  let ?k = "\<lambda>(code, li). if code \<noteq> X224_TPDU_CONNECTION_CONFIRM then fail_c
      else (\<lambda>t. let bytes_read = (Stream_GetPosition t - Stream_GetPosition s) - 1;
            more = nat ((int (unat li) - int bytes_read) mod int SIZE_MOD) in
        bind_c (Stream_CheckAndLogRequiredLength more) (\<lambda>_. return_c li) t)"
  let ?q = "\<lambda>(code, li) bs. if code = 0xD0 \<and> 6 \<le> unat li \<and> unat li - 6 \<le> length bs
      then Some (li, bs) else None"
  have "agrees s (bind_p (dec_tpdu tpktlength) ?q (remaining s)) (bind_c (tpdu_read_header tpktlength) ?k s)"
  proof (rule agrees_bind)
    show "agrees s (dec_tpdu tpktlength (remaining s)) (tpdu_read_header tpktlength s)"
      using reads_tpdu s by (simp add: reads_def)
    fix v n assume n: "n \<le> length (remaining s)"
      and d: "dec_tpdu tpktlength (remaining s) = Some (v, drop n (remaining s))"
    obtain code li where v: "v = (code, li)" by (cases v)
    let ?t = "advance n s"
    have t: "readable ?t" using s n by simp
    show "agrees ?t (?q v (remaining ?t)) (?k v ?t)"
    proof (cases "code = 0xD0")
      case False
      then show ?thesis using agrees_here(1) [of ?t] unfolding v
        by (simp add: tpdu_codes fail_c_def del: agrees_None)
    next
      case True
      with d v n have "n = 7" using dec_tpdu_consumed [of tpktlength "remaining s" li n] by simp
      then have pos: "Stream_GetPosition ?t - Stream_GetPosition s - 1 = 6"
        by (simp add: Stream_GetPosition_def advance_def)
      have "length (remaining ?t) + 7 < SIZE_MOD"
        using s n \<open>n = 7\<close> length_remaining [OF s] by (auto simp: readable_def wf_stream_def)
      note w = size_diff_wrap [OF this unat_byte_less [of li]]
      have "?k v ?t = (if 6 \<le> unat li \<and> unat li - 6 \<le> length (remaining ?t) then Success li ?t else Failure ?t)"
        unfolding v using True
        by (simp only: prod.case pos of_nat_numeral Let_def bind_check [OF t] w tpdu_codes return_c_def simp_thms if_True if_False)
      then show ?thesis using agrees_here [of ?t] True unfolding v
        by (auto simp del: agrees_None agrees_Some)
    qed
  qed
  then show "agrees s (dec_confirm tpktlength (remaining s)) (tpdu_read_connection_confirm tpktlength s)"
    unfolding tpdu_read_connection_confirm_def dec_confirm_def Let_def .
qed


definition dec_request :: "16 word \<Rightarrow> byte parser" where
  "dec_request tpktlength = bind_p (dec_tpdu tpktlength) (\<lambda>(code, li).
     if code = 0xE0 then return_p li else fail_p)"

lemma reads_request: "reads (tpdu_read_connection_request tpktlength) (dec_request tpktlength)"
  unfolding tpdu_read_connection_request_def dec_request_def
  by (intro reads_bind reads_tpdu) (simp add: reads_return reads_fail tpdu_codes split: prod.split)

definition dec_data :: "16 word \<Rightarrow> 16 word parser" where
  "dec_data tpktlength = bind_p (dec_tpdu tpktlength) (\<lambda>(code, li).
     if code = 0xF0 then return_p (ucast li) else fail_p)"

lemma reads_data: "reads (tpdu_read_data tpktlength) (dec_data tpktlength)"
  unfolding tpdu_read_data_def dec_data_def
  by (intro reads_bind reads_tpdu) (simp add: reads_return reads_fail tpdu_codes split: prod.split)

section \<open>The formats as stream codecs\<close>

lemma ucast_le_255: "(ucast (li :: byte) :: 16 word) \<le> 255" "ucast (ucast li :: 16 word) = li"
  using unat_byte_less [of li] by (simp_all add: word_le_nat_alt unat_ucast ucast_ucast_id)

interpretation tpdu_request: stream_codec "enc_tpdu 0xE0" "dec_request tpktlength"
  "\<lambda>li. unat li + 4 \<le> unat tpktlength" "\<lambda>li. tpdu_write_connection_request (ucast li)" "\<lambda>_. ()"
  "tpdu_read_connection_request tpktlength" for tpktlength
proof unfold_locales
  show "dec_request tpktlength (enc_tpdu 0xE0 li @ rest) = Some (li, rest)"
    if "unat li + 4 \<le> unat tpktlength" for li rest
    using that by (simp add: dec_request_def dec_tpdu_enc return_p_def)
  show "writes (tpdu_write_connection_request (ucast li)) () (enc_tpdu 0xE0 li)" for li
    using writes_tpdu [OF ucast_le_255(1) [of li], where code = "0xE0"]
    by (simp only: tpdu_write_connection_request_def tpdu_codes ucast_le_255(2))
qed (rule reads_request)

lemma writes_data: "writes tpdu_write_data () (enc_tpdu 0xF0 2)"
  using writes_tpdu [of 2 "0xF0"] by (simp add: tpdu_write_data_def tpdu_codes word_le_nat_alt)

interpretation tpdu_data: stream_codec "\<lambda>_. enc_tpdu 0xF0 2" "dec_data tpktlength"
  "\<lambda>li. li = 2 \<and> 6 \<le> unat tpktlength" "\<lambda>_. tpdu_write_data" "\<lambda>_. ()" "tpdu_read_data tpktlength" for tpktlength
proof unfold_locales
  show "dec_data tpktlength (enc_tpdu 0xF0 2 @ rest) = Some (li, rest)"
    if "li = 2 \<and> 6 \<le> unat tpktlength" for li rest
    using that by (simp add: dec_data_def dec_tpdu_enc return_p_def)
qed (simp_all add: reads_data writes_data)

section \<open>Properties\<close>

text \<open>
  C34: the readers of tpkt.c and tpdu.c compute the parsers of their formats on the unread bytes, without
  assertion failures and without reading outside the data. A TPKT header is accepted only when it
  announces at least seven bytes and the whole packet is there, and a connection confirm only when the
  rest of its parameters is there; a length indicator that does not even cover the header is refused
  although the length still to come is then computed with a wrapped subtraction.
\<close>

theorem tpkt_tpdu_readers_exact:
  "reads tpkt_read_header dec_tpkt \<and> reads (tpdu_read_header n) (dec_tpdu n) \<and>
   reads (tpdu_read_connection_request n) (dec_request n) \<and>
   reads (tpdu_read_connection_confirm n) (dec_confirm n) \<and> reads (tpdu_read_data n) (dec_data n)"
  by (simp add: reads_tpkt reads_tpdu reads_request reads_confirm reads_data)

text \<open>
  C35: a packet of a TPKT header, a data TPDU header and a payload, written one after the other, is taken
  apart again by the readers: the packet length and the length indicator come back and the payload is
  what is left to read.
\<close>

theorem x224_data_round_trip:
  assumes "wf_stream s" "7 + length payload \<le> room s" "7 + length payload \<le> 65535"
  shows "\<exists>t u v w. bind_c (tpkt_write_header (7 + length payload)) (\<lambda>_. bind_c tpdu_write_data
      (\<lambda>_. Stream_Write payload)) s = Success () t \<and>
    turn_around (s_pointer s) t = Success () u \<and>
    tpkt_read_header u = Success (word_of_nat (7 + length payload)) v \<and>
    tpdu_read_data (word_of_nat (7 + length payload)) v = Success 2 w \<and> remaining w = payload"
proof -
  let ?n = "7 + length payload"
  let ?h = "enc_tpkt ?n" and ?d = "enc_tpdu 0xF0 2"
  have len: "length ?d = 3" by (simp add: enc_tpdu_def)
  have "writes (bind_c (tpkt_write_header ?n) (\<lambda>_. bind_c tpdu_write_data (\<lambda>_. Stream_Write payload)))
      () (?h @ ?d @ payload)"
    using assms(3) by (intro writes_seq writes_tpkt writes_data writes_scalars)
  then have t: "bind_c (tpkt_write_header ?n) (\<lambda>_. bind_c tpdu_write_data (\<lambda>_. Stream_Write payload)) s =
      Success () (put (?h @ ?d @ payload) s)"
    by (rule writesD) (use assms len in simp_all)
  obtain u where u: "turn_around (s_pointer s) (put (?h @ ?d @ payload) s) = Success () u" "readable u"
    "remaining u = ?h @ ?d @ payload"
    using turn_around_put [OF assms(1), of "?h @ ?d @ payload"] assms len by auto
  then have "dec_tpkt (remaining u) = Some (word_of_nat ?n, ?d @ payload)"
    using dec_tpkt_enc [of ?n "?d @ payload" "[]"] assms(3) len by simp
  with reads_tpkt u(2) obtain i where i: "i \<le> length (remaining u)"
    "tpkt_read_header u = Success (word_of_nat ?n) (advance i u)" "?d @ payload = drop i (remaining u)"
    by (rule reads_Some)
  have "6 \<le> unat (word_of_nat ?n :: 16 word)" unfolding unat_of_nat using assms(3) by simp
  moreover have v: "readable (advance i u)" using i(1) u(2) by simp
  moreover have r: "remaining (advance i u) = ?d @ payload" using i(3) by (simp only: remaining_advance)
  ultimately have "tpdu_read_data (word_of_nat ?n) (advance i u) = Success 2 (advance (length ?d) (advance i u))"
    by (intro tpdu_data.rd_accepts) simp_all
  moreover have "remaining (advance (length ?d) (advance i u)) = payload"
    unfolding remaining_advance [of "length ?d"] r by simp
  ultimately show ?thesis using t u(1) i(2) by blast
qed

theorem x224_data_round_trip_witness:
  "\<exists>t u v w. bind_c (tpkt_write_header 9) (\<lambda>_. bind_c tpdu_write_data (\<lambda>_. Stream_Write [0x68, 1]))
      (Stream_StaticInit (replicate 16 0) 16) = Success () t \<and>
    turn_around 0 t = Success () u \<and> tpkt_read_header u = Success 9 v \<and>
    tpdu_read_data 9 v = Success 2 w \<and> remaining w = [0x68, 1]"
proof -
  let ?s = "Stream_StaticInit (replicate 16 0) 16"
  have "wf_stream ?s" "room ?s = 16" "s_pointer ?s = 0"
    by (simp_all add: wf_blank room_blank) (simp add: Stream_StaticInit_def)
  with x224_data_round_trip [of ?s "[0x68, 1]"] show ?thesis by simp
qed

end
