(* ===== verification/Nego.thy ===== *)
theory Nego
  imports Session Tpkt
begin

text \<open>
  The security negotiation of \<open>libfreerdp/core/nego.c\<close>: the request and response in the X.224
  connection PDUs, the state machine of the client, and what the server does with a request.

  The record \<open>rdpNego\<close> has the fields of the C structure. The transport (sockets, TLS, CredSSP) is an
  argument: \<open>'w\<close> is its state, and the record \<open>transport_ops\<close> holds one function per call that
  nego.c makes of it. Every call may depend on all earlier ones through \<open>'w\<close>. \<open>aad_is_supported\<close>
  and \<open>ConvertUtf8ToWCharAlloc\<close> are arguments of the functions that call them.
\<close>

section \<open>Constants and state\<close>

definition PROTOCOL_RDP :: "32 word" where "PROTOCOL_RDP = 0"
definition PROTOCOL_SSL :: "32 word" where "PROTOCOL_SSL = 1"
definition PROTOCOL_HYBRID :: "32 word" where "PROTOCOL_HYBRID = 2"
definition PROTOCOL_RDSTLS :: "32 word" where "PROTOCOL_RDSTLS = 4"
definition PROTOCOL_HYBRID_EX :: "32 word" where "PROTOCOL_HYBRID_EX = 8"
definition PROTOCOL_RDSAAD :: "32 word" where "PROTOCOL_RDSAAD = 16"
definition PROTOCOL_FAILED_NEGO :: "32 word" where "PROTOCOL_FAILED_NEGO = 0x80000000"

lemmas protocols = PROTOCOL_RDP_def PROTOCOL_SSL_def PROTOCOL_HYBRID_def PROTOCOL_RDSTLS_def
  PROTOCOL_HYBRID_EX_def PROTOCOL_RDSAAD_def

datatype NEGO_STATE = NEGO_STATE_INITIAL | NEGO_STATE_RDSTLS | NEGO_STATE_AAD | NEGO_STATE_EXT
  | NEGO_STATE_NLA | NEGO_STATE_TLS | NEGO_STATE_RDP | NEGO_STATE_FAIL | NEGO_STATE_FINAL

definition TYPE_RDP_NEG_REQ :: byte where "TYPE_RDP_NEG_REQ = 1"
definition TYPE_RDP_NEG_RSP :: byte where "TYPE_RDP_NEG_RSP = 2"
definition TYPE_RDP_NEG_FAILURE :: byte where "TYPE_RDP_NEG_FAILURE = 3"
definition TYPE_RDP_CORRELATION_INFO :: byte where "TYPE_RDP_CORRELATION_INFO = 6"

lemmas neg_types = TYPE_RDP_NEG_REQ_def TYPE_RDP_NEG_RSP_def TYPE_RDP_NEG_FAILURE_def
  TYPE_RDP_CORRELATION_INFO_def

text \<open>
  The array \<open>EnabledProtocols\<close> is indexed by protocol numbers, all of them constants below 32.
  Strings are the bytes in front of their terminating zero.
\<close>

record 'w rdpNego =
  ng_port :: "16 word"
  ng_flags :: "32 word"
  ng_hostname :: "byte list"
  ng_cookie :: "byte list option"
  ng_RoutingToken :: "byte list option"
  ng_RoutingTokenLength :: "32 word"
  ng_SendPreconnectionPdu :: bool
  ng_PreconnectionId :: "32 word"
  ng_PreconnectionBlob :: "byte list option"
  ng_state :: NEGO_STATE
  ng_TcpConnected :: bool
  ng_SecurityConnected :: bool
  ng_CookieMaxLength :: "32 word"
  ng_sendNegoData :: bool
  ng_SelectedProtocol :: "32 word"
  ng_RequestedProtocols :: "32 word"
  ng_NegotiateSecurityLayer :: bool
  ng_EnabledProtocols :: "32 word \<Rightarrow> bool"
  ng_RestrictedAdminModeRequired :: bool
  ng_RestrictedAdminModeSupported :: bool
  ng_RemoteCredsGuardRequired :: bool
  ng_RemoteCredsGuardActive :: bool
  ng_RemoteCredsGuardSupported :: bool
  ng_GatewayEnabled :: bool
  ng_GatewayBypassLocal :: bool
  ng_ConnectChildSession :: bool
  ng_transport :: 'w

text \<open>
  The calls of the transport. \<open>memory\<close> is what \<open>malloc\<close> answers in a state; \<open>transport_read_pdu\<close>
  fills a stream with one PDU and is \<open>None\<close> when it returns a negative status, \<open>transport_write\<close>
  is whether its status is not negative.
\<close>

record 'w transport_ops =
  memory :: "'w \<Rightarrow> malloc"
  transport_set_gateway_enabled :: "bool \<Rightarrow> 'w \<Rightarrow> 'w"
  transport_connect :: "byte list \<Rightarrow> 16 word \<Rightarrow> 'w \<Rightarrow> bool \<times> 'w"
  transport_connect_childsession :: "'w \<Rightarrow> bool \<times> 'w"
  transport_disconnect :: "'w \<Rightarrow> 'w"
  transport_read_pdu :: "wStream \<Rightarrow> 'w \<Rightarrow> wStream option \<times> 'w"
  transport_write :: "wStream \<Rightarrow> 'w \<Rightarrow> bool \<times> 'w"
  transport_connect_rdp :: "'w \<Rightarrow> bool \<times> 'w"
  transport_connect_tls :: "'w \<Rightarrow> bool \<times> 'w"
  transport_connect_nla :: "bool \<Rightarrow> 'w \<Rightarrow> bool \<times> 'w"
  transport_connect_rdstls :: "'w \<Rightarrow> bool \<times> 'w"
  transport_connect_aad :: "'w \<Rightarrow> bool \<times> 'w"

text \<open>The settings that nego.c reads and writes; the server's RSA key is only tested for being there.\<close>

record nego_settings =
  st_RequestedProtocols :: "32 word"
  st_SelectedProtocol :: "32 word"
  st_NegotiationFlags :: "32 word"
  st_UseRdpSecurityLayer :: bool
  st_EncryptionMethods :: "32 word"
  st_EncryptionLevel :: "32 word"
  st_TlsSecurity :: bool
  st_NlaSecurity :: bool
  st_RdpSecurity :: bool
  st_RdstlsSecurity :: bool
  st_SupportGraphicsPipeline :: bool
  st_LocalConnection :: bool
  st_RdpServerRsaKey :: bool

section \<open>Functions on a stream and on the negotiation state\<close>

type_synonym ('w, 'a) nego_fun = "(wStream \<times> 'w rdpNego, 'a) cfun"

definition get_nego :: "('w, 'w rdpNego) nego_fun" where
  "get_nego = (\<lambda>(s, n). Success n (s, n))"

definition set_nego :: "('w rdpNego \<Rightarrow> 'w rdpNego) \<Rightarrow> ('w, unit) nego_fun" where
  "set_nego g = (\<lambda>(s, n). Success () (s, g n))"

text \<open>A change that is made when the function returns \<open>FALSE\<close>.\<close>

definition on_failure :: "('w rdpNego \<Rightarrow> 'w rdpNego) \<Rightarrow> ('w, 'a) nego_fun \<Rightarrow> ('w, 'a) nego_fun" where
  "on_failure g f x = (case f x of Failure (s, n) \<Rightarrow> Failure (s, g n) | y \<Rightarrow> y)"

lemmas nego_simps = on_stream_def get_nego_def set_nego_def on_failure_def

section \<open>Setters\<close>

definition nego_get_state :: "'w rdpNego \<Rightarrow> NEGO_STATE" where
  "nego_get_state nego = ng_state nego"

definition nego_set_state :: "NEGO_STATE \<Rightarrow> 'w rdpNego \<Rightarrow> 'w rdpNego" where
  "nego_set_state state nego = nego\<lparr>ng_state := state\<rparr>"

definition nego_set_selected_protocol :: "32 word \<Rightarrow> 'w rdpNego \<Rightarrow> 'w rdpNego" where
  "nego_set_selected_protocol SelectedProtocol nego = nego\<lparr>ng_SelectedProtocol := SelectedProtocol\<rparr>"

definition nego_set_requested_protocols :: "32 word \<Rightarrow> 'w rdpNego \<Rightarrow> 'w rdpNego" where
  "nego_set_requested_protocols RequestedProtocols nego = nego\<lparr>ng_RequestedProtocols := RequestedProtocols\<rparr>"

definition nego_enable_rdp :: "bool \<Rightarrow> 'w rdpNego \<Rightarrow> 'w rdpNego" where
  "nego_enable_rdp enable nego = nego\<lparr>ng_EnabledProtocols := (ng_EnabledProtocols nego)(PROTOCOL_RDP := enable)\<rparr>"

definition nego_enable_tls :: "bool \<Rightarrow> 'w rdpNego \<Rightarrow> 'w rdpNego" where
  "nego_enable_tls enable nego = nego\<lparr>ng_EnabledProtocols := (ng_EnabledProtocols nego)(PROTOCOL_SSL := enable)\<rparr>"

definition nego_enable_nla :: "bool \<Rightarrow> 'w rdpNego \<Rightarrow> 'w rdpNego" where
  "nego_enable_nla enable nego = nego\<lparr>ng_EnabledProtocols := (ng_EnabledProtocols nego)(PROTOCOL_HYBRID := enable)\<rparr>"

definition nego_enable_rdstls :: "bool \<Rightarrow> 'w rdpNego \<Rightarrow> 'w rdpNego" where
  "nego_enable_rdstls enable nego = nego\<lparr>ng_EnabledProtocols := (ng_EnabledProtocols nego)(PROTOCOL_RDSTLS := enable)\<rparr>"

definition nego_enable_ext :: "bool \<Rightarrow> 'w rdpNego \<Rightarrow> 'w rdpNego" where
  "nego_enable_ext enable nego = nego\<lparr>ng_EnabledProtocols := (ng_EnabledProtocols nego)(PROTOCOL_HYBRID_EX := enable)\<rparr>"

definition nego_enable_aad :: "bool \<Rightarrow> bool \<Rightarrow> 'w rdpNego \<Rightarrow> 'w rdpNego" where
  "nego_enable_aad aad_is_supported enable nego =
     (if aad_is_supported
      then nego\<lparr>ng_EnabledProtocols := (ng_EnabledProtocols nego)(PROTOCOL_RDSAAD := enable)\<rparr> else nego)"

definition nego_set_routing_token :: "malloc \<Rightarrow> byte list \<Rightarrow> ('w rdpNego, unit) cfun" where
  "nego_set_routing_token malloc RoutingToken nego =
     (let len = word_of_nat (length RoutingToken) :: 32 word in
      if len = 0 then Failure nego
      else case malloc (unat len) of
        None \<Rightarrow> Failure (nego\<lparr>ng_RoutingTokenLength := len, ng_RoutingToken := None\<rparr>)
      | Some _ \<Rightarrow> Success () (nego\<lparr>ng_RoutingTokenLength := len, ng_RoutingToken := Some (take (unat len) RoutingToken)\<rparr>))"

definition nego_set_cookie :: "malloc \<Rightarrow> byte list option \<Rightarrow> ('w rdpNego, unit) cfun" where
  "nego_set_cookie malloc cookie nego =
     (case cookie of
        None \<Rightarrow> Success () (nego\<lparr>ng_cookie := None\<rparr>)
      | Some c \<Rightarrow>
          if malloc (length c + 1) = None then Failure (nego\<lparr>ng_cookie := None\<rparr>)
          else Success () (nego\<lparr>ng_cookie := Some c\<rparr>))"

definition nego_set_target :: "byte list option \<Rightarrow> 16 word \<Rightarrow> ('w rdpNego, unit) cfun" where
  "nego_set_target hostname port nego =
     (case hostname of
        None \<Rightarrow> Failure nego
      | Some h \<Rightarrow> Success () (nego\<lparr>ng_hostname := h, ng_port := port\<rparr>))"

definition nego_set_negotiation_enabled :: "bool \<Rightarrow> 'w rdpNego \<Rightarrow> 'w rdpNego" where
  "nego_set_negotiation_enabled b nego = nego\<lparr>ng_NegotiateSecurityLayer := b\<rparr>"

definition nego_set_restricted_admin_mode_required :: "bool \<Rightarrow> 'w rdpNego \<Rightarrow> 'w rdpNego" where
  "nego_set_restricted_admin_mode_required b nego = nego\<lparr>ng_RestrictedAdminModeRequired := b\<rparr>"

definition nego_set_restricted_admin_mode_supported :: "bool \<Rightarrow> 'w rdpNego \<Rightarrow> 'w rdpNego" where
  "nego_set_restricted_admin_mode_supported b nego = nego\<lparr>ng_RestrictedAdminModeSupported := b\<rparr>"

definition nego_set_RCG_required :: "bool \<Rightarrow> 'w rdpNego \<Rightarrow> 'w rdpNego" where
  "nego_set_RCG_required b nego = nego\<lparr>ng_RemoteCredsGuardRequired := b\<rparr>"

definition nego_set_RCG_supported :: "bool \<Rightarrow> 'w rdpNego \<Rightarrow> 'w rdpNego" where
  "nego_set_RCG_supported b nego = nego\<lparr>ng_RemoteCredsGuardSupported := b\<rparr>"

definition nego_get_remoteCredentialGuard :: "'w rdpNego \<Rightarrow> bool" where
  "nego_get_remoteCredentialGuard nego = ng_RemoteCredsGuardActive nego"

definition nego_set_childsession_enabled :: "bool \<Rightarrow> 'w rdpNego \<Rightarrow> 'w rdpNego" where
  "nego_set_childsession_enabled b nego = nego\<lparr>ng_ConnectChildSession := b\<rparr>"

definition nego_set_gateway_enabled :: "bool \<Rightarrow> 'w rdpNego \<Rightarrow> 'w rdpNego" where
  "nego_set_gateway_enabled b nego = nego\<lparr>ng_GatewayEnabled := b\<rparr>"

definition nego_set_gateway_bypass_local :: "bool \<Rightarrow> 'w rdpNego \<Rightarrow> 'w rdpNego" where
  "nego_set_gateway_bypass_local b nego = nego\<lparr>ng_GatewayBypassLocal := b\<rparr>"

definition nego_set_cookie_max_length :: "32 word \<Rightarrow> 'w rdpNego \<Rightarrow> 'w rdpNego" where
  "nego_set_cookie_max_length CookieMaxLength nego = nego\<lparr>ng_CookieMaxLength := CookieMaxLength\<rparr>"

definition nego_set_send_preconnection_pdu :: "bool \<Rightarrow> 'w rdpNego \<Rightarrow> 'w rdpNego" where
  "nego_set_send_preconnection_pdu b nego = nego\<lparr>ng_SendPreconnectionPdu := b\<rparr>"

definition nego_set_preconnection_id :: "32 word \<Rightarrow> 'w rdpNego \<Rightarrow> 'w rdpNego" where
  "nego_set_preconnection_id PreconnectionId nego = nego\<lparr>ng_PreconnectionId := PreconnectionId\<rparr>"

definition nego_set_preconnection_blob :: "byte list option \<Rightarrow> 'w rdpNego \<Rightarrow> 'w rdpNego" where
  "nego_set_preconnection_blob blob nego = nego\<lparr>ng_PreconnectionBlob := blob\<rparr>"

definition nego_get_selected_protocol :: "'w rdpNego \<Rightarrow> 32 word" where
  "nego_get_selected_protocol nego = ng_SelectedProtocol nego"

definition nego_get_requested_protocols :: "'w rdpNego \<Rightarrow> 32 word" where
  "nego_get_requested_protocols nego = ng_RequestedProtocols nego"

definition nego_get_routing_token :: "'w rdpNego \<Rightarrow> 32 word \<times> byte list option" where
  "nego_get_routing_token nego = (ng_RoutingTokenLength nego, ng_RoutingToken nego)"

definition nego_init :: "'w rdpNego \<Rightarrow> 'w rdpNego" where
  "nego_init nego = (nego_set_state NEGO_STATE_INITIAL nego)
     \<lparr>ng_RequestedProtocols := PROTOCOL_RDP, ng_CookieMaxLength := 0xFF, ng_sendNegoData := False, ng_flags := 0\<rparr>"

definition nego_new :: "'w \<Rightarrow> 'w rdpNego" where
  "nego_new transport = nego_init
     \<lparr>ng_port = 0, ng_flags = 0, ng_hostname = [], ng_cookie = None, ng_RoutingToken = None,
      ng_RoutingTokenLength = 0, ng_SendPreconnectionPdu = False, ng_PreconnectionId = 0,
      ng_PreconnectionBlob = None, ng_state = NEGO_STATE_INITIAL, ng_TcpConnected = False,
      ng_SecurityConnected = False, ng_CookieMaxLength = 0, ng_sendNegoData = False,
      ng_SelectedProtocol = 0, ng_RequestedProtocols = 0, ng_NegotiateSecurityLayer = False,
      ng_EnabledProtocols = (\<lambda>_. False), ng_RestrictedAdminModeRequired = False,
      ng_RestrictedAdminModeSupported = False, ng_RemoteCredsGuardRequired = False,
      ng_RemoteCredsGuardActive = False, ng_RemoteCredsGuardSupported = False,
      ng_GatewayEnabled = False, ng_GatewayBypassLocal = False, ng_ConnectChildSession = False,
      ng_transport = transport\<rparr>"

section \<open>Receiving\<close>

definition nego_process_negotiation_response :: "('w, unit) nego_fun" where
  "nego_process_negotiation_response =
     bind_c (on_failure (nego_set_state NEGO_STATE_FAIL) (on_stream (Stream_CheckAndLogRequiredLength 7))) (\<lambda>_.
     bind_c (on_stream Stream_Read_UINT8) (\<lambda>flags.
     bind_c (set_nego (\<lambda>n. n\<lparr>ng_flags := ucast flags\<rparr>)) (\<lambda>_.
     bind_c (on_stream Stream_Read_UINT16) (\<lambda>len.
     if len \<noteq> 8 then bind_c (set_nego (nego_set_state NEGO_STATE_FAIL)) (\<lambda>_. fail_c)
     else
       bind_c (on_stream Stream_Read_UINT32) (\<lambda>SelectedProtocol.
       bind_c (set_nego (nego_set_selected_protocol SelectedProtocol)) (\<lambda>_.
       set_nego (nego_set_state NEGO_STATE_FINAL)))))))"

definition nego_disable_all_except :: "32 word \<Rightarrow> 'w rdpNego \<Rightarrow> 'w rdpNego" where
  "nego_disable_all_except what nego =
     nego\<lparr>ng_EnabledProtocols := (\<lambda>x. if x = what then ng_EnabledProtocols nego x else False)\<rparr>"

text \<open>What the failure codes 1 to 6 change.\<close>

definition nego_apply_failure :: "32 word \<Rightarrow> 'w rdpNego \<Rightarrow> 'w rdpNego" where
  "nego_apply_failure failureCode nego =
     (if failureCode = 1 then nego_disable_all_except PROTOCOL_SSL nego
      else if failureCode = 2 then (nego_disable_all_except PROTOCOL_RDP nego)\<lparr>ng_sendNegoData := True\<rparr>
      else if failureCode = 3 then nego\<lparr>ng_sendNegoData := True\<rparr>
      else if failureCode = 5 then nego_disable_all_except PROTOCOL_HYBRID nego
      else nego)"

definition nego_process_negotiation_failure :: "('w, unit) nego_fun" where
  "nego_process_negotiation_failure =
     bind_c (on_stream (Stream_CheckAndLogRequiredLength 7)) (\<lambda>_.
     bind_c (on_stream Stream_Read_UINT8) (\<lambda>flags.
     if flags \<noteq> 0 then fail_c
     else
       bind_c (on_stream Stream_Read_UINT16) (\<lambda>len.
       if len \<noteq> 8 then fail_c
       else
         bind_c (on_stream Stream_Read_UINT32) (\<lambda>failureCode.
         bind_c (set_nego (nego_apply_failure failureCode)) (\<lambda>_.
         set_nego (nego_set_state NEGO_STATE_FAIL))))))"

text \<open>The checks of \<open>nego_recv\<close> on the protocol that the server selected.\<close>

definition nego_check_selected :: "'w rdpNego \<Rightarrow> 'w rdpNego" where
  "nego_check_selected nego =
     (let en = ng_EnabledProtocols nego; sel = ng_SelectedProtocol nego in
      if sel \<noteq> 0 then
        if sel = PROTOCOL_RDSAAD \<and> \<not> en PROTOCOL_RDSAAD \<or> sel = PROTOCOL_HYBRID \<and> \<not> en PROTOCOL_HYBRID \<or>
           sel = PROTOCOL_SSL \<and> \<not> en PROTOCOL_SSL
        then nego_set_state NEGO_STATE_FAIL nego else nego
      else if \<not> en PROTOCOL_RDP then nego_set_state NEGO_STATE_FAIL nego
      else nego)"

definition nego_recv :: "('w, unit) nego_fun" where
  "nego_recv =
     bind_c (on_stream tpkt_read_header) (\<lambda>len.
     bind_c (on_stream (tpdu_read_connection_confirm len)) (\<lambda>li.
     bind_c
       (if li > 6 then
          bind_c (on_stream Stream_Read_UINT8) (\<lambda>type.
          if type = TYPE_RDP_NEG_RSP then
            bind_c nego_process_negotiation_response (\<lambda>_. set_nego nego_check_selected)
          else if type = TYPE_RDP_NEG_FAILURE then nego_process_negotiation_failure
          else fail_c)
        else if li = 6 then
          set_nego (\<lambda>n. if \<not> ng_EnabledProtocols n PROTOCOL_RDP then nego_set_state NEGO_STATE_FAIL n
                         else nego_set_state NEGO_STATE_FINAL n)
        else set_nego (nego_set_state NEGO_STATE_FAIL)) (\<lambda>_.
     on_stream (tpkt_ensure_stream_consumed (unat len)))))"

section \<open>Requests at the server\<close>

text \<open>\<open>memcmp (Stream_ConstPointer (s), lit, n)\<close>, which reads \<open>n\<close> bytes of the buffer.\<close>

definition memcmp_equal :: "byte list \<Rightarrow> (wStream, bool) cfun" where
  "memcmp_equal lit s =
     (let p = drop (s_pointer s) (s_buffer s) in
      if length p < length lit then Fault OutOfBoundsAccess else Success (take (length lit) p = lit) s)"

definition ascii :: "string \<Rightarrow> byte list" where
  "ascii = map (\<lambda>c. word_of_nat (of_char c))"

text \<open>The loop that looks for CR LF; it is left with the last two bytes read.\<close>

partial_function (option) crlf_loop :: "16 word \<Rightarrow> wStream \<Rightarrow> (wStream, 16 word) outcome option" where
  "crlf_loop crlf s =
     (case Stream_GetRemainingLength s of
        Fault e \<Rightarrow> Some (Fault e) | Failure s \<Rightarrow> Some (Failure s)
      | Success rem s \<Rightarrow>
          if rem \<ge> 2 then
            (case Stream_Read_UINT16 s of
               Fault e \<Rightarrow> Some (Fault e) | Failure s \<Rightarrow> Some (Failure s)
             | Success crlf s \<Rightarrow>
                 if crlf = 0x0A0D then Some (Success crlf s)
                 else case Stream_Rewind 1 s of
                     Fault e \<Rightarrow> Some (Fault e) | Failure s \<Rightarrow> Some (Failure s)
                   | Success _ s \<Rightarrow> crlf_loop crlf s)
          else Some (Success crlf s))"

definition nego_find_crlf :: "(wStream, 16 word) cfun" where
  "nego_find_crlf s = (case crlf_loop 0 s of None \<Rightarrow> Fault NonTermination | Some r \<Rightarrow> r)"

text \<open>The result of the comparisons at the start: not a token and not a cookie, a token, or a cookie.\<close>

datatype token_kind = NoToken | Token | Cookie

definition token_kind_at :: "nat \<Rightarrow> (wStream, token_kind) cfun" where
  "token_kind_at remain =
     bind_c (memcmp_equal (ascii ''Cookie: mstshash='')) (\<lambda>cookie.
     if \<not> cookie then
       bind_c (memcmp_equal (ascii ''Cookie: msts='')) (\<lambda>msts.
       if msts then return_c Token
       else
         bind_c (memcmp_equal (ascii ''tsv:'')) (\<lambda>tsv.
         if tsv then return_c Token
         else
           bind_c (memcmp_equal (ascii ''mth://'')) (\<lambda>mth.
           if mth then return_c Token else return_c NoToken)))
     else if remain < 19 then return_c NoToken
     else bind_c (Stream_Seek 17) (\<lambda>_. return_c Cookie))"

text \<open>
  Behind the token: the CR LF is overwritten with two zero bytes and the bytes in front of it are
  taken, unless there is a zero byte among them. The stream is set back to the start on failure.
\<close>

definition nego_take_token :: "malloc \<Rightarrow> bool \<Rightarrow> nat \<Rightarrow> ('w, unit) nego_fun" where
  "nego_take_token malloc isToken pos =
     bind_c (on_stream nego_find_crlf) (\<lambda>crlf.
     if crlf = 0x0A0D then
       bind_c (on_stream (Stream_Rewind 2)) (\<lambda>_ (s, n).
         let len = Stream_GetPosition s - pos in
         bind_c (on_stream (Stream_Write_UINT16 0)) (\<lambda>_.
         if len > 0xFFFFFFFF then fail_c
         else (\<lambda>(s, n).
           let str = take len (drop pos (s_buffer s)) in
           if 0 \<in> set str then bind_c (on_stream (Stream_SetPosition pos)) (\<lambda>_. fail_c) (s, n)
           else
             case (if isToken then nego_set_routing_token malloc str n
                   else nego_set_cookie malloc (Some str) n) of
               Fault e \<Rightarrow> Fault e
             | Failure n \<Rightarrow> bind_c (on_stream (Stream_SetPosition pos)) (\<lambda>_. fail_c) (s, n)
             | Success _ n \<Rightarrow> Success () (s, n))) (s, n))
     else bind_c (on_stream (Stream_SetPosition pos)) (\<lambda>_. fail_c))"

definition nego_read_request_token_or_cookie :: "malloc \<Rightarrow> ('w, unit) nego_fun" where
  "nego_read_request_token_or_cookie malloc =
     bind_c (on_stream Stream_GetRemainingLength) (\<lambda>remain (s, n).
       let pos = Stream_GetPosition s in
       if remain < 15 then Success () (s, n)
       else
         bind_c (on_stream (token_kind_at remain)) (\<lambda>kind.
         case kind of
           NoToken \<Rightarrow> return_c ()
         | Token \<Rightarrow> nego_take_token malloc True pos
         | Cookie \<Rightarrow> nego_take_token malloc False pos) (s, n))"

definition nego_process_correlation_info :: "(wStream, unit) cfun" where
  "nego_process_correlation_info =
     bind_c (Stream_CheckAndLogRequiredLength 36) (\<lambda>_.
     bind_c Stream_Read_UINT8 (\<lambda>type.
     if type \<noteq> TYPE_RDP_CORRELATION_INFO then fail_c
     else
       bind_c Stream_Read_UINT8 (\<lambda>flags.
       if flags \<noteq> 0 then fail_c
       else
         bind_c Stream_Read_UINT16 (\<lambda>len.
         if len \<noteq> 36 then fail_c
         else
           bind_c (Stream_Read 16) (\<lambda>correlationId.
           if correlationId ! 0 = 0 \<or> correlationId ! 0 = 0xF4 then fail_c
           else if 0x0D \<in> set correlationId then fail_c
           else Stream_Seek 16)))))"

text \<open>The flags of a request: restricted admin 1, remote credential guard 2, correlation info 8.\<close>

definition nego_process_negotiation_request :: "('w, unit) nego_fun" where
  "nego_process_negotiation_request =
     bind_c (on_stream (Stream_CheckAndLogRequiredLength 7)) (\<lambda>_.
     bind_c (on_stream Stream_Read_UINT8) (\<lambda>flags.
     if flags AND NOT 0x0B \<noteq> 0 then fail_c
     else
       bind_c get_nego (\<lambda>n.
       if flags AND 1 \<noteq> 0 \<and> \<not> ng_RestrictedAdminModeSupported n then fail_c
       else if flags AND 2 \<noteq> 0 \<and> \<not> ng_RemoteCredsGuardSupported n \<and> flags AND 1 = 0 then fail_c
       else
         bind_c (set_nego (\<lambda>n. if flags AND 2 \<noteq> 0 \<and> ng_RemoteCredsGuardSupported n
           then n\<lparr>ng_RemoteCredsGuardActive := True\<rparr> else n)) (\<lambda>_.
         bind_c (on_stream Stream_Read_UINT16) (\<lambda>len.
         if len \<noteq> 8 then fail_c
         else
           bind_c (on_stream Stream_Read_UINT32) (\<lambda>RequestedProtocols.
           bind_c (set_nego (\<lambda>n. n\<lparr>ng_RequestedProtocols := RequestedProtocols\<rparr>)) (\<lambda>_.
           bind_c (if flags AND 8 \<noteq> 0 then on_stream nego_process_correlation_info else return_c ()) (\<lambda>_.
           set_nego (nego_set_state NEGO_STATE_FINAL)))))))))"

definition nego_read_request :: "malloc \<Rightarrow> ('w, unit) nego_fun" where
  "nego_read_request malloc =
     bind_c (on_stream tpkt_read_header) (\<lambda>len.
     bind_c (on_stream (tpdu_read_connection_request len)) (\<lambda>li.
     bind_c (on_stream Stream_GetRemainingLength) (\<lambda>rem.
     if unat li \<noteq> rem + 6 then fail_c
     else
       bind_c (nego_read_request_token_or_cookie malloc) (\<lambda>_.
       bind_c (on_stream Stream_GetRemainingLength) (\<lambda>rem.
       bind_c
         (if rem \<ge> 8 then
            bind_c (on_stream Stream_Read_UINT8) (\<lambda>type.
            if type \<noteq> TYPE_RDP_NEG_REQ then fail_c else nego_process_negotiation_request)
          else return_c ()) (\<lambda>_.
       on_stream (tpkt_ensure_stream_consumed (unat len))))))))"

section \<open>Sending\<close>

text \<open>The lengths of the headers of connection request and confirm, TPKT header included.\<close>

definition TPDU_CONNECTION_REQUEST_LENGTH :: nat where "TPDU_CONNECTION_REQUEST_LENGTH = 11"
definition TPDU_CONNECTION_CONFIRM_LENGTH :: nat where "TPDU_CONNECTION_CONFIRM_LENGTH = 11"

text \<open>The routing token or the cookie, and the number of bytes it adds to the length.\<close>

definition nego_write_token :: "'w rdpNego \<Rightarrow> (wStream, nat) cfun" where
  "nego_write_token nego =
     (case ng_RoutingToken nego of
        Some token \<Rightarrow>
          let len = unat (ng_RoutingTokenLength nego) in
          bind_c (Stream_Write (take len token)) (\<lambda>_.
          if len > 2 \<and> token ! (len - 2) = 0x0D \<and> token ! (len - 1) = 0x0A then return_c len
          else
            bind_c (Stream_Write_UINT8 0x0D) (\<lambda>_.
            bind_c (Stream_Write_UINT8 0x0A) (\<lambda>_. return_c (len + 2))))
      | None \<Rightarrow>
          (case ng_cookie nego of
             Some cookie \<Rightarrow>
               let cookie_length = min (length cookie) (unat (ng_CookieMaxLength nego)) in
               bind_c (Stream_Write (ascii ''Cookie: mstshash='')) (\<lambda>_.
               bind_c (Stream_Write (take cookie_length cookie)) (\<lambda>_.
               bind_c (Stream_Write_UINT8 0x0D) (\<lambda>_.
               bind_c (Stream_Write_UINT8 0x0A) (\<lambda>_. return_c (cookie_length + 19)))))
           | None \<Rightarrow> return_c 0))"

definition nego_request_flags :: "'w rdpNego \<Rightarrow> byte" where
  "nego_request_flags nego =
     (if ng_RestrictedAdminModeRequired nego then 1 else 0) OR
     (if ng_RemoteCredsGuardRequired nego then 2 else 0)"

definition nego_write_neg_data :: "byte \<Rightarrow> byte \<Rightarrow> 32 word \<Rightarrow> (wStream, unit) cfun" where
  "nego_write_neg_data type flags v =
     bind_c (Stream_Write_UINT8 type) (\<lambda>_.
     bind_c (Stream_Write_UINT8 flags) (\<lambda>_.
     bind_c (Stream_Write_UINT16 8) (\<lambda>_.
     Stream_Write_UINT32 v)))"

text \<open>The stream of \<open>nego_send_negotiation_request\<close> up to \<open>transport_write\<close>.\<close>

definition nego_write_request :: "'w rdpNego \<Rightarrow> (wStream, unit) cfun" where
  "nego_write_request nego s =
     (let bm = Stream_GetPosition s in
      bind_c (Stream_Seek TPDU_CONNECTION_REQUEST_LENGTH) (\<lambda>_.
      bind_c (nego_write_token nego) (\<lambda>tok.
      bind_c
        (if ng_RequestedProtocols nego > PROTOCOL_RDP \<or> ng_sendNegoData nego then
           bind_c (nego_write_neg_data TYPE_RDP_NEG_REQ (nego_request_flags nego) (ng_RequestedProtocols nego))
             (\<lambda>_. return_c 8)
         else return_c 0) (\<lambda>neg s.
        let len = TPDU_CONNECTION_REQUEST_LENGTH + tok + neg; em = Stream_GetPosition s in
        if len > 0xFFFF then Failure s
        else
          bind_c (ignoring (Stream_SetPosition bm)) (\<lambda>_.
          bind_c (tpkt_write_header len) (\<lambda>_.
          bind_c (tpdu_write_connection_request (word_of_nat len - 5)) (\<lambda>_.
          bind_c (ignoring (Stream_SetPosition em)) (\<lambda>_.
          Stream_SealLength)))) s))) s)"

definition nego_transport_write :: "'w transport_ops \<Rightarrow> wStream \<Rightarrow> ('w rdpNego, unit) cfun" where
  "nego_transport_write ops s nego =
     (case transport_write ops s (ng_transport nego) of (ok, w) \<Rightarrow>
        if ok then Success () (nego\<lparr>ng_transport := w\<rparr>) else Failure (nego\<lparr>ng_transport := w\<rparr>))"

definition nego_send_negotiation_request :: "'w transport_ops \<Rightarrow> ('w rdpNego, unit) cfun" where
  "nego_send_negotiation_request ops nego =
     (case Stream_New (memory ops (ng_transport nego)) None 512 of
        None \<Rightarrow> Failure nego
      | Some s \<Rightarrow>
          (case nego_write_request nego s of
             Fault e \<Rightarrow> Fault e
           | Failure _ \<Rightarrow> Failure nego
           | Success _ s \<Rightarrow> nego_transport_write ops s nego))"

definition nego_response_flags :: "nego_settings \<Rightarrow> 'w rdpNego \<Rightarrow> byte" where
  "nego_response_flags settings nego =
     1 OR (if st_SupportGraphicsPipeline settings then 2 else 0) OR
     (if ng_RestrictedAdminModeSupported nego then 8 else 0) OR
     (if ng_RemoteCredsGuardSupported nego then 16 else 0)"

definition nego_write_response :: "nego_settings \<Rightarrow> 'w rdpNego \<Rightarrow> (wStream, unit) cfun" where
  "nego_write_response settings nego s =
     (let bm = Stream_GetPosition s in
      bind_c (Stream_Seek TPDU_CONNECTION_CONFIRM_LENGTH) (\<lambda>_.
      bind_c
        (if ng_SelectedProtocol nego AND PROTOCOL_FAILED_NEGO \<noteq> 0 then
           nego_write_neg_data TYPE_RDP_NEG_FAILURE 0 (ng_SelectedProtocol nego AND NOT PROTOCOL_FAILED_NEGO)
         else
           nego_write_neg_data TYPE_RDP_NEG_RSP (nego_response_flags settings nego) (ng_SelectedProtocol nego)) (\<lambda>_ s.
        let len = TPDU_CONNECTION_CONFIRM_LENGTH + 8; em = Stream_GetPosition s in
        bind_c (ignoring (Stream_SetPosition bm)) (\<lambda>_.
        bind_c (tpkt_write_header len) (\<lambda>_.
        bind_c (ignoring (tpdu_write_connection_confirm (word_of_nat len - 5))) (\<lambda>_.
        bind_c (ignoring (Stream_SetPosition em)) (\<lambda>_.
        Stream_SealLength)))) s)) s)"

text \<open>
  The settings after a response was sent. The result is \<open>False\<close> when standard security is selected
  for a peer that is not local and there is no server key.
\<close>

definition nego_response_settings :: "'w rdpNego \<Rightarrow> nego_settings \<Rightarrow> bool \<times> nego_settings" where
  "nego_response_settings nego settings =
     (let sel = ng_SelectedProtocol nego;
          settings = settings\<lparr>st_RequestedProtocols := ng_RequestedProtocols nego, st_SelectedProtocol := sel\<rparr>;
          enhanced = (\<lambda>nla rdstls. settings\<lparr>st_TlsSecurity := True, st_NlaSecurity := nla,
            st_RdstlsSecurity := rdstls, st_RdpSecurity := False, st_UseRdpSecurityLayer := False,
            st_EncryptionLevel := 0\<rparr>) in
      if sel = PROTOCOL_RDP then
        let settings = settings\<lparr>st_TlsSecurity := False, st_NlaSecurity := False, st_RdpSecurity := True,
              st_UseRdpSecurityLayer := True\<rparr>;
            settings = (if st_EncryptionLevel settings = 0 then settings\<lparr>st_EncryptionLevel := 2\<rparr> else settings) in
        if st_LocalConnection settings then
          (True, settings\<lparr>st_UseRdpSecurityLayer := False, st_EncryptionLevel := 0\<rparr>)
        else (st_RdpServerRsaKey settings, settings)
      else if sel = PROTOCOL_SSL then (True, enhanced False False)
      else if sel = PROTOCOL_HYBRID then (True, enhanced True False)
      else if sel = PROTOCOL_RDSTLS then (True, enhanced False True)
      else (True, settings))"

definition nego_send_negotiation_response :: "'w transport_ops \<Rightarrow> ('w rdpNego \<times> nego_settings, unit) cfun" where
  "nego_send_negotiation_response ops = (\<lambda>(nego, settings).
     case Stream_New (memory ops (ng_transport nego)) None 512 of
       None \<Rightarrow> Failure (nego, settings)
     | Some s \<Rightarrow>
         (case nego_write_response settings nego s of
            Fault e \<Rightarrow> Fault e
          | Failure _ \<Rightarrow> Failure (nego, settings)
          | Success _ s \<Rightarrow>
              (case nego_transport_write ops s nego of
                 Fault e \<Rightarrow> Fault e
               | Failure nego \<Rightarrow> Failure (nego, settings)
               | Success _ nego \<Rightarrow>
                   (case nego_response_settings nego settings of (ok, settings) \<Rightarrow>
                      if ok then Success () (nego, settings) else Failure (nego, settings)))))"

text \<open>\<open>to_wchar\<close> is \<open>ConvertUtf8ToWCharAlloc\<close>: the code units, or \<open>None\<close> with length zero.\<close>

definition nego_preconnection_blob :: "(byte list \<Rightarrow> 16 word list option) \<Rightarrow> 'w rdpNego \<Rightarrow>
  (16 word \<times> nat \<times> 16 word list option) option" where
  "nego_preconnection_blob to_wchar nego =
     (case ng_PreconnectionBlob nego of
        None \<Rightarrow> Some (0, 18, None)
      | Some blob \<Rightarrow>
          let wszPCB = to_wchar blob; len = (case wszPCB of None \<Rightarrow> 0 | Some ws \<Rightarrow> length ws) in
          if len > 0xFFFE then None
          else Some (word_of_nat (len + 1), 18 + (len + 1) * 2, wszPCB))"

definition nego_write_preconnection :: "32 word \<Rightarrow> 16 word \<Rightarrow> nat \<Rightarrow> 16 word list option \<Rightarrow> (wStream, unit) cfun" where
  "nego_write_preconnection PreconnectionId cchPCB cbSize wszPCB =
     bind_c (Stream_Write_UINT32 (word_of_nat cbSize)) (\<lambda>_.
     bind_c (Stream_Write_UINT32 0) (\<lambda>_.
     bind_c (Stream_Write_UINT32 2) (\<lambda>_.
     bind_c (Stream_Write_UINT32 PreconnectionId) (\<lambda>_.
     bind_c (Stream_Write_UINT16 cchPCB) (\<lambda>_.
     bind_c (case wszPCB of None \<Rightarrow> return_c ()
             | Some ws \<Rightarrow> Stream_Write (concat (map le16 (ws @ [0])))) (\<lambda>_.
     Stream_SealLength))))))"

section \<open>Connecting\<close>

definition ng_call :: "('w \<Rightarrow> bool \<times> 'w) \<Rightarrow> (bool \<Rightarrow> 'w rdpNego \<Rightarrow> 'w rdpNego) \<Rightarrow> 'w rdpNego \<Rightarrow> 'w rdpNego" where
  "ng_call f g nego = (case f (ng_transport nego) of (ok, w) \<Rightarrow> g ok (nego\<lparr>ng_transport := w\<rparr>))"

definition set_TcpConnected :: "bool \<Rightarrow> 'w rdpNego \<Rightarrow> 'w rdpNego" where
  "set_TcpConnected b nego = nego\<lparr>ng_TcpConnected := b\<rparr>"

definition set_SecurityConnected :: "bool \<Rightarrow> 'w rdpNego \<Rightarrow> 'w rdpNego" where
  "set_SecurityConnected b nego = nego\<lparr>ng_SecurityConnected := b\<rparr>"

definition nego_try_connect :: "'w transport_ops \<Rightarrow> ('w rdpNego, unit) cfun" where
  "nego_try_connect ops nego =
     (let sel = ng_SelectedProtocol nego;
          connect = (\<lambda>f. let n = ng_call f set_SecurityConnected nego in
            if ng_SecurityConnected n then Success () n else Failure n) in
      if sel = PROTOCOL_RDSAAD then connect (transport_connect_aad ops)
      else if sel = PROTOCOL_RDSTLS then connect (transport_connect_rdstls ops)
      else if sel = PROTOCOL_HYBRID then connect (transport_connect_nla ops False)
      else if sel = PROTOCOL_HYBRID_EX then connect (transport_connect_nla ops True)
      else if sel = PROTOCOL_SSL then connect (transport_connect_tls ops)
      else if sel = PROTOCOL_RDP then connect (transport_connect_rdp ops)
      else Failure nego)"

definition nego_security_connect :: "'w transport_ops \<Rightarrow> ('w rdpNego, unit) cfun" where
  "nego_security_connect ops nego =
     (if \<not> ng_TcpConnected nego then Failure (set_SecurityConnected False nego)
      else if \<not> ng_SecurityConnected nego then nego_try_connect ops nego
      else Success () nego)"

definition nego_tcp_connect :: "'w transport_ops \<Rightarrow> ('w rdpNego, unit) cfun" where
  "nego_tcp_connect ops nego =
     (let connect = ng_call (transport_connect ops (ng_hostname nego) (ng_port nego)) set_TcpConnected;
          gateway = (\<lambda>b n. n\<lparr>ng_transport := transport_set_gateway_enabled ops b (ng_transport n)\<rparr>);
          nego =
            (if ng_TcpConnected nego then nego
             else if ng_GatewayEnabled nego then
               let n = (if ng_GatewayBypassLocal nego then connect (gateway False nego) else nego) in
               if \<not> ng_TcpConnected n then connect (gateway True n) else n
             else if ng_ConnectChildSession nego then
               ng_call (transport_connect_childsession ops) set_TcpConnected nego
             else connect nego) in
      if ng_TcpConnected nego then Success () nego else Failure nego)"

definition nego_transport_connect :: "'w transport_ops \<Rightarrow> ('w rdpNego, unit) cfun" where
  "nego_transport_connect ops =
     bind_c (nego_tcp_connect ops) (\<lambda>_ nego.
       if ng_TcpConnected nego \<and> \<not> ng_NegotiateSecurityLayer nego then nego_security_connect ops nego
       else if ng_TcpConnected nego then Success () nego else Failure nego)"

definition nego_transport_disconnect :: "'w transport_ops \<Rightarrow> 'w rdpNego \<Rightarrow> 'w rdpNego" where
  "nego_transport_disconnect ops nego =
     (let n = (if ng_TcpConnected nego
        then nego\<lparr>ng_transport := transport_disconnect ops (ng_transport nego)\<rparr> else nego) in
      n\<lparr>ng_TcpConnected := False, ng_SecurityConnected := False\<rparr>)"

definition nego_disconnect :: "'w transport_ops \<Rightarrow> 'w rdpNego \<Rightarrow> 'w rdpNego" where
  "nego_disconnect ops nego = nego_transport_disconnect ops (nego_set_state NEGO_STATE_INITIAL nego)"

definition nego_send_preconnection_pdu :: "'w transport_ops \<Rightarrow> (byte list \<Rightarrow> 16 word list option) \<Rightarrow>
  ('w rdpNego, unit) cfun" where
  "nego_send_preconnection_pdu ops to_wchar =
     bind_c (nego_tcp_connect ops) (\<lambda>_ nego.
       case nego_preconnection_blob to_wchar nego of
         None \<Rightarrow> Failure nego
       | Some (cchPCB, cbSize, wszPCB) \<Rightarrow>
           (case Stream_New (memory ops (ng_transport nego)) None cbSize of
              None \<Rightarrow> Failure nego
            | Some s \<Rightarrow>
                (case nego_write_preconnection (ng_PreconnectionId nego) cchPCB cbSize wszPCB s of
                   Fault e \<Rightarrow> Fault e
                 | Failure _ \<Rightarrow> Failure nego
                 | Success _ s \<Rightarrow> nego_transport_write ops s nego)))"

definition nego_recv_response :: "'w transport_ops \<Rightarrow> ('w rdpNego, unit) cfun" where
  "nego_recv_response ops nego =
     (case Stream_New (memory ops (ng_transport nego)) None 1024 of
        None \<Rightarrow> Failure nego
      | Some s \<Rightarrow>
          (case transport_read_pdu ops s (ng_transport nego) of
             (None, w) \<Rightarrow> Failure (nego\<lparr>ng_transport := w\<rparr>)
           | (Some s, w) \<Rightarrow>
               (case nego_recv (s, nego\<lparr>ng_transport := w\<rparr>) of
                  Fault e \<Rightarrow> Fault e
                | Failure (s, nego) \<Rightarrow> Failure nego
                | Success _ (s, nego) \<Rightarrow> Success () nego)))"

section \<open>The state machine of the client\<close>

text \<open>The chains of tests that pick the next state; no protocol left is a failure.\<close>

fun first_enabled :: "(32 word \<times> NEGO_STATE) list \<Rightarrow> (32 word \<Rightarrow> bool) \<Rightarrow> NEGO_STATE" where
  "first_enabled [] enabled = NEGO_STATE_FAIL"
| "first_enabled ((protocol, state) # rest) enabled =
     (if enabled protocol then state else first_enabled rest enabled)"

text \<open>Connect, send the request and wait for the response; a failing call ends the attempt.\<close>

definition nego_exchange :: "'w transport_ops \<Rightarrow> 32 word \<Rightarrow> ('w rdpNego, unit) cfun" where
  "nego_exchange ops protocols nego =
     bind_c (nego_transport_connect ops) (\<lambda>_.
     bind_c (nego_send_negotiation_request ops) (\<lambda>_.
     nego_recv_response ops)) (nego\<lparr>ng_RequestedProtocols := protocols\<rparr>)"

definition nego_attempt :: "'w transport_ops \<Rightarrow> 32 word \<Rightarrow> (32 word \<times> NEGO_STATE) list \<Rightarrow>
  ('w rdpNego, unit) cfun" where
  "nego_attempt ops protocols next nego =
     (case nego_exchange ops protocols nego of
        Fault e \<Rightarrow> Fault e
      | Failure nego \<Rightarrow> Success () (nego_set_state NEGO_STATE_FAIL nego)
      | Success _ nego \<Rightarrow>
          if nego_get_state nego \<noteq> NEGO_STATE_FINAL then
            let nego = nego_transport_disconnect ops nego in
            Success () (nego_set_state (first_enabled next (ng_EnabledProtocols nego)) nego)
          else Success () nego)"

definition nego_attempt_rdstls :: "'w transport_ops \<Rightarrow> ('w rdpNego, unit) cfun" where
  "nego_attempt_rdstls ops = nego_attempt ops (PROTOCOL_RDSTLS OR PROTOCOL_SSL)
     [(PROTOCOL_HYBRID_EX, NEGO_STATE_EXT), (PROTOCOL_HYBRID, NEGO_STATE_NLA),
      (PROTOCOL_SSL, NEGO_STATE_TLS), (PROTOCOL_RDP, NEGO_STATE_RDP)]"

definition nego_attempt_rdsaad :: "'w transport_ops \<Rightarrow> ('w rdpNego, unit) cfun" where
  "nego_attempt_rdsaad ops = nego_attempt ops PROTOCOL_RDSAAD
     [(PROTOCOL_HYBRID_EX, NEGO_STATE_EXT), (PROTOCOL_HYBRID, NEGO_STATE_NLA),
      (PROTOCOL_SSL, NEGO_STATE_TLS), (PROTOCOL_RDP, NEGO_STATE_RDP)]"

definition nego_attempt_ext :: "'w transport_ops \<Rightarrow> ('w rdpNego, unit) cfun" where
  "nego_attempt_ext ops = nego_attempt ops (PROTOCOL_HYBRID OR PROTOCOL_SSL OR PROTOCOL_HYBRID_EX)
     [(PROTOCOL_HYBRID, NEGO_STATE_NLA), (PROTOCOL_SSL, NEGO_STATE_TLS), (PROTOCOL_RDP, NEGO_STATE_RDP)]"

definition nego_attempt_nla :: "'w transport_ops \<Rightarrow> ('w rdpNego, unit) cfun" where
  "nego_attempt_nla ops = nego_attempt ops (PROTOCOL_HYBRID OR PROTOCOL_SSL)
     [(PROTOCOL_SSL, NEGO_STATE_TLS), (PROTOCOL_RDP, NEGO_STATE_RDP)]"

definition nego_attempt_tls :: "'w transport_ops \<Rightarrow> ('w rdpNego, unit) cfun" where
  "nego_attempt_tls ops = nego_attempt ops PROTOCOL_SSL [(PROTOCOL_RDP, NEGO_STATE_RDP)]"

definition nego_attempt_rdp :: "'w transport_ops \<Rightarrow> ('w rdpNego, unit) cfun" where
  "nego_attempt_rdp ops nego =
     (case nego_exchange ops PROTOCOL_RDP nego of
        Fault e \<Rightarrow> Fault e
      | Failure nego \<Rightarrow> Success () (nego_set_state NEGO_STATE_FAIL nego)
      | Success _ nego \<Rightarrow> Success () nego)"

definition nego_send :: "'w transport_ops \<Rightarrow> ('w rdpNego, unit) cfun" where
  "nego_send ops nego =
     (case nego_get_state nego of
        NEGO_STATE_AAD \<Rightarrow> nego_attempt_rdsaad ops nego
      | NEGO_STATE_RDSTLS \<Rightarrow> nego_attempt_rdstls ops nego
      | NEGO_STATE_EXT \<Rightarrow> nego_attempt_ext ops nego
      | NEGO_STATE_NLA \<Rightarrow> nego_attempt_nla ops nego
      | NEGO_STATE_TLS \<Rightarrow> nego_attempt_tls ops nego
      | NEGO_STATE_RDP \<Rightarrow> nego_attempt_rdp ops nego
      | _ \<Rightarrow> Success () nego)"

text \<open>The \<open>do\<close> loop of \<open>nego_connect\<close>; \<open>None\<close> would be a loop that does not end.\<close>

partial_function (option) nego_loop :: "'w transport_ops \<Rightarrow> 'w rdpNego \<Rightarrow> ('w rdpNego, unit) outcome option" where
  "nego_loop ops nego =
     (case nego_send ops nego of
        Fault e \<Rightarrow> Some (Fault e)
      | Failure nego \<Rightarrow> Some (Failure nego)
      | Success _ nego \<Rightarrow>
          if nego_get_state nego = NEGO_STATE_FAIL then
            Some (Failure (nego_set_state NEGO_STATE_FINAL nego))
          else if nego_get_state nego \<noteq> NEGO_STATE_FINAL then nego_loop ops nego
          else Some (Success () nego))"

definition nego_update_settings_from_state :: "'w rdpNego \<Rightarrow> nego_settings \<Rightarrow> nego_settings" where
  "nego_update_settings_from_state nego settings = settings
     \<lparr>st_RequestedProtocols := ng_RequestedProtocols nego, st_SelectedProtocol := ng_SelectedProtocol nego,
      st_NegotiationFlags := ng_flags nego\<rparr>"

text \<open>Without negotiation only the highest enabled protocol is attempted, and it is selected.\<close>

definition nego_only_highest :: "'w rdpNego \<Rightarrow> 'w rdpNego" where
  "nego_only_highest nego =
     (let only = (\<lambda>ps sel. nego\<lparr>ng_EnabledProtocols := (\<lambda>x.
            if x \<in> {PROTOCOL_RDSAAD, PROTOCOL_HYBRID, PROTOCOL_SSL, PROTOCOL_RDP, PROTOCOL_HYBRID_EX, PROTOCOL_RDSTLS}
            then x \<in> set ps else ng_EnabledProtocols nego x), ng_SelectedProtocol := sel\<rparr>) in
      case nego_get_state nego of
        NEGO_STATE_AAD \<Rightarrow> only [PROTOCOL_RDSAAD] PROTOCOL_RDSAAD
      | NEGO_STATE_RDSTLS \<Rightarrow> only [PROTOCOL_RDSTLS] PROTOCOL_RDSTLS
      | NEGO_STATE_EXT \<Rightarrow> only [PROTOCOL_HYBRID_EX, PROTOCOL_HYBRID] PROTOCOL_HYBRID_EX
      | NEGO_STATE_NLA \<Rightarrow> only [PROTOCOL_HYBRID] PROTOCOL_HYBRID
      | NEGO_STATE_TLS \<Rightarrow> only [PROTOCOL_SSL] PROTOCOL_SSL
      | NEGO_STATE_RDP \<Rightarrow> only [PROTOCOL_RDP] PROTOCOL_RDP
      | _ \<Rightarrow> nego)"

definition nego_connect_initial :: "'w transport_ops \<Rightarrow> (byte list \<Rightarrow> 16 word list option) \<Rightarrow>
  ('w rdpNego, unit) cfun" where
  "nego_connect_initial ops to_wchar nego =
     (let nego = nego_set_state (first_enabled
        [(PROTOCOL_RDSAAD, NEGO_STATE_AAD), (PROTOCOL_RDSTLS, NEGO_STATE_RDSTLS),
         (PROTOCOL_HYBRID_EX, NEGO_STATE_EXT), (PROTOCOL_HYBRID, NEGO_STATE_NLA),
         (PROTOCOL_SSL, NEGO_STATE_TLS), (PROTOCOL_RDP, NEGO_STATE_RDP)] (ng_EnabledProtocols nego)) nego in
      if nego_get_state nego = NEGO_STATE_FAIL then Failure nego
      else
        let nego = (if \<not> ng_NegotiateSecurityLayer nego then nego_only_highest nego else nego) in
        bind_c (nego_tcp_connect ops) (\<lambda>_ nego.
          if ng_SendPreconnectionPdu nego then
            (case nego_send_preconnection_pdu ops to_wchar nego of
               Failure nego \<Rightarrow> Failure (nego_set_state NEGO_STATE_FINAL nego)
             | r \<Rightarrow> r)
          else Success () nego) nego)"

definition nego_connect_finish :: "'w transport_ops \<Rightarrow> ('w rdpNego \<times> nego_settings, unit) cfun" where
  "nego_connect_finish ops = (\<lambda>(nego, settings).
     let settings = nego_update_settings_from_state nego settings;
         settings =
           (if ng_SelectedProtocol nego = PROTOCOL_RDP then
              settings\<lparr>st_UseRdpSecurityLayer := True,
                st_EncryptionMethods := (if st_EncryptionMethods settings = 0 then 0x1B else st_EncryptionMethods settings)\<rparr>
            else settings) in
     case nego_security_connect ops nego of
       Fault e \<Rightarrow> Fault e
     | Failure nego \<Rightarrow> Failure (nego, settings)
     | Success _ nego \<Rightarrow> Success () (nego, settings))"

definition nego_connect :: "'w transport_ops \<Rightarrow> (byte list \<Rightarrow> 16 word list option) \<Rightarrow>
  ('w rdpNego \<times> nego_settings, unit) cfun" where
  "nego_connect ops to_wchar = (\<lambda>(nego, settings).
     case (if nego_get_state nego = NEGO_STATE_INITIAL then nego_connect_initial ops to_wchar nego
           else Success () nego) of
       Fault e \<Rightarrow> Fault e
     | Failure nego \<Rightarrow> Failure (nego, settings)
     | Success _ nego \<Rightarrow>
         if \<not> ng_NegotiateSecurityLayer nego then
           nego_connect_finish ops (nego_set_state NEGO_STATE_FINAL nego, settings)
         else
           (case nego_loop ops nego of
              None \<Rightarrow> Fault NonTermination
            | Some (Fault e) \<Rightarrow> Fault e
            | Some (Failure nego) \<Rightarrow> Failure (nego, settings)
            | Some (Success _ nego) \<Rightarrow> nego_connect_finish ops (nego, settings)))"

section \<open>Responses\<close>

text \<open>What a connection confirm says, as a value, and what the client makes of it.\<close>

datatype confirm = NegNone | NegResponse byte "32 word" | NegFailure "32 word"

definition dec_rsp :: "confirm parser" where
  "dec_rsp = check_p 7 (bind_p u8_p (\<lambda>flags. bind_p u16_le_p (\<lambda>len bs.
     if len = 8 then Some (NegResponse flags (winpr_Data_Get_UINT32 bs), drop 4 bs) else None)))"

definition dec_failure :: "confirm parser" where
  "dec_failure = check_p 7 (bind_p u8_p (\<lambda>flags. bind_p u16_le_p (\<lambda>len bs.
     if flags = 0 \<and> len = 8 then Some (NegFailure (winpr_Data_Get_UINT32 bs), drop 4 bs) else None)))"

definition dec_neg :: "confirm parser" where
  "dec_neg = bind_p dec_tpkt (\<lambda>len. bind_p (dec_confirm len) (\<lambda>li.
     if li = 6 then return_p NegNone
     else bind_p u8_p (\<lambda>type. if type = 2 then dec_rsp else if type = 3 then dec_failure else fail_p)))"

text \<open>The message has to end with the packet.\<close>

definition dec_confirm_pdu :: "byte list \<Rightarrow> confirm option" where
  "dec_confirm_pdu bs = (case dec_neg bs of Some (m, []) \<Rightarrow> Some m | _ \<Rightarrow> None)"

definition acceptable :: "'w rdpNego \<Rightarrow> 32 word \<Rightarrow> bool" where
  "acceptable nego sel \<longleftrightarrow> sel \<in> {PROTOCOL_RDP, PROTOCOL_SSL, PROTOCOL_HYBRID, PROTOCOL_RDSAAD} \<longrightarrow> ng_EnabledProtocols nego sel"

definition left_by_failure :: "32 word \<Rightarrow> 32 word set" where
  "left_by_failure code = (if code = 1 then {PROTOCOL_SSL} else if code = 2 then {PROTOCOL_RDP}
     else if code = 5 then {PROTOCOL_HYBRID} else UNIV)"

fun apply_confirm :: "confirm \<Rightarrow> 'w rdpNego \<Rightarrow> 'w rdpNego" where
  "apply_confirm NegNone nego =
     nego\<lparr>ng_state := if ng_EnabledProtocols nego PROTOCOL_RDP then NEGO_STATE_FINAL else NEGO_STATE_FAIL\<rparr>"
| "apply_confirm (NegResponse flags sel) nego =
     nego\<lparr>ng_flags := ucast flags, ng_SelectedProtocol := sel,
       ng_state := if acceptable nego sel then NEGO_STATE_FINAL else NEGO_STATE_FAIL\<rparr>"
| "apply_confirm (NegFailure code) nego =
     nego\<lparr>ng_EnabledProtocols := (\<lambda>p. ng_EnabledProtocols nego p \<and> p \<in> left_by_failure code),
       ng_sendNegoData := (ng_sendNegoData nego \<or> code = 2 \<or> code = 3), ng_state := NEGO_STATE_FAIL\<rparr>"

lemma check_selected_acceptable:
  "nego_check_selected (nego\<lparr>ng_flags := f, ng_SelectedProtocol := sel, ng_state := NEGO_STATE_FINAL\<rparr>) =
     nego\<lparr>ng_flags := f, ng_SelectedProtocol := sel,
       ng_state := if acceptable nego sel then NEGO_STATE_FINAL else NEGO_STATE_FAIL\<rparr>"
  by (auto simp: nego_check_selected_def acceptable_def nego_set_state_def protocols Let_def)

lemma apply_failure_left:
  "nego_set_state NEGO_STATE_FAIL (nego_apply_failure code nego) =
     nego\<lparr>ng_EnabledProtocols := (\<lambda>p. ng_EnabledProtocols nego p \<and> p \<in> left_by_failure code),
       ng_sendNegoData := (ng_sendNegoData nego \<or> code = 2 \<or> code = 3), ng_state := NEGO_STATE_FAIL\<rparr>"
  by (auto simp: nego_apply_failure_def left_by_failure_def nego_disable_all_except_def nego_set_state_def fun_eq_iff)

text \<open>What negotiating does not change: configuration; protocols are only ever disabled.\<close>

definition nego_keeps :: "'w rdpNego \<Rightarrow> 'w rdpNego \<Rightarrow> bool" where
  "nego_keeps n n' \<longleftrightarrow> (\<forall>p. ng_EnabledProtocols n' p \<longrightarrow> ng_EnabledProtocols n p) \<and>
     ng_NegotiateSecurityLayer n' = ng_NegotiateSecurityLayer n \<and> ng_cookie n' = ng_cookie n \<and>
     ng_RoutingToken n' = ng_RoutingToken n \<and>
     ng_RoutingTokenLength n' = ng_RoutingTokenLength n \<and> ng_CookieMaxLength n' = ng_CookieMaxLength n"

lemma nego_keeps_refl [simp]: "nego_keeps n n"
  by (simp add: nego_keeps_def)

lemma nego_keeps_trans [trans]: "nego_keeps a b \<Longrightarrow> nego_keeps b c \<Longrightarrow> nego_keeps a c"
  by (simp add: nego_keeps_def)

lemma nego_keeps_simps [simp]:
  "nego_keeps n (nego_set_state st m) = nego_keeps n m" "nego_keeps n (nego_check_selected m) = nego_keeps n m"
  "nego_keeps n (m\<lparr>ng_flags := f\<rparr>) = nego_keeps n m" "nego_keeps n (m\<lparr>ng_SelectedProtocol := sel\<rparr>) = nego_keeps n m"
  "nego_keeps n (m\<lparr>ng_state := st\<rparr>) = nego_keeps n m" "nego_keeps n (m\<lparr>ng_transport := w\<rparr>) = nego_keeps n m"
  "nego_keeps n (m\<lparr>ng_RequestedProtocols := q\<rparr>) = nego_keeps n m"
  "nego_keeps n (m\<lparr>ng_TcpConnected := b\<rparr>) = nego_keeps n m"
  "nego_keeps n (m\<lparr>ng_SecurityConnected := b\<rparr>) = nego_keeps n m"
  by (simp_all add: nego_keeps_def nego_set_state_def nego_check_selected_def Let_def)

lemma nego_keeps_apply_failure [simp]: "nego_keeps n (nego_apply_failure code n)"
  by (simp add: nego_keeps_def nego_apply_failure_def nego_disable_all_except_def)

lemma nego_keeps_apply_confirm [simp]: "nego_keeps n (apply_confirm m n)"
  by (cases m) (simp_all add: nego_keeps_def)

definition nego_outcome :: "wStream \<Rightarrow> 'w rdpNego \<Rightarrow> (confirm \<times> byte list) option \<Rightarrow>
  (wStream \<times> 'w rdpNego, unit) outcome \<Rightarrow> bool" where
  "nego_outcome s n r x \<longleftrightarrow> (case r of
     Some (m, rest) \<Rightarrow> \<exists>k. k \<le> length (remaining s) \<and> x = Success () (advance k s, apply_confirm m n) \<and>
       rest = drop k (remaining s)
   | None \<Rightarrow> \<exists>s' n'. x = Failure (s', n') \<and> nego_keeps n n')"

lemma tl_drop: "tl xs = drop (Suc 0) xs"
  by (cases xs) simp_all

lemma neg_data_room:
  assumes "readable s" "7 \<le> length (remaining s)"
  shows "remaining s \<noteq> []" "2 \<le> length (drop (Suc 0) (remaining s))" "4 \<le> length (drop 3 (remaining s))"
    "readable (advance (Suc 0) s)" "readable (advance 3 s)" "tl (remaining s) = drop (Suc 0) (remaining s)"
    "drop (Suc (Suc (Suc 0))) (remaining s) = drop 3 (remaining s)"
  using assms by (auto simp: tl_drop numeral_3_eq_3)

lemma response_exact:
  assumes "readable s"
  shows "nego_outcome s n (dec_rsp (remaining s))
    (bind_c nego_process_negotiation_response (\<lambda>_. set_nego nego_check_selected) (s, n))"
proof (cases "7 \<le> length (remaining s)")
  case False
  then show ?thesis using assms
    by (simp add: nego_outcome_def dec_rsp_def check_p_def nego_process_negotiation_response_def c_simps nego_simps stream_exec)
next
  case True
  then show ?thesis using neg_data_room [OF assms True] assms
    by (auto simp: nego_outcome_def dec_rsp_def parser_defs nego_process_negotiation_response_def c_simps nego_simps
        stream_exec nego_set_selected_protocol_def nego_set_state_def check_selected_acceptable intro!: exI [of _ 7])
qed

lemma failure_exact:
  assumes "readable s"
  shows "nego_outcome s n (dec_failure (remaining s)) (nego_process_negotiation_failure (s, n))"
proof (cases "7 \<le> length (remaining s)")
  case False
  then show ?thesis using assms
    by (simp add: nego_outcome_def dec_failure_def check_p_def nego_process_negotiation_failure_def c_simps nego_simps stream_exec)
next
  case True
  then show ?thesis using neg_data_room [OF assms True] assms
    by (auto simp: nego_outcome_def dec_failure_def parser_defs nego_process_negotiation_failure_def c_simps nego_simps
        stream_exec apply_failure_left intro!: exI [of _ 7])
qed

lemma nego_outcome_advance:
  assumes "nego_outcome (advance k s) n r x" "k \<le> length (remaining s)"
  shows "nego_outcome s n r x"
proof (cases r)
  case (Some a)
  obtain m rest where a: "a = (m, rest)" by (cases a)
  with assms Some obtain i where "i \<le> length (remaining s) - k" "x = Success () (advance (k + i) s, apply_confirm m n)"
    "rest = drop (k + i) (remaining s)" by (auto simp: nego_outcome_def add.commute)
  with Some a assms(2) show ?thesis by (auto simp: nego_outcome_def intro!: exI [of _ "k + i"])
qed (use assms in \<open>simp add: nego_outcome_def\<close>)

text \<open>A reader in front of the rest of a function that also works on the negotiation state.\<close>

lemma nego_outcome_bind:
  assumes f: "reads f p" and s: "readable s"
    and k: "\<And>v t. readable t \<Longrightarrow> p (remaining s) = Some (v, remaining t) \<Longrightarrow> nego_outcome t n (q v (remaining t)) (g v (t, n))"
  shows "nego_outcome s n (bind_p p q (remaining s)) (bind_c (on_stream f) g (s, n))"
proof (cases "p (remaining s)")
  case None
  with f s obtain i where "f s = Failure (advance i s)" by (rule reads_None)
  with None show ?thesis by (simp add: nego_outcome_def c_simps nego_simps)
next
  case (Some a)
  obtain v rest where "a = (v, rest)" by (cases a)
  with Some have p: "p (remaining s) = Some (v, rest)" by simp
  with f s obtain i where i: "i \<le> length (remaining s)" "f s = Success v (advance i s)"
    "rest = drop i (remaining s)" by (rule reads_Some)
  have r: "readable (advance i s)" "remaining (advance i s) = rest" using i s by simp_all
  then have "nego_outcome (advance i s) n (q v rest) (g v (advance i s, n))"
    using k [OF r(1), of v] p by simp
  then have "nego_outcome s n (q v rest) (g v (advance i s, n))" using i(1) by (rule nego_outcome_advance)
  with p i(2) show ?thesis by (simp add: bind_c_def nego_simps)
qed

definition nego_returns :: "'w rdpNego \<Rightarrow> confirm option \<Rightarrow> (wStream \<times> 'w rdpNego, unit) outcome \<Rightarrow> bool" where
  "nego_returns n r x \<longleftrightarrow> (case r of
     Some m \<Rightarrow> \<exists>s'. x = Success () (s', apply_confirm m n)
   | None \<Rightarrow> \<exists>s' n'. x = Failure (s', n') \<and> nego_keeps n n')"

lemma nego_returns_consumed:
  assumes "nego_outcome s n r (f (s, n))" "readable s" "len \<le> 65535"
  shows "nego_returns n (case r of Some (m, []) \<Rightarrow> Some m | _ \<Rightarrow> None)
    (bind_c f (\<lambda>_. on_stream (tpkt_ensure_stream_consumed len)) (s, n))"
proof (cases r)
  case None
  with assms(1) show ?thesis by (auto simp: nego_outcome_def nego_returns_def bind_c_def)
next
  case (Some a)
  obtain m rest where a: "a = (m, rest)" by (cases a)
  with Some assms(1) obtain i where i: "i \<le> length (remaining s)" "f (s, n) = Success () (advance i s, apply_confirm m n)"
    "rest = drop i (remaining s)" by (auto simp: nego_outcome_def)
  have "readable (advance i s)" "remaining (advance i s) = rest" using i assms(2) by simp_all
  with i(2) assms(3) Some a show ?thesis
    by (cases rest) (auto simp: nego_returns_def c_simps nego_simps tpkt_ensure_stream_consumed_def stream_exec)
qed

lemma confirm_li:
  "dec_confirm len bs = Some (li, rest) \<Longrightarrow> 6 \<le> unat li \<and> unat li - 6 \<le> length rest"
  by (auto simp: dec_confirm_def bind_p_def split: option.splits prod.splits if_splits)

lemma li_cases: "6 < (li :: byte) \<longleftrightarrow> 6 < unat li" "li = 6 \<longleftrightarrow> unat li = 6"
  by (simp_all add: word_less_nat_alt word_unat_eq_iff)

lemma neg_data_exact:
  assumes "readable s" "remaining s \<noteq> []"
  shows "nego_outcome s n
    (bind_p u8_p (\<lambda>type. if type = 2 then dec_rsp else if type = 3 then dec_failure else fail_p) (remaining s))
    (bind_c (on_stream Stream_Read_UINT8) (\<lambda>type.
       if type = TYPE_RDP_NEG_RSP then bind_c nego_process_negotiation_response (\<lambda>_. set_nego nego_check_selected)
       else if type = TYPE_RDP_NEG_FAILURE then nego_process_negotiation_failure else fail_c) (s, n))"
    (is "nego_outcome s n (bind_p u8_p ?q _) (bind_c _ ?g _)")
proof -
  let ?t = "advance 1 s"
  have t: "readable ?t" "1 \<le> length (remaining s)" "remaining ?t = tl (remaining s)"
    using assms by (simp_all add: Suc_le_eq tl_drop)
  have "nego_outcome ?t n (?q ty (remaining ?t)) (?g ty (?t, n))" for ty
    using response_exact [OF t(1), of n] failure_exact [OF t(1), of n]
    by (auto simp: neg_types nego_outcome_def fail_p_def fail_c_def)
  then have "nego_outcome s n (?q ty (tl (remaining s))) (?g ty (?t, n))" for ty
    using t nego_outcome_advance [OF _ t(2)] by metis
  then show ?thesis using assms by (simp add: bind_c_def nego_simps stream_exec bind_p_def u8_p_def)
qed

lemma nego_recv_exact:
  assumes "readable s"
  shows "nego_returns n (dec_confirm_pdu (remaining s)) (nego_recv (s, n))"
proof (cases "dec_tpkt (remaining s)")
  case None
  from reads_tpkt assms None obtain i where "tpkt_read_header s = Failure (advance i s)" by (rule reads_None)
  with None show ?thesis
    by (simp add: nego_returns_def dec_confirm_pdu_def dec_neg_def nego_recv_def bind_c_def nego_simps)
next
  case (Some a)
  obtain len r where a: "a = (len, r)" by (cases a)
  with Some have d: "dec_tpkt (remaining s) = Some (len, r)" by simp
  with reads_tpkt assms obtain i where i: "i \<le> length (remaining s)" "tpkt_read_header s = Success len (advance i s)"
    "r = drop i (remaining s)" by (rule reads_Some)
  let ?t = "advance i s"
  let ?q = "\<lambda>li. if li = 6 then return_p NegNone
     else bind_p u8_p (\<lambda>type. if type = 2 then dec_rsp else if type = 3 then dec_failure else fail_p)"
  let ?g = "\<lambda>li. if li > 6 then
       bind_c (on_stream Stream_Read_UINT8) (\<lambda>type.
         if type = TYPE_RDP_NEG_RSP then bind_c nego_process_negotiation_response (\<lambda>_. set_nego nego_check_selected)
         else if type = TYPE_RDP_NEG_FAILURE then nego_process_negotiation_failure else fail_c)
     else if li = 6 then
       set_nego (\<lambda>n. if \<not> ng_EnabledProtocols n PROTOCOL_RDP then nego_set_state NEGO_STATE_FAIL n
                      else nego_set_state NEGO_STATE_FINAL n)
     else set_nego (nego_set_state NEGO_STATE_FAIL)"
  have t: "readable ?t" "remaining ?t = r" using i assms by simp_all
  have "nego_outcome ?t n (bind_p (dec_confirm len) ?q (remaining ?t)) (bind_c (on_stream (tpdu_read_connection_confirm len)) ?g (?t, n))"
  proof (rule nego_outcome_bind [OF reads_confirm t(1)])
    fix li u assume u: "readable u" "dec_confirm len (remaining ?t) = Some (li, remaining u)"
    then have l: "6 \<le> unat li" "unat li - 6 \<le> length (remaining u)" using confirm_li by blast+
    show "nego_outcome u n (?q li (remaining u)) (?g li (u, n))"
    proof (cases "unat li = 6")
      case True
      then show ?thesis by (auto simp: li_cases nego_outcome_def return_p_def nego_simps nego_set_state_def intro!: exI [of _ 0])
    next
      case False
      then have "remaining u \<noteq> []" using l by auto
      with neg_data_exact [OF u(1) this, of n] False l show ?thesis by (simp add: li_cases)
    qed
  qed
  note o = this
  have "unat len \<le> 65535" using unsigned_less [where 'a = nat, of len] by simp
  note c = nego_returns_consumed
    [where f = "bind_c (on_stream (tpdu_read_connection_confirm len)) ?g", OF o t(1) this]
  have "on_stream tpkt_read_header (s, n) = Success len (?t, n)" using i(2) by (simp add: on_stream_def)
  note e = bind_c_Success [where f = "on_stream tpkt_read_header", OF this]
  have "nego_recv (s, n) = bind_c (bind_c (on_stream (tpdu_read_connection_confirm len)) ?g)
        (\<lambda>_. on_stream (tpkt_ensure_stream_consumed (unat len))) (?t, n)"
    unfolding nego_recv_def e bind_c_assoc ..
  moreover have "dec_confirm_pdu (remaining s) = (case bind_p (dec_confirm len) ?q (remaining ?t) of
      Some (m, []) \<Rightarrow> Some m | _ \<Rightarrow> None)"
    unfolding dec_confirm_pdu_def dec_neg_def bind_p_Some [where p = dec_tpkt, OF d] t(2) ..
  ultimately show ?thesis using c by (simp only:)
qed

section \<open>Messages\<close>

definition token_bytes :: "'w rdpNego \<Rightarrow> byte list" where
  "token_bytes nego = (case ng_RoutingToken nego of
     Some token \<Rightarrow> let len = unat (ng_RoutingTokenLength nego) in
       if len > 2 \<and> token ! (len - 2) = 0x0D \<and> token ! (len - 1) = 0x0A then take len token
       else take len token @ [0x0D, 0x0A]
   | None \<Rightarrow> (case ng_cookie nego of
       Some cookie \<Rightarrow> ascii ''Cookie: mstshash='' @ take (unat (ng_CookieMaxLength nego)) cookie @ [0x0D, 0x0A]
     | None \<Rightarrow> []))"

definition neg_data :: "byte \<Rightarrow> byte \<Rightarrow> 32 word \<Rightarrow> byte list" where
  "neg_data type flags v = [type, flags] @ le16 8 @ le32 v"

text \<open>The stored length is the length of the stored token.\<close>

definition token_stored :: "'w rdpNego \<Rightarrow> bool" where
  "token_stored nego \<longleftrightarrow> (\<forall>token. ng_RoutingToken nego = Some token \<longrightarrow> length token = unat (ng_RoutingTokenLength nego))"

lemma length_le_bytes [simp]: "length (le16 a) = 2" "length (le32 b) = 4"
  by (simp_all add: u16le.length_encode u32le.length_encode)

lemma length_ascii [simp]: "length (ascii xs) = length xs"
  by (simp add: ascii_def)

lemma writes_token:
  assumes "token_stored nego"
  shows "writes (nego_write_token nego) (length (token_bytes nego)) (token_bytes nego)"
proof (cases "ng_RoutingToken nego")
  case (Some token)
  have l: "length token = unat (ng_RoutingTokenLength nego)" using assms Some by (simp add: token_stored_def)
  show ?thesis
    unfolding nego_write_token_def token_bytes_def Some Let_def option.case
    by (rule writes_cong, (rule writes_steps | (simp add: l; fail))+)
next
  case None
  show ?thesis
  proof (cases "ng_cookie nego")
    case (Some cookie)
    show ?thesis unfolding nego_write_token_def token_bytes_def None Some Let_def option.case
      by (rule writes_cong, (rule writes_steps | (simp add: min_def; fail))+)
  qed (simp add: nego_write_token_def token_bytes_def None writes_return)
qed

lemma writes_neg_data: "writes (nego_write_neg_data type flags v) () (neg_data type flags v)"
  unfolding nego_write_neg_data_def neg_data_def
  by (rule writes_cong, (rule writes_steps | (simp; fail))+)

text \<open>
  The header is filled in last: the stream is set back to the start, the header is written over the
  bytes that were skipped, and the stream ends behind the body.
\<close>

lemma ignoring_SetPosition: "p \<le> s_capacity s \<Longrightarrow> ignoring (Stream_SetPosition p) s = Success () (s\<lparr>s_pointer := p\<rparr>)"
  by (simp add: ignoring_def Stream_SetPosition_def Stream_Capacity_def)

lemma fill_header:
  assumes wf: "wf_stream s" and p: "s_pointer s = 0" and cap: "k + length body \<le> s_capacity s"
    and h: "writes hdr () hb" "length hb = k"
  defines "t \<equiv> put body (advance k s)"
  shows "\<exists>u. bind_c (ignoring (Stream_SetPosition 0)) (\<lambda>_. bind_c hdr (\<lambda>_.
      bind_c (ignoring (Stream_SetPosition (s_pointer t))) (\<lambda>_. Stream_SealLength))) t = Success () u \<and>
    wf_stream u \<and> s_pointer u = k + length body \<and> s_length u = k + length body \<and> written u = hb @ body"
proof -
  let ?t0 = "t\<lparr>s_pointer := 0\<rparr>"
  have wk: "wf_stream (advance k s)" "length body \<le> room (advance k s)"
    using wf p cap by (auto simp: wf_stream_def advance_def room_def)
  then have wt: "wf_stream t" by (simp add: t_def)
  have pt: "s_pointer t = k + length body" "s_capacity t = s_capacity s" using p by (simp_all add: t_def advance_def)
  have w0: "wf_stream ?t0" "length hb \<le> room ?t0" using wt pt cap h(2) by (auto simp: wf_stream_def room_def)
  have b: "s_buffer (put hb ?t0) = overwrite (overwrite (s_buffer s) k body) 0 hb"
    using p by (simp add: t_def put_def advance_def)
  have l: "length (s_buffer s) = s_capacity s" using wf by (simp add: wf_stream_def)
  have "take (k + length body) (overwrite (overwrite (s_buffer s) k body) 0 hb) = hb @ body"
    using cap l h(2) by (simp add: overwrite_def)
  moreover have "bind_c (ignoring (Stream_SetPosition 0)) (\<lambda>_. bind_c hdr (\<lambda>_.
      bind_c (ignoring (Stream_SetPosition (s_pointer t))) (\<lambda>_. Stream_SealLength))) t =
    Success () ((put hb ?t0)\<lparr>s_pointer := k + length body, s_length := k + length body\<rparr>)"
    using writesD [OF h(1) w0] pt cap
    by (simp add: bind_c_def ignoring_SetPosition Stream_SealLength_def assert_c_def)
  moreover have "wf_stream ((put hb ?t0)\<lparr>s_pointer := k + length body, s_length := k + length body\<rparr>)"
    using wf_put [OF w0] pt cap by (simp add: wf_stream_def)
  ultimately show ?thesis using b by (simp add: written_def)
qed

definition request_body :: "'w rdpNego \<Rightarrow> byte list" where
  "request_body nego = token_bytes nego @
     (if ng_RequestedProtocols nego > PROTOCOL_RDP \<or> ng_sendNegoData nego
      then neg_data 1 (nego_request_flags nego) (ng_RequestedProtocols nego) else [])"

definition request_bytes :: "'w rdpNego \<Rightarrow> byte list" where
  "request_bytes nego = (let len = 11 + length (request_body nego) in
     enc_tpkt len @ enc_tpdu 0xE0 (word_of_nat (len - 5)) @ request_body nego)"

lemma length_neg_data [simp]: "length (neg_data type flags v) = 8"
  by (simp add: neg_data_def)

lemma writes_connection_header:
  assumes "len \<le> 260" "11 \<le> len"
  shows "writes (bind_c (tpkt_write_header len) (\<lambda>_. tpdu_write_connection_request (word_of_nat len - 5))) ()
    (enc_tpkt len @ enc_tpdu 0xE0 (word_of_nat (len - 5)))"
    and "writes (bind_c (tpkt_write_header len) (\<lambda>_. ignoring (tpdu_write_connection_confirm (word_of_nat len - 5)))) ()
    (enc_tpkt len @ enc_tpdu 0xD0 (word_of_nat (len - 5)))"
proof -
  have e: "(word_of_nat len - 5 :: 16 word) = word_of_nat (len - 5)" using assms by (simp add: of_nat_diff)
  have l: "(word_of_nat (len - 5) :: 16 word) \<le> 255"
    unfolding word_le_nat_alt unat_of_nat using assms by simp
  have u: "(ucast (word_of_nat (len - 5) :: 16 word) :: byte) = word_of_nat (len - 5)"
    using assms by (intro ucast_word_of_nat) simp
  have "writes (tpdu_write_connection_request (word_of_nat len - 5)) () (enc_tpdu 0xE0 (word_of_nat (len - 5)))"
    unfolding tpdu_write_connection_request_def tpdu_codes e using writes_tpdu [OF l] u by metis
  with assms show "writes (bind_c (tpkt_write_header len) (\<lambda>_. tpdu_write_connection_request (word_of_nat len - 5))) ()
    (enc_tpkt len @ enc_tpdu 0xE0 (word_of_nat (len - 5)))" by (intro writes_seq writes_tpkt) simp_all
  have "writes (tpdu_write_connection_confirm (word_of_nat len - 5)) () (enc_tpdu 0xD0 (word_of_nat (len - 5)))"
    unfolding tpdu_write_connection_confirm_def tpdu_codes e using writes_tpdu [OF l] u by metis
  then have "writes (ignoring (tpdu_write_connection_confirm (word_of_nat len - 5))) () (enc_tpdu 0xD0 (word_of_nat (len - 5)))"
    by (simp add: writes_def ignoring_def)
  with assms show "writes (bind_c (tpkt_write_header len) (\<lambda>_. ignoring (tpdu_write_connection_confirm (word_of_nat len - 5)))) ()
    (enc_tpkt len @ enc_tpdu 0xD0 (word_of_nat (len - 5)))" by (intro writes_seq writes_tpkt) simp_all
qed

lemma body_written:
  assumes wf: "wf_stream s" "s_pointer s = 0" "11 + length (request_body nego) \<le> s_capacity s" and tk: "token_stored nego"
  defines "t \<equiv> put (request_body nego) (advance 11 s)" and "len \<equiv> 11 + length (request_body nego)"
  shows "nego_write_request nego s = (if len > 0xFFFF then Failure t else
      bind_c (ignoring (Stream_SetPosition 0)) (\<lambda>_.
      bind_c (bind_c (tpkt_write_header len) (\<lambda>_. tpdu_write_connection_request (word_of_nat len - 5))) (\<lambda>_.
      bind_c (ignoring (Stream_SetPosition (s_pointer t))) (\<lambda>_. Stream_SealLength))) t)"
proof -
  define cond where "cond \<longleftrightarrow> ng_RequestedProtocols nego > PROTOCOL_RDP \<or> ng_sendNegoData nego"
  define nb where "nb = (if cond then neg_data 1 (nego_request_flags nego) (ng_RequestedProtocols nego) else [])"
  have body: "request_body nego = token_bytes nego @ nb" by (simp add: request_body_def nb_def cond_def)
  have w: "wf_stream (advance 11 s)" "length (request_body nego) \<le> room (advance 11 s)" "11 \<le> room s"
    using wf by (auto simp: wf_stream_def advance_def room_def)
  have "writes (if cond then bind_c (nego_write_neg_data TYPE_RDP_NEG_REQ (nego_request_flags nego) (ng_RequestedProtocols nego))
      (\<lambda>_. return_c 8) else return_c 0) (length nb) nb"
    using writes_seq [OF writes_neg_data writes_return, of 1 "nego_request_flags nego" "ng_RequestedProtocols nego" "8 :: nat"]
    by (simp add: nb_def neg_types writes_return)
  from writesD [OF this] have n: "(if cond then bind_c (nego_write_neg_data TYPE_RDP_NEG_REQ (nego_request_flags nego)
      (ng_RequestedProtocols nego)) (\<lambda>_. return_c 8) else return_c 0) (put (token_bytes nego) (advance 11 s)) =
      Success (length nb) t"
    using w body by (simp add: t_def)
  have "nego_write_token nego (advance 11 s) = Success (length (token_bytes nego)) (put (token_bytes nego) (advance 11 s))"
    by (rule writesD [OF writes_token [OF tk]]) (use w body in simp_all)
  moreover have "Stream_Seek 11 s = Success () (advance 11 s)" using wf(1) w(3) by (simp add: stream_exec)
  ultimately show ?thesis
    unfolding nego_write_request_def Let_def bind_c_assoc
    using n wf(2) by (simp add: bind_c_def [of "Stream_Seek _"] bind_c_def [of "nego_write_token _"]
        bind_c_def [of "if _ then _ else _"] cond_def [symmetric] TPDU_CONNECTION_REQUEST_LENGTH_def
        Stream_GetPosition_def len_def body add.assoc)
qed

lemma nego_write_request_ok:
  assumes "wf_stream s" "s_pointer s = 0" "260 \<le> s_capacity s" "token_stored nego" "length (request_body nego) \<le> 249"
  shows "\<exists>u. nego_write_request nego s = Success () u \<and> wf_stream u \<and> s_pointer u = s_length u \<and>
    written u = request_bytes nego"
proof -
  let ?len = "11 + length (request_body nego)"
  have c: "?len \<le> s_capacity s" "?len \<le> 260" "11 \<le> ?len" using assms by simp_all
  have "length (enc_tpkt ?len @ enc_tpdu 0xE0 (word_of_nat (?len - 5))) = 11" by (simp add: enc_tpdu_def)
  note f = fill_header [OF assms(1,2) c(1) writes_connection_header(1) [OF c(2,3)] this]
  then show ?thesis using body_written [OF assms(1,2) c(1) assms(4)] c(2)
    by (simp add: request_bytes_def Let_def) fastforce
qed

text \<open>A request of more than 260 bytes runs into the assertion on the length indicator.\<close>

lemma nego_write_request_aborts:
  assumes "wf_stream s" "s_pointer s = 0" "11 + length (request_body nego) \<le> s_capacity s" "s_capacity s \<le> 0xFFFF"
    "token_stored nego" "249 < length (request_body nego)"
  shows "nego_write_request nego s = Fault AssertionFailure"
proof -
  define t where "t = (put (request_body nego) (advance 11 s))\<lparr>s_pointer := 0\<rparr>"
  define len where "len = 11 + length (request_body nego)"
  have l: "len \<le> s_capacity s" "260 < len" "len \<le> 65535" using assms by (simp_all add: len_def)
  have w: "wf_stream t" "260 < room t" using assms l
    by (auto simp: t_def wf_stream_def put_def advance_def room_def len_def)
  have "tpkt_write_header len t = Success () (put (enc_tpkt len) t)"
    by (rule writesD [OF writes_tpkt]) (use w l in simp_all)
  moreover have "tpdu_write_connection_request (word_of_nat len - 5) (put (enc_tpkt len) t) = Fault AssertionFailure"
  proof -
    have "(word_of_nat len - 5 :: 16 word) = word_of_nat (len - 5)" using l by (simp add: of_nat_diff)
    moreover have "\<not> (word_of_nat (len - 5) :: 16 word) \<le> 255"
      unfolding word_le_nat_alt unat_of_nat using l by simp
    ultimately show ?thesis using w
      by (simp add: tpdu_write_connection_request_def tpdu_write_header_def c_simps stream_exec)
  qed
  ultimately show ?thesis using body_written [OF assms(1,2,3,5)] l
    by (simp add: bind_c_def ignoring_SetPosition len_def [symmetric] t_def)
qed

definition response_body :: "nego_settings \<Rightarrow> 'w rdpNego \<Rightarrow> byte list" where
  "response_body settings nego =
     (if ng_SelectedProtocol nego AND PROTOCOL_FAILED_NEGO \<noteq> 0
      then neg_data 3 0 (ng_SelectedProtocol nego AND NOT PROTOCOL_FAILED_NEGO)
      else neg_data 2 (nego_response_flags settings nego) (ng_SelectedProtocol nego))"

definition response_bytes :: "nego_settings \<Rightarrow> 'w rdpNego \<Rightarrow> byte list" where
  "response_bytes settings nego = enc_tpkt 19 @ enc_tpdu 0xD0 14 @ response_body settings nego"

lemma nego_write_response_ok:
  assumes "wf_stream s" "s_pointer s = 0" "260 \<le> s_capacity s"
  shows "\<exists>u. nego_write_response settings nego s = Success () u \<and> wf_stream u \<and> s_pointer u = s_length u \<and>
    written u = response_bytes settings nego"
proof -
  let ?b = "response_body settings nego"
  let ?t = "put ?b (advance 11 s)"
  let ?w = "if ng_SelectedProtocol nego AND PROTOCOL_FAILED_NEGO \<noteq> 0 then
      nego_write_neg_data TYPE_RDP_NEG_FAILURE 0 (ng_SelectedProtocol nego AND NOT PROTOCOL_FAILED_NEGO)
    else nego_write_neg_data TYPE_RDP_NEG_RSP (nego_response_flags settings nego) (ng_SelectedProtocol nego)"
  have l: "length ?b = 8" by (simp add: response_body_def)
  have w: "wf_stream (advance 11 s)" "8 \<le> room (advance 11 s)" "11 \<le> room s"
    using assms by (auto simp: wf_stream_def advance_def room_def)
  have "writes ?w () ?b" by (simp add: response_body_def neg_types writes_neg_data)
  then have b: "?w (advance 11 s) = Success () ?t" by (rule writesD) (use w l in simp_all)
  have h: "writes (bind_c (tpkt_write_header 19) (\<lambda>_. ignoring (tpdu_write_connection_confirm (word_of_nat 19 - 5)))) ()
      (enc_tpkt 19 @ enc_tpdu 0xD0 (word_of_nat (19 - 5)))" by (rule writes_connection_header) simp_all
  have h': "length (enc_tpkt 19 @ enc_tpdu 0xD0 (word_of_nat (19 - 5))) = 11" by (simp add: enc_tpdu_def)
  have c: "11 + length ?b \<le> s_capacity s" using assms(3) l by simp
  obtain u where u: "bind_c (ignoring (Stream_SetPosition 0)) (\<lambda>_. bind_c (bind_c (tpkt_write_header 19)
      (\<lambda>_. ignoring (tpdu_write_connection_confirm (word_of_nat 19 - 5)))) (\<lambda>_.
      bind_c (ignoring (Stream_SetPosition (s_pointer ?t))) (\<lambda>_. Stream_SealLength))) ?t = Success () u"
    "wf_stream u" "s_pointer u = 11 + length ?b" "s_length u = 11 + length ?b"
    "written u = (enc_tpkt 19 @ enc_tpdu 0xD0 (word_of_nat (19 - 5))) @ ?b"
    using fill_header [OF assms(1,2) c h h'] by blast
  have "Stream_Seek 11 s = Success () (advance 11 s)" using assms(1) w(3) by (simp add: stream_exec)
  with b u(1) assms(2) have "nego_write_response settings nego s = Success () u"
    unfolding nego_write_response_def Let_def bind_c_assoc
    by (simp add: bind_c_def [of "Stream_Seek _"] bind_c_def [of ?w] TPDU_CONNECTION_CONFIRM_LENGTH_def Stream_GetPosition_def l)
  with u show ?thesis by (auto simp: response_bytes_def)
qed

end
