(* ===== verification/NegoClient.thy ===== *)
theory NegoClient
  imports Nego
begin

text \<open>
  The client of the negotiation: every attempt moves the state machine on, so that the loop of
  \<open>nego_connect\<close> ends; and a connection with standard RDP security is only made where it is enabled.
\<close>

section \<open>Progress of the client\<close>

text \<open>
  What is assumed of the transport: memory blocks have the requested size, and a PDU is delivered in
  a stream whose cursor is within its data.
\<close>

definition transport_ok :: "'w transport_ops \<Rightarrow> bool" where
  "transport_ok ops \<longleftrightarrow> (\<forall>w. malloc_spec (memory ops w)) \<and>
     (\<forall>s w s' w'. transport_read_pdu ops s w = (Some s', w') \<longrightarrow> readable s')"

text \<open>The request fits the length indicator, whichever protocols it asks for.\<close>

definition request_fits :: "'w rdpNego \<Rightarrow> bool" where
  "request_fits nego \<longleftrightarrow> token_stored nego \<and> length (token_bytes nego) \<le> 241"

definition quiet :: "'w rdpNego \<Rightarrow> 'w rdpNego \<Rightarrow> bool" where
  "quiet n n' \<longleftrightarrow> nego_keeps n n' \<and> ng_state n' = ng_state n \<and> ng_SelectedProtocol n' = ng_SelectedProtocol n"

text \<open>A call that comes back, and leaves state and selection as they are.\<close>

definition calm :: "('w rdpNego, 'a) cfun \<Rightarrow> 'w rdpNego \<Rightarrow> bool" where
  "calm f n \<longleftrightarrow> (\<forall>e. f n \<noteq> Fault e) \<and> (\<forall>n' \<in> left_in (f n). quiet n n')"

lemma quiet_refl [simp]: "quiet n n"
  by (simp add: quiet_def)

lemma quiet_trans: "quiet a b \<Longrightarrow> quiet b c \<Longrightarrow> quiet a c"
  by (auto simp: quiet_def intro: nego_keeps_trans)

lemma quiet_simps [simp]:
  "quiet n (m\<lparr>ng_transport := w\<rparr>) = quiet n m" "quiet n (m\<lparr>ng_RequestedProtocols := q\<rparr>) = quiet n m"
  "quiet n (m\<lparr>ng_TcpConnected := b\<rparr>) = quiet n m" "quiet n (m\<lparr>ng_SecurityConnected := b\<rparr>) = quiet n m"
  by (simp_all add: quiet_def)

lemma quiet_call [simp]:
  "quiet n (ng_call f set_TcpConnected m) = quiet n m" "quiet n (ng_call f set_SecurityConnected m) = quiet n m"
  by (simp_all add: ng_call_def set_TcpConnected_def set_SecurityConnected_def split: prod.split)

lemma keeps_fits:
  assumes "nego_keeps n n'" "request_fits n"
  shows "request_fits n'"
proof -
  have e: "ng_cookie n' = ng_cookie n" "ng_RoutingToken n' = ng_RoutingToken n"
    "ng_RoutingTokenLength n' = ng_RoutingTokenLength n" "ng_CookieMaxLength n' = ng_CookieMaxLength n"
    using assms(1) by (simp_all add: nego_keeps_def)
  show ?thesis using assms(2) unfolding request_fits_def token_stored_def token_bytes_def e .
qed

lemma quiet_fits: "quiet n n' \<Longrightarrow> request_fits n \<Longrightarrow> request_fits n'"
  using keeps_fits by (auto simp: quiet_def)

lemma calm_bind:
  assumes "calm f n" "\<And>v n'. quiet n n' \<Longrightarrow> calm (k v) n'"
  shows "calm (bind_c f k) n"
proof (cases "f n")
  case (Success v n')
  then have "quiet n n'" using assms(1) by (simp add: calm_def)
  moreover from assms(2) [OF this] have "calm (k v) n'" .
  ultimately show ?thesis using Success by (auto simp: calm_def bind_c_def intro: quiet_trans)
qed (use assms in \<open>auto simp: calm_def bind_c_def\<close>)

lemma calm_tcp_connect: "calm (nego_tcp_connect ops) n"
  by (simp add: calm_def nego_tcp_connect_def Let_def)

lemma calm_try_connect: "calm (nego_try_connect ops) n"
  by (simp add: calm_def nego_try_connect_def Let_def)

lemma calm_security_connect: "calm (nego_security_connect ops) n"
  using calm_try_connect [of ops n] by (auto simp: calm_def nego_security_connect_def set_SecurityConnected_def)

lemma calm_transport_connect: "calm (nego_transport_connect ops) n"
  unfolding nego_transport_connect_def
proof (rule calm_bind [OF calm_tcp_connect])
  fix v n' assume "quiet n n'"
  show "calm (\<lambda>nego. if ng_TcpConnected nego \<and> \<not> ng_NegotiateSecurityLayer nego then nego_security_connect ops nego
       else if ng_TcpConnected nego then Success () nego else Failure nego) n'"
    using calm_security_connect [of ops n'] by (simp add: calm_def)
qed

lemma calm_transport_write: "calm (nego_transport_write ops s) n"
  by (auto simp: calm_def nego_transport_write_def split: prod.split)

lemma calm_send_request:
  assumes "transport_ok ops" "request_fits n"
  shows "calm (nego_send_negotiation_request ops) n"
proof (cases "Stream_New (memory ops (ng_transport n)) None 512")
  case None
  then show ?thesis by (simp add: calm_def nego_send_negotiation_request_def)
next
  case (Some s)
  have m: "malloc_spec (memory ops (ng_transport n))" using assms(1) by (simp add: transport_ok_def)
  have s: "wf_stream s" "s_pointer s = 0" "260 \<le> s_capacity s" using new_stream [OF m Some] by simp_all
  have "length (request_body n) \<le> 249" using assms(2) by (simp add: request_body_def request_fits_def)
  with nego_write_request_ok [OF s, of n] assms(2) obtain u where "nego_write_request n s = Success () u"
    by (auto simp: request_fits_def)
  then show ?thesis using calm_transport_write [of ops u n] Some
    by (simp add: calm_def nego_send_negotiation_request_def)
qed

text \<open>
  After an exchange that did not fail, the negotiation is decided: the state is final or failed, and
  standard security is final only if it is enabled.
\<close>

definition decided :: "'w rdpNego \<Rightarrow> bool" where
  "decided n \<longleftrightarrow> (ng_state n = NEGO_STATE_FINAL \<or> ng_state n = NEGO_STATE_FAIL) \<and>
     (ng_state n = NEGO_STATE_FINAL \<and> ng_SelectedProtocol n = PROTOCOL_RDP \<longrightarrow> ng_EnabledProtocols n PROTOCOL_RDP)"

lemma decided_apply: "decided (apply_confirm m n)"
  by (cases m) (auto simp: decided_def acceptable_def)

lemma recv_response_decides:
  assumes "transport_ok ops"
  shows "(\<exists>n'. nego_recv_response ops n = Failure n' \<and> nego_keeps n n') \<or>
    (\<exists>n'. nego_recv_response ops n = Success () n' \<and> nego_keeps n n' \<and> decided n')"
proof (cases "Stream_New (memory ops (ng_transport n)) None 1024")
  case None
  then show ?thesis by (simp add: nego_recv_response_def)
next
  case (Some s)
  obtain r w where r: "transport_read_pdu ops s (ng_transport n) = (r, w)" by (cases "transport_read_pdu ops s (ng_transport n)")
  show ?thesis
  proof (cases r)
    case None
    with Some r show ?thesis by (simp add: nego_recv_response_def)
  next
    case (Some s')
    let ?n = "n\<lparr>ng_transport := w\<rparr>"
    have "readable s'" using assms r Some unfolding transport_ok_def by blast
    from nego_recv_exact [OF this, of ?n] \<open>Stream_New _ _ _ = Some s\<close> r Some show ?thesis
      using decided_apply [of _ ?n] nego_keeps_apply_confirm [of ?n]
      by (auto simp: nego_recv_response_def nego_returns_def nego_keeps_def split: option.splits)
  qed
qed

lemma exchange_decides:
  assumes "transport_ok ops" "request_fits n"
  shows "(\<exists>n'. nego_exchange ops q n = Failure n' \<and> nego_keeps n n') \<or>
    (\<exists>n'. nego_exchange ops q n = Success () n' \<and> nego_keeps n n' \<and> decided n')"
proof -
  let ?n = "n\<lparr>ng_RequestedProtocols := q\<rparr>"
  let ?f = "bind_c (nego_transport_connect ops) (\<lambda>_. nego_send_negotiation_request ops)"
  have fits: "request_fits ?n" using assms(2) keeps_fits [of n ?n] by simp
  have c1: "calm ?f ?n"
    by (rule calm_bind [OF calm_transport_connect]) (use quiet_fits [OF _ fits] calm_send_request [OF assms(1)] in blast)
  have c2: "nego_exchange ops q n = bind_c ?f (\<lambda>_. nego_recv_response ops) ?n"
    unfolding nego_exchange_def bind_c_assoc ..
  have q: "nego_keeps n m" if "quiet ?n m" for m
    using that nego_keeps_trans [of n ?n m] by (simp add: quiet_def)
  show ?thesis
  proof (cases "?f ?n")
    case (Fault e)
    with c1 show ?thesis by (simp add: calm_def)
  next
    case (Failure m)
    with c1 have "nego_keeps n m" by (intro q) (simp add: calm_def)
    with Failure c2 show ?thesis by (simp add: bind_c_def)
  next
    case (Success v m)
    with c1 have k: "nego_keeps n m" by (intro q) (simp add: calm_def)
    have "nego_exchange ops q n = nego_recv_response ops m" using Success c2 by (simp add: bind_c_def)
    with recv_response_decides [OF assms(1), of m] nego_keeps_trans [OF k] show ?thesis by metis
  qed
qed

fun rank :: "NEGO_STATE \<Rightarrow> nat" where
  "rank NEGO_STATE_AAD = 5"
| "rank NEGO_STATE_RDSTLS = 5"
| "rank NEGO_STATE_EXT = 4"
| "rank NEGO_STATE_NLA = 3"
| "rank NEGO_STATE_TLS = 2"
| "rank NEGO_STATE_RDP = 1"
| "rank _ = 0"

lemma first_enabled_cases: "first_enabled ps en \<in> insert NEGO_STATE_FAIL (snd ` set ps)"
  by (induction ps) force+

text \<open>An attempt of rank \<open>k\<close> decides the negotiation or goes on to one of lower rank.\<close>

definition moves_on :: "nat \<Rightarrow> 'w rdpNego \<Rightarrow> 'w rdpNego \<Rightarrow> bool" where
  "moves_on k n n' \<longleftrightarrow> nego_keeps n n' \<and> ng_state n' \<noteq> NEGO_STATE_INITIAL \<and> rank (ng_state n') < k \<and>
     (ng_state n' = NEGO_STATE_FINAL \<longrightarrow> decided n')"

lemma attempt_moves_on:
  assumes "transport_ok ops" "request_fits n" "\<forall>s \<in> snd ` set next. s \<noteq> NEGO_STATE_INITIAL \<and> s \<noteq> NEGO_STATE_FINAL \<and> rank s < k" "0 < k"
  shows "\<exists>n'. nego_attempt ops q next n = Success () n' \<and> moves_on k n n'"
proof -
  consider (fail) n' where "nego_exchange ops q n = Failure n'" "nego_keeps n n'"
    | (ok) n' where "nego_exchange ops q n = Success () n'" "nego_keeps n n'" "decided n'"
    using exchange_decides [OF assms(1,2)] by blast
  then show ?thesis
  proof cases
    case fail
    then show ?thesis using assms(4) by (simp add: nego_attempt_def moves_on_def) (simp add: nego_set_state_def)
  next
    case ok
    show ?thesis
    proof (cases "ng_state n' = NEGO_STATE_FINAL")
      case True
      with ok assms(4) show ?thesis by (simp add: nego_attempt_def moves_on_def nego_get_state_def)
    next
      case False
      let ?n = "nego_transport_disconnect ops n'"
      have k: "nego_keeps n ?n" using ok(2) by (simp add: nego_transport_disconnect_def Let_def)
      have "first_enabled next (ng_EnabledProtocols ?n) \<in> insert NEGO_STATE_FAIL (snd ` set next)"
        by (rule first_enabled_cases)
      with assms(3,4) have "rank (first_enabled next (ng_EnabledProtocols ?n)) < k"
        "first_enabled next (ng_EnabledProtocols ?n) \<noteq> NEGO_STATE_INITIAL"
        "first_enabled next (ng_EnabledProtocols ?n) \<noteq> NEGO_STATE_FINAL" by auto
      then show ?thesis using False ok(1) k
        by (simp add: nego_attempt_def moves_on_def nego_get_state_def Let_def) (simp add: nego_set_state_def)
    qed
  qed
qed

lemma attempt_rdp_moves_on:
  assumes "transport_ok ops" "request_fits n"
  shows "\<exists>n'. nego_attempt_rdp ops n = Success () n' \<and> moves_on 1 n n'"
  using exchange_decides [OF assms, of PROTOCOL_RDP]
  by (auto simp: nego_attempt_rdp_def moves_on_def decided_def) (auto simp: nego_set_state_def)

lemma send_moves_on:
  assumes "transport_ok ops" "request_fits n" "0 < rank (ng_state n)"
  shows "\<exists>n'. nego_send ops n = Success () n' \<and> moves_on (rank (ng_state n)) n n'"
  using assms(3) attempt_rdp_moves_on [OF assms(1,2)]
  by (cases "ng_state n")
    (auto simp: nego_send_def nego_get_state_def nego_attempt_rdsaad_def nego_attempt_rdstls_def nego_attempt_ext_def
      nego_attempt_nla_def nego_attempt_tls_def intro!: attempt_moves_on [OF assms(1,2)])

lemma nego_loop_step:
  "nego_send ops n = Success () m \<Longrightarrow> nego_loop ops n =
     (if ng_state m = NEGO_STATE_FAIL then Some (Failure (nego_set_state NEGO_STATE_FINAL m))
      else if ng_state m \<noteq> NEGO_STATE_FINAL then nego_loop ops m else Some (Success () m))"
  by (subst nego_loop.simps) (simp add: nego_get_state_def)

lemma loop_ends:
  assumes ops: "transport_ok ops"
  shows "request_fits n \<Longrightarrow> ng_state n \<noteq> NEGO_STATE_INITIAL \<Longrightarrow>
    \<exists>n'. nego_keeps n n' \<and> (nego_loop ops n = Some (Failure n') \<or>
      nego_loop ops n = Some (Success () n') \<and> ng_state n' = NEGO_STATE_FINAL \<and> (0 < rank (ng_state n) \<longrightarrow> decided n'))"
proof (induction "rank (ng_state n)" arbitrary: n rule: less_induct)
  case less
  show ?case
  proof (cases "rank (ng_state n) = 0")
    case True
    then have "nego_send ops n = Success () n" by (cases "ng_state n") (simp_all add: nego_send_def nego_get_state_def)
    moreover have "ng_state n = NEGO_STATE_FAIL \<or> ng_state n = NEGO_STATE_FINAL"
      using True less.prems(2) by (cases "ng_state n") simp_all
    ultimately show ?thesis using True nego_loop_step [of ops n n]
      by (auto intro: exI [of _ "nego_set_state NEGO_STATE_FINAL n"] exI [of _ n])
  next
    case False
    then obtain m where m: "nego_send ops n = Success () m" "moves_on (rank (ng_state n)) n m"
      using send_moves_on [OF ops less.prems(1)] by auto
    then have k: "nego_keeps n m" by (simp add: moves_on_def)
    note step = nego_loop_step [OF m(1)]
    consider "ng_state m = NEGO_STATE_FAIL" | "ng_state m = NEGO_STATE_FINAL"
      | "ng_state m \<noteq> NEGO_STATE_FAIL" "ng_state m \<noteq> NEGO_STATE_FINAL" by blast
    then show ?thesis
    proof cases
      case 1
      then show ?thesis using step k by (intro exI [of _ "nego_set_state NEGO_STATE_FINAL m"]) simp
    next
      case 2
      then show ?thesis using step m(2) by (intro exI [of _ m]) (simp add: moves_on_def)
    next
      case 3
      then have "0 < rank (ng_state m)" using m(2) by (cases "ng_state m") (simp_all add: moves_on_def)
      with less.hyps [of m] m(2) keeps_fits [OF k less.prems(1)] obtain n' where
        "nego_keeps m n'" "nego_loop ops m = Some (Failure n') \<or>
          nego_loop ops m = Some (Success () n') \<and> ng_state n' = NEGO_STATE_FINAL \<and> decided n'"
        by (auto simp: moves_on_def)
      moreover have "nego_loop ops n = nego_loop ops m" using step 3 by simp
      ultimately show ?thesis using nego_keeps_trans [OF k] by auto
    qed
  qed
qed

lemma preconnection_writes:
  assumes "nego_preconnection_blob to_wchar n = Some (cch, cb, ws)" "wf_stream s" "s_pointer s = 0" "s_capacity s = cb"
  shows "\<exists>u. nego_write_preconnection ident cch cb ws s = Success () u"
proof -
  let ?b = "le32 (word_of_nat cb) @ le32 0 @ le32 2 @ le32 ident @ le16 cch @
    (case ws of None \<Rightarrow> [] | Some w \<Rightarrow> concat (map le16 (w @ [0])))"
  let ?f = "bind_c (Stream_Write_UINT32 (word_of_nat cb)) (\<lambda>_. bind_c (Stream_Write_UINT32 0) (\<lambda>_.
     bind_c (Stream_Write_UINT32 2) (\<lambda>_. bind_c (Stream_Write_UINT32 ident) (\<lambda>_. bind_c (Stream_Write_UINT16 cch) (\<lambda>_.
     case ws of None \<Rightarrow> return_c () | Some w \<Rightarrow> Stream_Write (concat (map le16 (w @ [0]))))))))"
  have "writes (case ws of None \<Rightarrow> return_c () | Some w \<Rightarrow> Stream_Write (concat (map le16 (w @ [0])))) ()
      (case ws of None \<Rightarrow> [] | Some w \<Rightarrow> concat (map le16 (w @ [0])))"
    by (cases ws) (simp_all add: writes_return writes_scalars(6))
  then have w: "writes ?f () ?b" by (intro writes_u32_then writes_u16_then)
  have "length (concat (map le16 ws)) = 2 * length ws" for ws :: "16 word list"
    by (induction ws) simp_all
  then have "length ?b \<le> cb"
    using assms(1) by (auto simp: nego_preconnection_blob_def Let_def split: option.splits if_splits)
  then have r: "length ?b \<le> room s" using assms by (simp add: room_def)
  have "nego_write_preconnection ident cch cb ws = bind_c ?f (\<lambda>_. Stream_SealLength)"
    unfolding nego_write_preconnection_def bind_c_assoc ..
  then have "nego_write_preconnection ident cch cb ws s = Stream_SealLength (put ?b s)"
    using bind_c_Success [where f = ?f, OF writesD [OF w assms(2) r]] by (simp only:)
  moreover have "wf_stream (put ?b s)" using assms(2) r by (rule wf_put)
  ultimately show ?thesis by (simp add: Stream_SealLength_def c_simps wf_stream_def)
qed

lemma calm_preconnection:
  assumes "transport_ok ops"
  shows "calm (nego_send_preconnection_pdu ops to_wchar) n"
  unfolding nego_send_preconnection_pdu_def
proof (rule calm_bind [OF calm_tcp_connect])
  fix v m assume "quiet n m"
  show "calm (\<lambda>nego. case nego_preconnection_blob to_wchar nego of None \<Rightarrow> Failure nego
     | Some (cchPCB, cbSize, wszPCB) \<Rightarrow> (case Stream_New (memory ops (ng_transport nego)) None cbSize of
         None \<Rightarrow> Failure nego
       | Some s \<Rightarrow> (case nego_write_preconnection (ng_PreconnectionId nego) cchPCB cbSize wszPCB s of
           Fault e \<Rightarrow> Fault e | Failure _ \<Rightarrow> Failure nego
         | Success _ s \<Rightarrow> nego_transport_write ops s nego))) m"
  proof (cases "nego_preconnection_blob to_wchar m")
    case None
    then show ?thesis by (simp add: calm_def)
  next
    case (Some a)
    obtain cch cb ws where a: "a = (cch, cb, ws)" by (cases a)
    have cb: "cb < SIZE_MOD"
      using Some a by (auto simp: nego_preconnection_blob_def Let_def split: option.splits if_splits)
    show ?thesis
    proof (cases "Stream_New (memory ops (ng_transport m)) None cb")
      case None
      with Some a show ?thesis by (simp add: calm_def)
    next
      case (Some s)
      have "malloc_spec (memory ops (ng_transport m))" using assms by (simp add: transport_ok_def)
      note s = new_stream [OF this Some cb]
      with preconnection_writes [of to_wchar m cch cb ws s] \<open>nego_preconnection_blob to_wchar m = Some a\<close> a obtain u
        where "nego_write_preconnection (ng_PreconnectionId m) cch cb ws s = Success () u" by blast
      then show ?thesis using calm_transport_write [of ops u m] Some a \<open>nego_preconnection_blob to_wchar m = Some a\<close>
        by (simp add: calm_def)
    qed
  qed
qed

lemma only_highest_fields:
  "ng_state (nego_only_highest n) = ng_state n" "ng_cookie (nego_only_highest n) = ng_cookie n"
  "ng_RoutingToken (nego_only_highest n) = ng_RoutingToken n"
  "ng_RoutingTokenLength (nego_only_highest n) = ng_RoutingTokenLength n"
  "ng_CookieMaxLength (nego_only_highest n) = ng_CookieMaxLength n"
  "ng_NegotiateSecurityLayer (nego_only_highest n) = ng_NegotiateSecurityLayer n"
  by (simp_all add: nego_only_highest_def Let_def split: NEGO_STATE.split)

lemma only_highest_fits: "request_fits (nego_only_highest n) = request_fits n"
  unfolding request_fits_def token_stored_def token_bytes_def only_highest_fields ..

lemma only_highest_selects:
  "0 < rank (ng_state n) \<Longrightarrow> ng_SelectedProtocol (nego_only_highest n) = PROTOCOL_RDP \<longleftrightarrow> ng_state n = NEGO_STATE_RDP"
  by (cases "ng_state n") (simp_all add: nego_only_highest_def nego_get_state_def Let_def, simp_all add: protocols)

lemma first_enabled_rdp:
  "first_enabled [(PROTOCOL_RDSAAD, NEGO_STATE_AAD), (PROTOCOL_RDSTLS, NEGO_STATE_RDSTLS),
     (PROTOCOL_HYBRID_EX, NEGO_STATE_EXT), (PROTOCOL_HYBRID, NEGO_STATE_NLA),
     (PROTOCOL_SSL, NEGO_STATE_TLS), (PROTOCOL_RDP, NEGO_STATE_RDP)] en = NEGO_STATE_RDP \<Longrightarrow> en PROTOCOL_RDP"
  by (simp split: if_splits)

definition ready_to_send :: "'w rdpNego \<Rightarrow> 'w rdpNego \<Rightarrow> bool" where
  "ready_to_send n m \<longleftrightarrow> request_fits m \<and> 0 < rank (ng_state m) \<and>
     ng_NegotiateSecurityLayer m = ng_NegotiateSecurityLayer n \<and> (ng_NegotiateSecurityLayer n \<longrightarrow> nego_keeps n m) \<and>
     (\<not> ng_NegotiateSecurityLayer n \<longrightarrow> ng_SelectedProtocol m = PROTOCOL_RDP \<longrightarrow> ng_EnabledProtocols n PROTOCOL_RDP)"

lemma ready_quiet: "ready_to_send n m \<Longrightarrow> quiet m m' \<Longrightarrow> ready_to_send n m'"
  using quiet_fits [of m m'] nego_keeps_trans [of n m m'] by (auto simp: ready_to_send_def quiet_def nego_keeps_def)

lemma initial_ready:
  assumes "transport_ok ops" "request_fits n"
  shows "(\<exists>m. nego_connect_initial ops to_wchar n = Failure m) \<or>
    (\<exists>m. nego_connect_initial ops to_wchar n = Success () m \<and> ready_to_send n m)"
proof -
  define st where "st = first_enabled [(PROTOCOL_RDSAAD, NEGO_STATE_AAD), (PROTOCOL_RDSTLS, NEGO_STATE_RDSTLS),
     (PROTOCOL_HYBRID_EX, NEGO_STATE_EXT), (PROTOCOL_HYBRID, NEGO_STATE_NLA),
     (PROTOCOL_SSL, NEGO_STATE_TLS), (PROTOCOL_RDP, NEGO_STATE_RDP)] (ng_EnabledProtocols n)"
  let ?n1 = "nego_set_state st n"
  let ?n2 = "if \<not> ng_NegotiateSecurityLayer n then nego_only_highest ?n1 else ?n1"
  show ?thesis
  proof (cases "st = NEGO_STATE_FAIL")
    case True
    then show ?thesis
      unfolding nego_connect_initial_def st_def [symmetric] by (simp add: nego_get_state_def nego_set_state_def)
  next
    case False
    then have "0 < rank st" using first_enabled_cases by (fastforce simp: st_def simp del: first_enabled.simps)
    then have n1: "0 < rank (ng_state ?n1)" by (simp add: nego_set_state_def)
    have "request_fits ?n1" using keeps_fits [of n ?n1] assms(2) by simp
    then have ready: "ready_to_send n ?n2"
      using only_highest_selects [OF n1] n1 first_enabled_rdp [of "ng_EnabledProtocols n", folded st_def]
      by (cases "ng_NegotiateSecurityLayer n")
        (simp_all add: ready_to_send_def only_highest_fits only_highest_fields, simp_all add: nego_set_state_def)
    let ?k = "\<lambda>nego. if ng_SendPreconnectionPdu nego then
            (case nego_send_preconnection_pdu ops to_wchar nego of
               Failure nego \<Rightarrow> Failure (nego_set_state NEGO_STATE_FINAL nego) | r \<Rightarrow> r)
          else Success () nego"
    have e: "nego_connect_initial ops to_wchar n = bind_c (nego_tcp_connect ops) (\<lambda>_. ?k) ?n2"
      using False unfolding nego_connect_initial_def st_def [symmetric] Let_def
      by (simp add: nego_get_state_def) (simp add: nego_set_state_def)
    have k: "(\<exists>m'. ?k m = Failure m') \<or> (\<exists>m'. ?k m = Success () m' \<and> quiet m m')" for m
      using calm_preconnection [OF assms(1), of to_wchar m]
      by (cases "nego_send_preconnection_pdu ops to_wchar m") (auto simp: calm_def)
    show ?thesis
    proof (cases "nego_tcp_connect ops ?n2")
      case (Fault e)
      then show ?thesis using calm_tcp_connect [of ops ?n2] by (simp add: calm_def)
    next
      case (Failure m)
      then show ?thesis using e by (simp add: bind_c_def)
    next
      case (Success v m)
      then have "ready_to_send n m" using calm_tcp_connect [of ops ?n2] ready_quiet [OF ready] by (simp add: calm_def)
      moreover have "nego_connect_initial ops to_wchar n = ?k m" using Success e by (simp add: bind_c_def)
      ultimately show ?thesis using k [of m] ready_quiet [of n m] by metis
    qed
  qed
qed

lemma connect_finish:
  "(\<forall>e. nego_connect_finish ops (n, st) \<noteq> Fault e) \<and>
   (\<forall>n' st'. nego_connect_finish ops (n, st) = Success () (n', st') \<longrightarrow> ng_SelectedProtocol n' = ng_SelectedProtocol n)"
  using calm_security_connect [of ops n]
  by (cases "nego_security_connect ops n") (auto simp: nego_connect_finish_def calm_def quiet_def Let_def)

text \<open>Where \<open>nego_connect\<close> ends up, with or without negotiation.\<close>

lemma connect_cases:
  assumes ops: "transport_ok ops" and fits: "request_fits n"
  shows "(\<exists>x. nego_connect ops to_wchar (n, st) = Failure x) \<or>
    (\<exists>m. nego_connect ops to_wchar (n, st) = nego_connect_finish ops (m, st) \<and>
       (ng_state n = NEGO_STATE_INITIAL \<longrightarrow> ng_SelectedProtocol m = PROTOCOL_RDP \<longrightarrow> ng_EnabledProtocols n PROTOCOL_RDP))"
proof -
  define init where "init = (if nego_get_state n = NEGO_STATE_INITIAL then nego_connect_initial ops to_wchar n else Success () n)"
  have "(\<exists>m. init = Failure m) \<or> (\<exists>m. init = Success () m \<and> ready_to_send n m) \<and> ng_state n = NEGO_STATE_INITIAL \<or>
      init = Success () n \<and> ng_state n \<noteq> NEGO_STATE_INITIAL"
    using initial_ready [OF ops fits, of to_wchar] by (auto simp: init_def nego_get_state_def)
  then consider m where "init = Failure m" | m where "init = Success () m" "ng_state n = NEGO_STATE_INITIAL" "ready_to_send n m"
    | "init = Success () n" "ng_state n \<noteq> NEGO_STATE_INITIAL" by blast
  then show ?thesis
  proof cases
    case 1
    then show ?thesis by (simp add: nego_connect_def init_def [symmetric])
  next
    case (2 m)
    then have m: "request_fits m" "ng_state m \<noteq> NEGO_STATE_INITIAL" "0 < rank (ng_state m)"
      by (auto simp: ready_to_send_def)
    show ?thesis
    proof (cases "ng_NegotiateSecurityLayer m")
      case True
      with 2 have k: "nego_keeps n m" by (simp add: ready_to_send_def)
      from loop_ends [OF ops m(1,2)] obtain m' where "nego_keeps m m'"
        "nego_loop ops m = Some (Failure m') \<or> nego_loop ops m = Some (Success () m') \<and> ng_state m' = NEGO_STATE_FINAL \<and> decided m'"
        using m(3) by blast
      then show ?thesis using True 2(1) nego_keeps_trans [OF k]
        by (auto simp: nego_connect_def init_def [symmetric] decided_def nego_keeps_def)
    next
      case False
      with 2 show ?thesis
        by (intro disjI2 exI [of _ "nego_set_state NEGO_STATE_FINAL m"])
          (auto simp: nego_connect_def init_def [symmetric] ready_to_send_def nego_set_state_def)
    qed
  next
    case 3
    then show ?thesis using loop_ends [OF ops fits 3(2)]
      by (cases "ng_NegotiateSecurityLayer n") (auto simp: nego_connect_def init_def [symmetric])
  qed
qed

section \<open>What the client guarantees\<close>

text \<open>
  C5: \<open>nego_connect\<close> comes back: for every transport, whatever it answers and however often it refuses,
  and for every state of the negotiation, the loop over the protocols ends and no assertion fails, if the
  token or the cookie leaves room for the request in the one-byte length indicator of the TPDU.
\<close>

theorem nego_connect_ends:
  assumes "transport_ok ops" "request_fits n"
  shows "nego_connect ops to_wchar (n, st) \<noteq> Fault e"
  using connect_cases [OF assms, of to_wchar st] connect_finish [of ops] by auto

text \<open>
  C4: No downgrade: a negotiation that succeeds has selected standard RDP security only if the caller
  had enabled it, whatever the server answers, with and without negotiation.
\<close>

theorem nego_no_downgrade:
  assumes "transport_ok ops" "request_fits n" "ng_state n = NEGO_STATE_INITIAL" "\<not> ng_EnabledProtocols n PROTOCOL_RDP"
  shows "case nego_connect ops to_wchar (n, st) of
      Success _ (n', _) \<Rightarrow> ng_SelectedProtocol n' \<noteq> PROTOCOL_RDP
    | _ \<Rightarrow> True"
proof -
  from connect_cases [OF assms(1,2), of to_wchar st] assms(3,4)
  have "(\<exists>x. nego_connect ops to_wchar (n, st) = Failure x) \<or>
      (\<exists>m. nego_connect ops to_wchar (n, st) = nego_connect_finish ops (m, st) \<and> ng_SelectedProtocol m \<noteq> PROTOCOL_RDP)"
    by blast
  then show ?thesis
  proof (elim disjE exE conjE)
    fix m assume m: "nego_connect ops to_wchar (n, st) = nego_connect_finish ops (m, st)"
      and "ng_SelectedProtocol m \<noteq> PROTOCOL_RDP"
    then show ?thesis using connect_finish [of ops m st] by (simp split: outcome.splits prod.splits)
  qed simp
qed

text \<open>
  C7: Reading a confirm: on every stream \<open>nego_recv\<close> returns, without an assertion or an access out of
  bounds; it accepts exactly the packets of the format, and the state it leaves is what the format
  says: the response with the check of the selected protocol, the failure with the protocols it rules out.
  A packet that is refused enables nothing and leaves the configuration as it is.
\<close>

theorem nego_recv_decodes:
  assumes "readable s"
  shows "case dec_confirm_pdu (remaining s) of
      Some m \<Rightarrow> \<exists>s'. nego_recv (s, n) = Success () (s', apply_confirm m n)
    | None \<Rightarrow> \<exists>s' n'. nego_recv (s, n) = Failure (s', n') \<and> nego_keeps n n'"
  using nego_recv_exact [OF assms, of n] by (simp add: nego_returns_def)

subsection \<open>A transport that replays a list of PDUs\<close>

definition replay :: "byte list list transport_ops" where
  "replay = \<lparr>memory = (\<lambda>_. calloc), transport_set_gateway_enabled = (\<lambda>_ w. w),
     transport_connect = (\<lambda>_ _ w. (True, w)), transport_connect_childsession = (\<lambda>w. (True, w)),
     transport_disconnect = (\<lambda>w. w),
     transport_read_pdu = (\<lambda>_ w. case w of
         [] \<Rightarrow> (None, [])
       | pdu # w \<Rightarrow> (if length pdu < SIZE_MOD then Some (Stream_StaticInit pdu (length pdu)) else None, w)),
     transport_write = (\<lambda>_ w. (True, w)), transport_connect_rdp = (\<lambda>w. (True, w)),
     transport_connect_tls = (\<lambda>w. (True, w)), transport_connect_nla = (\<lambda>_ w. (True, w)),
     transport_connect_rdstls = (\<lambda>w. (True, w)), transport_connect_aad = (\<lambda>w. (True, w))\<rparr>"

definition client :: "32 word list \<Rightarrow> bool \<Rightarrow> byte list list rdpNego" where
  "client protocols negotiate = (nego_new [[3, 0, 0, 19, 14, 0xD0, 0, 0, 0, 0, 0, 2, 0, 8, 0, 2, 0, 0, 0]])
     \<lparr>ng_EnabledProtocols := (\<lambda>p. p \<in> set protocols), ng_NegotiateSecurityLayer := negotiate\<rparr>"

definition default_settings :: nego_settings where
  "default_settings = \<lparr>st_RequestedProtocols = 0, st_SelectedProtocol = 0, st_NegotiationFlags = 0,
     st_UseRdpSecurityLayer = False, st_EncryptionMethods = 0, st_EncryptionLevel = 0,
     st_TlsSecurity = True, st_NlaSecurity = True, st_RdpSecurity = True, st_RdstlsSecurity = False,
     st_SupportGraphicsPipeline = False, st_LocalConnection = False, st_RdpServerRsaKey = True\<rparr>"

lemma replay_ok: "transport_ok replay"
  by (auto simp: transport_ok_def replay_def malloc_spec_def readable_def wf_stream_def Stream_StaticInit_def
      split: list.splits if_splits)

lemma client_fits: "request_fits (client protocols negotiate)"
  by (simp add: request_fits_def token_stored_def token_bytes_def client_def nego_new_def nego_init_def nego_set_state_def)

lemma client_initial: "ng_state (client protocols negotiate) = NEGO_STATE_INITIAL"
  by (simp add: client_def nego_new_def nego_init_def nego_set_state_def)

theorem nego_connect_ends_witness:
  "nego_connect replay (\<lambda>_. None) (client [PROTOCOL_HYBRID, PROTOCOL_SSL] True, default_settings) \<noteq> Fault NonTermination"
  using nego_connect_ends [OF replay_ok client_fits] by simp

theorem nego_no_downgrade_witness:
  "case nego_connect replay (\<lambda>_. None) (client [PROTOCOL_HYBRID] False, default_settings) of
     Success _ (n', st') \<Rightarrow> ng_SelectedProtocol n' \<noteq> PROTOCOL_RDP \<and> ng_SelectedProtocol n' = PROTOCOL_HYBRID \<and> ng_SecurityConnected n'
   | _ \<Rightarrow> False"
proof -
  have "\<not> ng_EnabledProtocols (client [PROTOCOL_HYBRID] False) PROTOCOL_RDP" by (simp add: client_def protocols)
  note t = nego_no_downgrade [OF replay_ok client_fits client_initial this, of "\<lambda>_. None" default_settings]
  show ?thesis using t
    by (simp add: client_def nego_new_def nego_init_def nego_set_state_def protocols nego_connect_def nego_get_state_def
        nego_connect_initial_def nego_only_highest_def nego_tcp_connect_def nego_try_connect_def nego_security_connect_def
        nego_connect_finish_def nego_update_settings_from_state_def ng_call_def set_TcpConnected_def
        set_SecurityConnected_def replay_def default_settings_def c_simps)
qed

theorem nego_recv_decodes_witness:
  "\<exists>s'. nego_recv (Stream_StaticInit [3, 0, 0, 11, 6, 0xD0, 0, 0, 0, 0, 0] 11, client [PROTOCOL_RDP] True) =
     Success () (s', apply_confirm NegNone (client [PROTOCOL_RDP] True))"
proof -
  let ?bs = "[3, 0, 0, 11, 6, 0xD0, 0, 0, 0, 0, 0] :: byte list"
  have "readable (Stream_StaticInit ?bs 11)" "remaining (Stream_StaticInit ?bs 11) = ?bs"
    by (simp_all add: Stream_StaticInit_def readable_def wf_stream_def remaining_def)
  moreover have "dec_confirm_pdu ?bs = Some NegNone" by code_simp
  ultimately show ?thesis using nego_recv_decodes [of "Stream_StaticInit ?bs 11" "client [PROTOCOL_RDP] True"] by simp
qed

end
