(* ===== verification/NegoServer.thy ===== *)
theory NegoServer
  imports NegoClient
begin

text \<open>
  The server of the negotiation: reading a connection request, its token or cookie included.
\<close>

section \<open>Requests at the server\<close>

fun find_crlf :: "byte list \<Rightarrow> nat option" where
  "find_crlf (a # b # r) = (if a = 0x0D \<and> b = 0x0A then Some 0 else map_option Suc (find_crlf (b # r)))"
| "find_crlf _ = None"

lemma crlf_value: "winpr_Data_Get_UINT16 (a # b # r) = 0x0A0D \<longleftrightarrow> a = 0x0D \<and> b = 0x0A"
proof -
  have g: "winpr_Data_Get_UINT16 (a # b # r) = (word_of_nat (unat a + 256 * unat b) :: 16 word)"
    by (simp add: winpr_Data_Get_UINT16_def data_get_le_nat numeral_2_eq_2)
  have b: "unat a < 256" "unat b < 256" using unsigned_less [of a] unsigned_less [of b] by simp_all
  have "unat (winpr_Data_Get_UINT16 (a # b # r)) = unat a + 256 * unat b"
    unfolding g unat_of_nat using b by simp
  then have "winpr_Data_Get_UINT16 (a # b # r) = 0x0A0D \<longleftrightarrow> unat a + 256 * unat b = 0x0A0D"
    by (simp add: word_unat_eq_iff)
  also have "\<dots> \<longleftrightarrow> unat a = 0x0D \<and> unat b = 0x0A"
  proof
    assume e: "unat a + 256 * unat b = 0x0A0D"
    have "unat a = (unat a + 256 * unat b) mod 256" "unat b = (unat a + 256 * unat b) div 256" using b by simp_all
    then show "unat a = 0x0D \<and> unat b = 0x0A" unfolding e by simp
  qed simp
  also have "\<dots> \<longleftrightarrow> a = 0x0D \<and> b = 0x0A" by (simp add: word_unat_eq_iff)
  finally show ?thesis .
qed

lemma rewind_advance: "k \<le> j \<Longrightarrow> Stream_Rewind k (advance j s) = Success () (advance (j - k) s)"
  by (simp add: Stream_Rewind_def c_simps advance_def)

lemma crlf_loop_exact:
  assumes "readable s" "c \<noteq> 0x0A0D"
  shows "case find_crlf (remaining s) of
      Some i \<Rightarrow> i + 2 \<le> length (remaining s) \<and> crlf_loop c s = Some (Success 0x0A0D (advance (i + 2) s))
    | None \<Rightarrow> \<exists>c' k. c' \<noteq> 0x0A0D \<and> k \<le> length (remaining s) \<and> crlf_loop c s = Some (Success c' (advance k s))"
  using assms
proof (induction "length (remaining s)" arbitrary: s c rule: less_induct)
  case less
  show ?case
  proof (cases "remaining s" rule: find_crlf.cases)
    case (1 a b r)
    have v: "winpr_Data_Get_UINT16 (remaining s) = 0x0A0D \<longleftrightarrow> a = 0x0D \<and> b = 0x0A" unfolding 1 by (rule crlf_value)
    have rd: "Stream_GetRemainingLength s = Success (length (remaining s)) s"
      "Stream_Read_UINT16 s = Success (winpr_Data_Get_UINT16 (remaining s)) (advance 2 s)"
      using less.prems(1) 1 by (simp_all add: stream_exec)
    show ?thesis
    proof (cases "a = 0x0D \<and> b = 0x0A")
      case True
      then show ?thesis using 1 rd v by (simp add: crlf_loop.simps [of c s] eval_nat_numeral)
    next
      case False
      let ?c = "winpr_Data_Get_UINT16 (remaining s)"
      have t: "readable (advance 1 s)" "remaining (advance 1 s) = b # r" using less.prems(1) 1 by simp_all
      have "crlf_loop c s = crlf_loop ?c (advance 1 s)"
        using False v rd 1 rewind_advance [of 1 2 s] by (auto simp: crlf_loop.simps [of c s])
      moreover have "find_crlf (remaining s) = map_option Suc (find_crlf (b # r))" using False 1 by auto
      moreover have "?c \<noteq> 0x0A0D" using v False by simp
      note less.hyps [OF _ t(1) this, unfolded t(2)]
      ultimately show ?thesis using 1
        by (cases "find_crlf (b # r)") (auto intro!: exI [of _ "Suc _"])
    qed
  qed (use less.prems in \<open>auto simp: crlf_loop.simps [of c s] stream_exec intro!: exI [of _ c] exI [of _ "0 :: nat"]\<close>)
qed

subsection \<open>Tokens and cookies\<close>

text \<open>A request that starts with a token or a cookie; \<open>k\<close> bytes are skipped in front of the search for CR LF.\<close>

definition cut_token :: "token_kind \<Rightarrow> nat \<Rightarrow> (token_kind \<times> byte list) parser" where
  "cut_token kind k bs = (case find_crlf (drop k bs) of
     None \<Rightarrow> None
   | Some i \<Rightarrow> let str = take (k + i) bs in if 0 \<in> set str then None else Some ((kind, str), drop (k + i + 2) bs))"

definition kind_of :: "byte list \<Rightarrow> token_kind" where
  "kind_of bs =
     (if length bs < 15 then NoToken
      else if take 17 bs = ascii ''Cookie: mstshash='' then (if length bs < 19 then NoToken else Cookie)
      else if take 13 bs = ascii ''Cookie: msts='' \<or> take 4 bs = ascii ''tsv:'' \<or> take 6 bs = ascii ''mth://'' then Token
      else NoToken)"

definition dec_token :: "(token_kind \<times> byte list) parser" where
  "dec_token bs = (case kind_of bs of
     NoToken \<Rightarrow> Some ((NoToken, []), bs) | Token \<Rightarrow> cut_token Token 0 bs | Cookie \<Rightarrow> cut_token Cookie 17 bs)"

fun apply_token :: "token_kind \<times> byte list \<Rightarrow> 'w rdpNego \<Rightarrow> 'w rdpNego" where
  "apply_token (NoToken, str) n = n"
| "apply_token (Token, str) n = n\<lparr>ng_RoutingTokenLength := word_of_nat (length str), ng_RoutingToken := Some str\<rparr>"
| "apply_token (Cookie, str) n = n\<lparr>ng_cookie := Some str\<rparr>"

text \<open>
  The outcome of a reader of the server: the state it ends with and the bytes it leaves, or failure;
  a lack of memory may turn success into failure.
\<close>

definition serves :: "malloc \<Rightarrow> ('w rdpNego \<times> byte list) option \<Rightarrow> (wStream \<times> 'w rdpNego, unit) outcome \<Rightarrow> bool" where
  "serves malloc r x \<longleftrightarrow> (case r of
     Some (n', rest) \<Rightarrow> (\<exists>t. x = Success () (t, n') \<and> readable t \<and> remaining t = rest) \<or>
       (\<exists>k. malloc k = None) \<and> (\<exists>y. x = Failure y)
   | None \<Rightarrow> \<exists>y. x = Failure y)"

lemma serves_Some: "x = Success () (t, n') \<Longrightarrow> readable t \<Longrightarrow> remaining t = rest \<Longrightarrow> serves malloc (Some (n', rest)) x"
  by (simp add: serves_def)

lemma serves_None: "x = Failure y \<Longrightarrow> serves malloc None x"
  by (simp add: serves_def)

lemma serves_no_memory: "x = Failure y \<Longrightarrow> malloc k = None \<Longrightarrow> serves malloc r x"
  by (auto simp: serves_def split: option.split)

lemma serves_bind:
  assumes "serves malloc r (f x)"
    and "\<And>n t. r = Some (n, remaining t) \<Longrightarrow> readable t \<Longrightarrow> serves malloc (q n (remaining t)) (g (t, n))"
  shows "serves malloc (Option.bind r (\<lambda>(n, bs). q n bs)) (bind_c f (\<lambda>_. g) x)"
proof (cases r)
  case None
  with assms(1) show ?thesis by (auto simp: serves_def bind_c_def)
next
  case (Some a)
  obtain n rest where a: "a = (n, rest)" by (cases a)
  with assms(1) Some consider t where "f x = Success () (t, n)" "readable t" "remaining t = rest"
    | k y where "malloc k = None" "f x = Failure y"
    by (auto simp: serves_def)
  then show ?thesis
  proof cases
    case 1
    with assms(2) [of n t] Some a show ?thesis by (simp add: bind_c_def)
  next
    case (2 k y)
    then show ?thesis by (intro serves_no_memory) (simp_all add: bind_c_def)
  qed
qed

text \<open>The stream after the CR LF behind the token has been overwritten.\<close>

definition erased :: "nat \<Rightarrow> wStream \<Rightarrow> wStream" where
  "erased j s = put [0, 0] (advance j s)"

lemma erased:
  assumes "readable s" "j + 2 \<le> length (remaining s)"
  shows "readable (erased j s)" "remaining (erased j s) = drop (j + 2) (remaining s)"
    "take j (drop (s_pointer s) (s_buffer (erased j s))) = take j (remaining s)"
proof -
  have b: "s_pointer s + j + 2 \<le> s_length s" "s_length s \<le> length (s_buffer s)" "length (s_buffer s) = s_capacity s"
    using assms by (auto simp: length_remaining readable_def wf_stream_def)
  show "readable (erased j s)" using assms(1) b by (auto simp: erased_def put_def advance_def readable_def wf_stream_def)
  show "remaining (erased j s) = drop (j + 2) (remaining s)" using b
    by (simp add: erased_def put_def advance_def remaining_def overwrite_def drop_take min_def ac_simps)
  have "take j (drop (s_pointer s) (s_buffer (erased j s))) = take j (drop (s_pointer s) (s_buffer s))" using b
    by (simp add: erased_def put_def advance_def overwrite_def drop_take)
  also have "\<dots> = take j (remaining s)" using assms(2) by (simp add: take_remaining)
  finally show "take j (drop (s_pointer s) (s_buffer (erased j s))) = take j (remaining s)" .
qed

lemma find_crlf_on:
  assumes "readable s"
  shows "case find_crlf (remaining s) of
      Some i \<Rightarrow> i + 2 \<le> length (remaining s) \<and> nego_find_crlf s = Success 0x0A0D (advance (i + 2) s)
    | None \<Rightarrow> \<exists>c' k. c' \<noteq> 0x0A0D \<and> k \<le> length (remaining s) \<and> nego_find_crlf s = Success c' (advance k s)"
  using crlf_loop_exact [OF assms, of 0] by (fastforce simp: nego_find_crlf_def split: option.splits)

lemma nego_bind:
  "bind_c get_nego k (s, n) = k n (s, n)" "bind_c (set_nego g) h (s, n) = h () (s, g n)"
  by (simp_all add: bind_c_def get_nego_def set_nego_def)

lemma set_position:
  "p \<le> s_capacity s \<Longrightarrow> bind_c (on_stream (Stream_SetPosition p)) (\<lambda>_. fail_c) (s, n) = Failure (s\<lparr>s_pointer := p\<rparr>, n)"
  by (simp add: Stream_SetPosition_def Stream_Capacity_def c_simps nego_simps)

lemma store_token:
  assumes "length str \<le> 255" "isToken \<Longrightarrow> str \<noteq> []"
  shows "(\<exists>n'. (if isToken then nego_set_routing_token malloc str n else nego_set_cookie malloc (Some str) n) = Failure n') \<and>
      (\<exists>k. malloc k = None) \<or>
    (if isToken then nego_set_routing_token malloc str n else nego_set_cookie malloc (Some str) n) =
      Success () (apply_token (if isToken then Token else Cookie, str) n)"
proof -
  have l: "unat (word_of_nat (length str) :: 32 word) = length str" using assms(1) unfolding unat_of_nat by simp
  moreover have "isToken \<Longrightarrow> (word_of_nat (length str) :: 32 word) \<noteq> 0" using assms(2) l by (metis length_0_conv unat_0)
  ultimately show ?thesis
    by (auto simp: nego_set_routing_token_def nego_set_cookie_def Let_def split: option.splits)
qed

lemma take_token_serves:
  assumes s: "readable s" and k: "k \<le> length (remaining s)" "length (remaining s) \<le> 255"
    and start: "isToken \<Longrightarrow> k = 0 \<and> find_crlf (remaining s) \<noteq> Some 0"
  shows "serves malloc
    (map_option (\<lambda>(tok, rest). (apply_token tok n, rest)) (cut_token (if isToken then Token else Cookie) k (remaining s)))
    (nego_take_token malloc isToken (s_pointer s) (advance k s, n))"
proof (cases "find_crlf (drop k (remaining s))")
  case None
  have "readable (advance k s)" using s k by simp
  from find_crlf_on [OF this] None obtain c j where
    "c \<noteq> 0x0A0D" "nego_find_crlf (advance k s) = Success c (advance j (advance k s))" by auto
  then show ?thesis using None set_position [of "s_pointer s" "advance j (advance k s)" n] s
    by (auto simp: serves_def cut_token_def nego_take_token_def on_stream_bind advance_def readable_def wf_stream_def)
next
  case (Some i)
  let ?j = "k + i"
  let ?str = "take ?j (remaining s)"
  have "readable (advance k s)" using s k by simp
  from find_crlf_on [OF this] Some
  have f: "?j + 2 \<le> length (remaining s)" "nego_find_crlf (advance k s) = Success 0x0A0D (advance (?j + 2) s)"
    using k by (auto simp: add.assoc)
  note e = erased [OF s f(1)]
  have w: "Stream_Write_UINT16 0 (advance ?j s) = Success () (erased ?j s)"
  proof -
    have "wf_stream (advance ?j s)" "2 \<le> room (advance ?j s)"
      using f(1) s by (auto simp: length_remaining readable_def wf_stream_def advance_def room_def)
    moreover have "le16 0 = [0, 0]" by code_simp
    ultimately show ?thesis by (simp add: Write_scalars erased_def)
  qed
  have p: "s_pointer s \<le> s_capacity (erased ?j s)" using s by (simp add: erased_def put_def advance_def readable_def wf_stream_def)
  have len: "Stream_GetPosition (advance ?j s) - s_pointer s = ?j" by (simp add: Stream_GetPosition_def advance_def)
  have run: "nego_take_token malloc isToken (s_pointer s) (advance k s, n) =
      (if 0 \<in> set ?str then Failure ((erased ?j s)\<lparr>s_pointer := s_pointer s\<rparr>, n)
       else case (if isToken then nego_set_routing_token malloc ?str n else nego_set_cookie malloc (Some ?str) n) of
           Fault e \<Rightarrow> Fault e
         | Failure n \<Rightarrow> Failure ((erased ?j s)\<lparr>s_pointer := s_pointer s\<rparr>, n)
         | Success _ n \<Rightarrow> Success () (erased ?j s, n))"
  proof -
    have j: "\<not> 0xFFFFFFFF < ?j" using f(1) k by simp
    show ?thesis
      using f(2) w rewind_advance [of 2 "?j + 2" s] e(3) j
      by (simp add: nego_take_token_def on_stream_bind set_position [OF p] len Let_def cong: outcome.case_cong)
  qed
  have "length ?str \<le> 255" "isToken \<Longrightarrow> ?str \<noteq> []" using k start Some f(1) by auto
  from store_token [OF this, of isToken malloc n] show ?thesis using e Some
    by (auto simp: run cut_token_def Let_def intro: serves_Some serves_None serves_no_memory)
qed

lemma ascii_prefixes:
  "ascii ''Cookie: mstshash='' = [67, 111, 111, 107, 105, 101, 58, 32, 109, 115, 116, 115, 104, 97, 115, 104, 61]"
  "ascii ''Cookie: msts='' = [67, 111, 111, 107, 105, 101, 58, 32, 109, 115, 116, 115, 61]"
  "ascii ''tsv:'' = [116, 115, 118, 58]" "ascii ''mth://'' = [109, 116, 104, 58, 47, 47]"
  by code_simp+

text \<open>A token does not start with CR LF, and a prefix of the cookie is no token.\<close>

lemma token_not_empty: "kind_of bs = Token \<Longrightarrow> find_crlf bs \<noteq> Some 0"
  by (cases bs rule: find_crlf.cases) (auto simp: kind_of_def ascii_prefixes split: if_splits)

lemma cookie_prefix_no_token:
  assumes "take (length bs) (ascii ''Cookie: mstshash='') = bs" "15 \<le> length bs"
  shows "take 13 bs \<noteq> ascii ''Cookie: msts=''" "take 4 bs \<noteq> ascii ''tsv:''" "take 6 bs \<noteq> ascii ''mth://''"
proof -
  have "take k bs = take k (ascii ''Cookie: mstshash='')" if "k \<le> 15" for k
    by (subst assms(1) [symmetric]) (use assms(2) that in \<open>simp add: min_def\<close>)
  then show "take 13 bs \<noteq> ascii ''Cookie: msts=''" "take 4 bs \<noteq> ascii ''tsv:''" "take 6 bs \<noteq> ascii ''mth://''"
    by (simp_all add: ascii_prefixes)
qed

lemma memcmp_remaining:
  assumes "readable s" "length lit \<le> length (remaining s)"
  shows "memcmp_equal lit s = Success (take (length lit) (remaining s) = lit) s"
  using assms take_remaining [of "length lit" s]
  by (auto simp: memcmp_equal_def Let_def length_remaining readable_def wf_stream_def)

lemma length_prefixes:
  "length (ascii ''Cookie: mstshash='') = 17" "length (ascii ''Cookie: msts='') = 13"
  "length (ascii ''tsv:'') = 4" "length (ascii ''mth://'') = 6"
  by (simp_all add: ascii_prefixes del: length_ascii)

lemma token_kind_exact:
  assumes s: "readable s" "15 \<le> length (remaining s)" and slack: "s_pointer s + 17 \<le> s_capacity s"
  shows "token_kind_at (length (remaining s)) s =
    Success (kind_of (remaining s)) (advance (if kind_of (remaining s) = Cookie then 17 else 0) s)"
proof -
  define bs where "bs = remaining s"
  define cookie where "cookie = ascii ''Cookie: mstshash=''"
  define msts where "msts = ascii ''Cookie: msts=''"
  define tsv where "tsv = ascii ''tsv:''"
  define mth where "mth = ascii ''mth://''"
  note ds = cookie_def [symmetric] msts_def [symmetric] tsv_def [symmetric] mth_def [symmetric] bs_def [symmetric]
  define c where "c \<longleftrightarrow> take 17 (drop (s_pointer s) (s_buffer s)) = cookie"
  have l: "length cookie = 17" "length msts = 13" "length tsv = 4" "length mth = 6" "15 \<le> length bs"
    using length_prefixes s(2) by (simp_all only: ds)
  have "\<not> length (drop (s_pointer s) (s_buffer s)) < 17" using s(1) slack by (auto simp: readable_def wf_stream_def)
  then have m: "memcmp_equal cookie s = Success c s"
    by (simp only: memcmp_equal_def c_def l Let_def if_False)
  have rest: "memcmp_equal msts s = Success (take 13 bs = msts) s"
    "memcmp_equal tsv s = Success (take 4 bs = tsv) s" "memcmp_equal mth s = Success (take 6 bs = mth) s"
    using memcmp_remaining [OF s(1), of msts] memcmp_remaining [OF s(1), of tsv] memcmp_remaining [OF s(1), of mth] l
    by (simp_all add: bs_def)
  have k: "kind_of bs = (if take 17 bs = cookie then if length bs < 19 then NoToken else Cookie
      else if take 13 bs = msts \<or> take 4 bs = tsv \<or> take 6 bs = mth then Token else NoToken)"
    using l(5) by (simp add: kind_of_def ds)
  have seek: "17 \<le> length bs \<Longrightarrow> Stream_Seek 17 s = Success () (advance 17 s)"
    using s(1) remaining_le_room [OF s(1)] by (simp add: stream_exec bs_def)
  have run: "token_kind_at (length bs) s =
      (if \<not> c then Success (if take 13 bs = msts \<or> take 4 bs = tsv \<or> take 6 bs = mth then Token else NoToken) s
       else if length bs < 19 then Success NoToken s else Success Cookie (advance 17 s))"
    using m rest seek by (simp add: token_kind_at_def ds bind_c_def return_c_def)
  show ?thesis
  proof (cases "17 \<le> length bs")
    case True
    then have "c \<longleftrightarrow> take 17 bs = cookie" by (simp add: c_def bs_def take_remaining)
    then show ?thesis by (simp add: run k ds)
  next
    case False
    then have n: "take 17 bs \<noteq> cookie" using l(1) by auto
    have p: "take 13 bs \<noteq> msts \<and> take 4 bs \<noteq> tsv \<and> take 6 bs \<noteq> mth" if c
    proof -
      have "take (length bs) (drop (s_pointer s) (s_buffer s)) = bs"
        using take_remaining [of "length bs" s] by (simp add: bs_def)
      moreover have "cookie = take 17 (drop (s_pointer s) (s_buffer s))" using that by (simp add: c_def)
      ultimately have "take (length bs) cookie = bs" using False by (simp add: min_def)
      then show ?thesis using cookie_prefix_no_token [of bs] l(5) by (simp only: ds simp_thms)
    qed
    show ?thesis using False n p by (simp add: run k ds)
  qed
qed

lemma token_or_cookie_serves:
  assumes s: "readable s" "length (remaining s) \<le> 255"
    and slack: "15 \<le> length (remaining s) \<Longrightarrow> s_pointer s + 17 \<le> s_capacity s"
  shows "serves malloc (map_option (\<lambda>(tok, rest). (apply_token tok n, rest)) (dec_token (remaining s)))
    (nego_read_request_token_or_cookie malloc (s, n))"
proof -
  have r: "Stream_GetRemainingLength s = Success (length (remaining s)) s" using s by (simp add: stream_exec)
  show ?thesis
  proof (cases "15 \<le> length (remaining s)")
    case False
    then show ?thesis using r s
      by (auto simp: nego_read_request_token_or_cookie_def on_stream_bind dec_token_def kind_of_def Let_def intro: serves_Some)
  next
    case True
    note k = token_kind_exact [OF s(1) True slack [OF True]]
    have e: "nego_read_request_token_or_cookie malloc (s, n) = (case kind_of (remaining s) of
        NoToken \<Rightarrow> Success () (s, n)
      | Token \<Rightarrow> nego_take_token malloc True (s_pointer s) (s, n)
      | Cookie \<Rightarrow> nego_take_token malloc False (s_pointer s) (advance 17 s, n))"
      using r k True
      by (simp add: nego_read_request_token_or_cookie_def on_stream_bind Let_def Stream_GetPosition_def return_c_def split: token_kind.split)
    show ?thesis
    proof (cases "kind_of (remaining s)")
      case NoToken
      then show ?thesis using e s by (auto simp: dec_token_def intro: serves_Some)
    next
      case Token
      then show ?thesis using e token_not_empty [OF Token] take_token_serves [OF s(1) _ s(2), of 0 True malloc n]
        by (simp add: dec_token_def)
    next
      case Cookie
      then have "17 \<le> length (remaining s)" by (auto simp: kind_of_def split: if_splits)
      with Cookie show ?thesis using e take_token_serves [OF s(1) _ s(2), of 17 False malloc n]
        by (simp add: dec_token_def)
    qed
  qed
qed

subsection \<open>The negotiation data\<close>

definition dec_correlation :: "unit parser" where
  "dec_correlation = check_p 36 (bind_p u8_p (\<lambda>type. if type \<noteq> TYPE_RDP_CORRELATION_INFO then fail_p
     else bind_p u8_p (\<lambda>flags. if flags \<noteq> 0 then fail_p
     else bind_p u16_le_p (\<lambda>len. if len \<noteq> 36 then fail_p
     else bind_p (bytes_p 16) (\<lambda>id. if id ! 0 = 0 \<or> id ! 0 = 0xF4 then fail_p
     else if 0x0D \<in> set id then fail_p
     else drop_p 16)))))"

lemma reads_when_seek_last: "n \<le> m \<Longrightarrow> reads_when m (Stream_Seek n) (drop_p n)"
  by (rule reads_when_last_unit, erule reads_when_seek, rule reads_when_basic)

lemma reads_correlation: "reads nego_process_correlation_info dec_correlation"
  unfolding nego_process_correlation_info_def dec_correlation_def
  by (intro reads_when_intros reads_when_seek_last) simp_all

text \<open>Flags that the server does not know, or that ask for a mode it does not support.\<close>

definition refused :: "'w rdpNego \<Rightarrow> byte \<Rightarrow> bool" where
  "refused n flags \<longleftrightarrow> flags AND NOT 0x0B \<noteq> 0 \<or> flags AND 1 \<noteq> 0 \<and> \<not> ng_RestrictedAdminModeSupported n \<or>
     flags AND 2 \<noteq> 0 \<and> \<not> ng_RemoteCredsGuardSupported n \<and> flags AND 1 = 0"

definition dec_neg_request :: "'w rdpNego \<Rightarrow> (byte \<times> 32 word) parser" where
  "dec_neg_request n bs =
     (if length bs < 7 \<or> refused n (hd bs) \<or> winpr_Data_Get_UINT16 (drop 1 bs) \<noteq> 8 then None
      else map_option (\<lambda>(_, rest). ((hd bs, winpr_Data_Get_UINT32 (drop 3 bs)), rest))
        ((if hd bs AND 8 \<noteq> 0 then dec_correlation else return_p ()) (drop 7 bs)))"

fun apply_request :: "byte \<times> 32 word \<Rightarrow> 'w rdpNego \<Rightarrow> 'w rdpNego" where
  "apply_request (flags, protocols) n = nego_set_state NEGO_STATE_FINAL
     ((if flags AND 2 \<noteq> 0 \<and> ng_RemoteCredsGuardSupported n then n\<lparr>ng_RemoteCredsGuardActive := True\<rparr> else n)
      \<lparr>ng_RequestedProtocols := protocols\<rparr>)"

lemma correlation_serves:
  assumes "readable s"
  shows "serves malloc (map_option (\<lambda>(_, rest). (g n, rest)) ((if b then dec_correlation else return_p ()) (remaining s)))
    (bind_c (if b then on_stream nego_process_correlation_info else return_c ()) (\<lambda>_. set_nego g) (s, n))"
proof (cases b)
  case False
  then show ?thesis using assms by (auto simp: c_simps return_p_def set_nego_def intro: serves_Some)
next
  case True
  show ?thesis
  proof (cases "dec_correlation (remaining s)")
    case None
    with reads_correlation assms obtain i where "nego_process_correlation_info s = Failure (advance i s)" by (rule reads_None)
    with None True show ?thesis by (simp add: c_simps on_stream_def serves_def)
  next
    case (Some a)
    obtain v rest where "a = (v, rest)" by (cases a)
    with Some have p: "dec_correlation (remaining s) = Some (v, rest)" by simp
    with reads_correlation assms obtain i where i: "i \<le> length (remaining s)" "nego_process_correlation_info s = Success v (advance i s)"
      "rest = drop i (remaining s)" by (rule reads_Some)
    with p True assms show ?thesis by (auto simp: on_stream_bind set_nego_def intro: serves_Some)
  qed
qed

lemma neg_request_serves:
  assumes "readable s"
  shows "serves malloc (map_option (\<lambda>(r, rest). (apply_request r n, rest)) (dec_neg_request n (remaining s)))
    (nego_process_negotiation_request (s, n))"
proof (cases "7 \<le> length (remaining s)")
  case False
  then show ?thesis using assms
    by (simp add: serves_def dec_neg_request_def nego_process_negotiation_request_def c_simps on_stream_def stream_exec)
next
  case True
  let ?f = "hd (remaining s)"
  let ?n = "(if ?f AND 2 \<noteq> 0 \<and> ng_RemoteCredsGuardSupported n then n\<lparr>ng_RemoteCredsGuardActive := True\<rparr> else n)
     \<lparr>ng_RequestedProtocols := winpr_Data_Get_UINT32 (drop 3 (remaining s))\<rparr>"
  note room = neg_data_room [OF assms True]
  have run: "nego_process_negotiation_request (s, n) =
      (if refused n ?f then Failure (advance 1 s, n)
       else if winpr_Data_Get_UINT16 (drop 1 (remaining s)) \<noteq> 8 then
         Failure (advance 3 s, if ?f AND 2 \<noteq> 0 \<and> ng_RemoteCredsGuardSupported n then n\<lparr>ng_RemoteCredsGuardActive := True\<rparr> else n)
       else bind_c (if ?f AND 8 \<noteq> 0 then on_stream nego_process_correlation_info else return_c ())
         (\<lambda>_. set_nego (nego_set_state NEGO_STATE_FINAL)) (advance 7 s, ?n))"
    using assms True room arg_cong [OF numeral_3_eq_3, of "\<lambda>k. advance k s"]
    by (simp add: nego_process_negotiation_request_def on_stream_bind nego_bind stream_exec refused_def fail_c_def)
  have "readable (advance 7 s)" using assms True by simp
  from correlation_serves [OF this, of malloc "nego_set_state NEGO_STATE_FINAL" ?n "?f AND 8 \<noteq> 0"]
  show ?thesis using True by (auto simp: run dec_neg_request_def option.map_comp comp_def case_prod_unfold serves_None)
qed

subsection \<open>The whole request\<close>

text \<open>
  What a connection request makes of the state of the server: the length indicator covers the packet,
  a token or cookie, the negotiation data, and nothing behind them.
\<close>

definition dec_request_body :: "'w rdpNego \<Rightarrow> byte list \<Rightarrow> ('w rdpNego \<times> byte list) option" where
  "dec_request_body n bs =
     (if length bs < 8 then Some (n, bs)
      else if hd bs \<noteq> TYPE_RDP_NEG_REQ then None
      else map_option (\<lambda>(r, rest). (apply_request r n, rest)) (dec_neg_request n (tl bs)))"

definition dec_request_pdu :: "'w rdpNego \<Rightarrow> byte list \<Rightarrow> 'w rdpNego option" where
  "dec_request_pdu n bs = (case bind_p dec_tpkt dec_request bs of
     None \<Rightarrow> None
   | Some (li, body) \<Rightarrow>
       if unat li \<noteq> length body + 6 then None
       else case dec_token body of
         None \<Rightarrow> None
       | Some (tok, rest) \<Rightarrow>
           (case dec_request_body (apply_token tok n) rest of Some (n', []) \<Rightarrow> Some n' | _ \<Rightarrow> None))"

lemma header_consumed:
  assumes "dec_tpkt bs = Some (len, r)" "dec_request len r = Some (li, rest)"
  shows "length bs = 11 + length rest"
proof -
  obtain code where d: "dec_tpdu len r = Some ((code, li), rest)" "code = 0xE0"
    using assms(2) by (auto simp: dec_request_def bind_p_def return_p_def fail_p_def split: option.splits if_splits)
  then have r: "length r = 7 + length rest" "unat len \<noteq> 0"
    by (cases "(len, r)" rule: dec_tpdu.cases; auto simp: Let_def split: if_splits)+
  with assms(1) show ?thesis by (auto simp: dec_tpkt_def Let_def split: if_splits)
qed

lemma request_body_serves:
  assumes "readable s"
  shows "serves malloc (dec_request_body n (remaining s))
    (bind_c (on_stream Stream_GetRemainingLength) (\<lambda>rem.
       if rem \<ge> 8 then
         bind_c (on_stream Stream_Read_UINT8) (\<lambda>type.
           if type \<noteq> TYPE_RDP_NEG_REQ then fail_c else nego_process_negotiation_request)
       else return_c ()) (s, n))"
proof (cases "8 \<le> length (remaining s)")
  case False
  then show ?thesis using assms
    by (auto simp: dec_request_body_def on_stream_bind stream_exec return_c_def intro: serves_Some)
next
  case True
  then have r: "remaining s \<noteq> []" "readable (advance 1 s)" "remaining (advance 1 s) = tl (remaining s)"
    using assms by (auto simp: tl_drop)
  have "Stream_Read_UINT8 s = Success (hd (remaining s)) (advance 1 s)" using assms True r(1) by (simp add: stream_exec)
  then show ?thesis using neg_request_serves [OF r(2), of malloc n] True assms r
    by (simp add: dec_request_body_def on_stream_bind stream_exec fail_c_def serves_None)
qed

lemma consumed_serves:
  assumes "readable s" "len \<le> 65535"
  shows "serves malloc (if remaining s = [] then Some (n, []) else None) (on_stream (tpkt_ensure_stream_consumed len) (s, n))"
  using assms by (auto simp: tpkt_ensure_stream_consumed_def on_stream_def stream_exec c_simps intro: serves_Some serves_None)

lemma request_rest_serves:
  assumes "readable s" "length (remaining s) \<le> 255" "len \<le> 65535"
    and "15 \<le> length (remaining s) \<Longrightarrow> s_pointer s + 17 \<le> s_capacity s"
  shows "serves malloc
    (Option.bind (map_option (\<lambda>(tok, rest). (apply_token tok n, rest)) (dec_token (remaining s))) (\<lambda>(n, bs).
       Option.bind (dec_request_body n bs) (\<lambda>(n, bs). if bs = [] then Some (n, []) else None)))
    (bind_c (nego_read_request_token_or_cookie malloc) (\<lambda>_.
       bind_c (on_stream Stream_GetRemainingLength) (\<lambda>rem.
       bind_c
         (if rem \<ge> 8 then
            bind_c (on_stream Stream_Read_UINT8) (\<lambda>type.
            if type \<noteq> TYPE_RDP_NEG_REQ then fail_c else nego_process_negotiation_request)
          else return_c ()) (\<lambda>_.
       on_stream (tpkt_ensure_stream_consumed len)))) (s, n))"
proof -
  define body :: "('a, unit) nego_fun" where "body = bind_c (on_stream Stream_GetRemainingLength) (\<lambda>rem.
       if rem \<ge> 8 then
         bind_c (on_stream Stream_Read_UINT8) (\<lambda>type.
           if type \<noteq> TYPE_RDP_NEG_REQ then fail_c else nego_process_negotiation_request)
       else return_c ())"
  have rest: "serves malloc (Option.bind (dec_request_body m (remaining t)) (\<lambda>(n, bs). if bs = [] then Some (n, []) else None))
      (bind_c body (\<lambda>_. on_stream (tpkt_ensure_stream_consumed len)) (t, m))" if "readable t" for m t
  proof (rule serves_bind)
    show "serves malloc (dec_request_body m (remaining t)) (body (t, m))"
      unfolding body_def by (rule request_body_serves [OF that])
  qed (rule consumed_serves [OF _ assms(3)])
  have "serves malloc
    (Option.bind (map_option (\<lambda>(tok, rest). (apply_token tok n, rest)) (dec_token (remaining s))) (\<lambda>(n, bs).
       Option.bind (dec_request_body n bs) (\<lambda>(n, bs). if bs = [] then Some (n, []) else None)))
    (bind_c (nego_read_request_token_or_cookie malloc) (\<lambda>_. bind_c body (\<lambda>_. on_stream (tpkt_ensure_stream_consumed len))) (s, n))"
    by (rule serves_bind, rule token_or_cookie_serves) (use assms rest in auto)
  then show ?thesis unfolding body_def bind_c_assoc .
qed

lemma word_le_65535: "unat (len :: 16 word) \<le> 65535"
  using unsigned_less [where 'a = nat, of len] by simp

lemma request_pdu_bind:
  assumes "bind_p dec_tpkt dec_request bs = Some (li, body)" "unat li = length body + 6"
  shows "map_option (\<lambda>n'. (n', [])) (dec_request_pdu n bs) =
    Option.bind (map_option (\<lambda>(tok, rest). (apply_token tok n, rest)) (dec_token body)) (\<lambda>(n, bs).
      Option.bind (dec_request_body n bs) (\<lambda>(n, bs). if bs = [] then Some (n, []) else None))"
proof (cases "dec_token body")
  case None
  then show ?thesis using assms by (simp add: dec_request_pdu_def)
next
  case (Some a)
  then show ?thesis using assms
    by (cases a; cases "dec_request_body (apply_token (fst a) n) (snd a)")
      (auto simp: dec_request_pdu_def split: list.split)
qed

text \<open>
  The server reads a request exactly as the format says; the buffer has to extend 17 bytes beyond the
  header, which is what the comparison with the cookie prefix reads.
\<close>

lemma nego_read_request_exact:
  assumes s: "readable s" and slack: "s_pointer s + 28 \<le> s_capacity s"
  shows "serves malloc (map_option (\<lambda>n'. (n', [])) (dec_request_pdu n (remaining s))) (nego_read_request malloc (s, n))"
proof (cases "dec_tpkt (remaining s)")
  case None
  from reads_tpkt s None obtain i where "tpkt_read_header s = Failure (advance i s)" by (rule reads_None)
  with None show ?thesis by (simp add: serves_def dec_request_pdu_def nego_read_request_def c_simps on_stream_def)
next
  case (Some a)
  obtain len r where a: "a = (len, r)" by (cases a)
  with Some have d: "dec_tpkt (remaining s) = Some (len, r)" by simp
  with reads_tpkt s obtain i where i: "i \<le> length (remaining s)" "tpkt_read_header s = Success len (advance i s)"
    "r = drop i (remaining s)" by (rule reads_Some)
  have t: "readable (advance i s)" "remaining (advance i s) = r" using i s by simp_all
  show ?thesis
  proof (cases "dec_request len r")
    case None
    from reads_request t(1) None [folded t(2)] obtain j where "tpdu_read_connection_request len (advance i s) = Failure (advance j (advance i s))"
      by (rule reads_None)
    note f = on_stream_fail [where f = "tpdu_read_connection_request len", OF this]
    show ?thesis unfolding nego_read_request_def on_stream_bind [where f = tpkt_read_header, OF i(2)] f
      using None by (simp add: serves_def dec_request_pdu_def bind_p_Some [where p = dec_tpkt, OF d])
  next
    case (Some b)
    obtain li body where "b = (li, body)" by (cases b)
    with Some have e: "dec_request len r = Some (li, body)" by simp
    from reads_request t(1) e [folded t(2)] obtain j where j: "j \<le> length (remaining (advance i s))"
      "tpdu_read_connection_request len (advance i s) = Success li (advance j (advance i s))" "body = drop j (remaining (advance i s))"
      by (rule reads_Some)
    define u where "u = advance (i + j) s"
    have u: "readable u" "remaining u = body"
      unfolding u_def advance_advance [symmetric] j(3) using readable_advance [OF t(1) j(1)] by (simp_all add: add.commute)
    have l: "length (remaining s) = 11 + length body" using header_consumed [OF d e] .
    have "length body = length (remaining s) - i - j" by (simp add: j(3))
    moreover have "j \<le> length (remaining s) - i" using j(1) by simp
    ultimately have "i + j = 11" using l i(1) by linarith
    then have "s_pointer u + 17 \<le> s_capacity u" using slack by (simp add: u_def advance_def)
    note f = request_rest_serves [OF u(1), of "unat len" malloc n, unfolded u(2), OF _ _ this]
    have run: "nego_read_request malloc (s, n) = (if unat li \<noteq> length body + 6 then Failure (u, n) else
       bind_c (nego_read_request_token_or_cookie malloc) (\<lambda>_.
       bind_c (on_stream Stream_GetRemainingLength) (\<lambda>rem.
       bind_c
         (if rem \<ge> 8 then
            bind_c (on_stream Stream_Read_UINT8) (\<lambda>type.
            if type \<noteq> TYPE_RDP_NEG_REQ then fail_c else nego_process_negotiation_request)
          else return_c ()) (\<lambda>_.
       on_stream (tpkt_ensure_stream_consumed (unat len))))) (u, n))"
      using i(2) j(2) u by (simp add: nego_read_request_def on_stream_bind u_def fail_c_def GetRemainingLength_readable)
    show ?thesis
    proof (cases "unat li = length body + 6")
      case False
      then show ?thesis using d e by (simp add: run dec_request_pdu_def serves_def)
    next
      case True
      then have "length body \<le> 255" using unat_byte_less [of li] by simp
      note f = f [OF this word_le_65535]
      have "\<not> unat li \<noteq> length body + 6" using True by simp
      note run = run [unfolded if_not_P [OF this]]
      have "bind_p dec_tpkt dec_request (remaining s) = Some (li, body)" using d e by simp
      note pdu = request_pdu_bind [OF this True, of n]
      show ?thesis unfolding run pdu by (rule f)
    qed
  qed
qed

section \<open>Round trips\<close>

lemma dec_neg_data:
  "u8_p (neg_data ty flags v @ r) = Some (ty, flags # le16 8 @ le32 v @ r)"
  "winpr_Data_Get_UINT16 (le16 8 @ le32 v @ r) = 8" "winpr_Data_Get_UINT32 (le32 v @ r) = v"
  "winpr_Data_Get_UINT16 (le16 8 @ le32 v) = 8" "winpr_Data_Get_UINT32 (le32 v) = v"
  using u16le.fetch_encode [of 8] u32le.fetch_encode [of v "[]"]
  by (simp_all add: neg_data_def u8_p_def u16le.fetch_encode u32le.fetch_encode)

definition response_confirm :: "nego_settings \<Rightarrow> 'w rdpNego \<Rightarrow> confirm" where
  "response_confirm settings nego =
     (if ng_SelectedProtocol nego AND PROTOCOL_FAILED_NEGO \<noteq> 0
      then NegFailure (ng_SelectedProtocol nego AND NOT PROTOCOL_FAILED_NEGO)
      else NegResponse (nego_response_flags settings nego) (ng_SelectedProtocol nego))"

lemma dec_response: "dec_confirm_pdu (response_bytes settings nego) = Some (response_confirm settings nego)"
proof -
  let ?b = "response_body settings nego"
  have l: "length ?b = 8" by (simp add: response_body_def)
  have "dec_tpkt (enc_tpkt 19 @ (enc_tpdu 0xD0 14 @ ?b) @ []) = Some (word_of_nat 19, (enc_tpdu 0xD0 14 @ ?b) @ [])"
    by (rule dec_tpkt_enc) (simp_all add: l enc_tpdu_def)
  moreover have "dec_confirm (word_of_nat 19) (enc_tpdu 0xD0 14 @ ?b) = Some (14, ?b)"
    using l by (simp add: dec_confirm_def dec_tpdu_enc)
  ultimately have "dec_neg (response_bytes settings nego) =
      bind_p u8_p (\<lambda>type. if type = 2 then dec_rsp else if type = 3 then dec_failure else fail_p) ?b"
    by (simp add: dec_neg_def response_bytes_def)
  then show ?thesis
    using dec_neg_data(1) [of _ _ _ "[]"]
    by (simp add: dec_confirm_pdu_def response_body_def response_confirm_def dec_rsp_def dec_failure_def parser_defs
        neg_data_def dec_neg_data)
qed

lemma static_readable:
  "length bs < SIZE_MOD \<Longrightarrow> readable (Stream_StaticInit bs (length bs))" "remaining (Stream_StaticInit bs (length bs)) = bs"
  by (simp_all add: Stream_StaticInit_def readable_def wf_stream_def remaining_def)

text \<open>A cookie without CR and without zero byte in front of the rest of a request.\<close>

lemma find_crlf_append: "0x0D \<notin> set xs \<Longrightarrow> find_crlf (xs @ 0x0D # 0x0A # r) = Some (length xs)"
proof (induction xs)
  case (Cons a xs)
  then show ?case by (cases xs) auto
qed simp

lemma dec_cookie:
  assumes "0x0D \<notin> set c" "0 \<notin> set c"
  shows "dec_token (ascii ''Cookie: mstshash='' @ c @ [0x0D, 0x0A] @ r) = Some ((Cookie, ascii ''Cookie: mstshash='' @ c), r)"
proof -
  define p where "p = ascii ''Cookie: mstshash=''"
  have p: "length p = 17" "0 \<notin> set p" using length_prefixes(1) by (simp_all only: p_def) (simp add: ascii_prefixes)
  then have k: "kind_of (p @ c @ [0x0D, 0x0A] @ r) = Cookie" by (simp add: kind_of_def flip: p_def)
  have "cut_token Cookie 17 (p @ c @ [0x0D, 0x0A] @ r) = Some ((Cookie, p @ c), r)"
    using p assms find_crlf_append [OF assms(1), of r] by (simp add: cut_token_def Let_def)
  then show ?thesis using k by (simp add: dec_token_def flip: p_def)
qed

lemma request_flags_correlation: "nego_request_flags n AND 8 = 0"
  by (simp add: nego_request_flags_def)

lemma dec_neg_request_data:
  assumes "\<not> refused m flags" "flags AND 8 = 0"
  shows "dec_request_body m (neg_data 1 flags v) = Some (apply_request (flags, v) m, [])"
  using assms
  by (simp add: dec_request_body_def dec_neg_request_def neg_data_def neg_types dec_neg_data return_p_def numeral_3_eq_3)

text \<open>A client that sends a cookie and asks for security protocols.\<close>

definition sends_cookie :: "'w rdpNego \<Rightarrow> byte list \<Rightarrow> bool" where
  "sends_cookie n c \<longleftrightarrow> ng_RoutingToken n = None \<and> map_option (take (unat (ng_CookieMaxLength n))) (ng_cookie n) = Some c \<and>
     0x0D \<notin> set c \<and> 0 \<notin> set c"

definition sends_negotiation :: "'w rdpNego \<Rightarrow> bool" where
  "sends_negotiation n \<longleftrightarrow> PROTOCOL_RDP < ng_RequestedProtocols n \<or> ng_sendNegoData n"

abbreviation request_data :: "'w rdpNego \<Rightarrow> byte list" where
  "request_data n \<equiv> if sends_negotiation n then neg_data 1 (nego_request_flags n) (ng_RequestedProtocols n) else []"

lemma sends_cookie_body:
  assumes "sends_cookie n c"
  shows "request_body n = ascii ''Cookie: mstshash='' @ c @ [0x0D, 0x0A] @ request_data n"
    "length (request_body n) = 19 + length c + (if sends_negotiation n then 8 else 0)"
proof -
  show b: "request_body n = ascii ''Cookie: mstshash='' @ c @ [0x0D, 0x0A] @ request_data n"
    using assms by (auto simp: sends_cookie_def sends_negotiation_def request_body_def token_bytes_def)
  show "length (request_body n) = 19 + length c + (if sends_negotiation n then 8 else 0)"
    unfolding b using length_prefixes(1) by simp
qed

lemma dec_request_data:
  "dec_request_body (m\<lparr>ng_cookie := k\<rparr>) (request_data n) =
    (if \<not> sends_negotiation n then Some (m\<lparr>ng_cookie := k\<rparr>, [])
     else if refused m (nego_request_flags n) then None
     else Some (apply_request (nego_request_flags n, ng_RequestedProtocols n) (m\<lparr>ng_cookie := k\<rparr>), []))"
proof -
  let ?d = "neg_data 1 (nego_request_flags n) (ng_RequestedProtocols n)"
  have r: "refused (m\<lparr>ng_cookie := k\<rparr>) (nego_request_flags n) = refused m (nego_request_flags n)" by (simp add: refused_def)
  then have "dec_request_body (m\<lparr>ng_cookie := k\<rparr>) ?d =
      Some (apply_request (nego_request_flags n, ng_RequestedProtocols n) (m\<lparr>ng_cookie := k\<rparr>), [])"
    if "\<not> refused m (nego_request_flags n)"
    using that request_flags_correlation by (intro dec_neg_request_data) simp_all
  moreover have "dec_request_body (m\<lparr>ng_cookie := k\<rparr>) ?d = None" if "refused m (nego_request_flags n)"
    using that r by (simp add: dec_request_body_def dec_neg_request_def neg_data_def)
  moreover have "dec_request_body x [] = Some (x, [])" for x :: "'a rdpNego" by (simp add: dec_request_body_def)
  ultimately show ?thesis by (simp del: apply_request.simps)
qed

lemma dec_request_bytes:
  assumes c: "sends_cookie n c" and fits: "length (request_body n) \<le> 249"
  shows "dec_request_pdu m (request_bytes n) =
    map_option fst (dec_request_body (m\<lparr>ng_cookie := Some (ascii ''Cookie: mstshash='' @ c)\<rparr>) (request_data n))"
proof -
  let ?b = "request_body n"
  let ?len = "11 + length ?b" and ?li = "word_of_nat (6 + length ?b) :: byte"
  have u: "unat ?li = 6 + length ?b" unfolding unat_of_nat using fits by simp
  have "unat (word_of_nat ?len :: 16 word) = ?len" unfolding unat_of_nat using fits by simp
  then have r: "dec_request (word_of_nat ?len) (enc_tpdu 0xE0 ?li @ ?b) = Some (?li, ?b)"
    using u by (simp add: dec_request_def dec_tpdu_enc return_p_def)
  have e: "request_bytes n = enc_tpkt ?len @ (enc_tpdu 0xE0 ?li @ ?b) @ []" by (simp add: request_bytes_def Let_def)
  have "dec_tpkt (request_bytes n) = Some (word_of_nat ?len, enc_tpdu 0xE0 ?li @ ?b)"
    unfolding e by (subst dec_tpkt_enc) (use fits in \<open>simp_all add: enc_tpdu_def\<close>)
  then have h: "bind_p dec_tpkt dec_request (request_bytes n) = Some (?li, ?b)" using r by simp
  have "dec_token ?b = Some ((Cookie, ascii ''Cookie: mstshash='' @ c), request_data n)"
    unfolding sends_cookie_body(1) [OF c] using c by (intro dec_cookie) (simp_all add: sends_cookie_def)
  with h u dec_request_data [of "Some (ascii ''Cookie: mstshash='' @ c)" m n] show ?thesis
    by (simp add: dec_request_pdu_def del: apply_request.simps)
qed

section \<open>What the server guarantees\<close>

text \<open>
  C6: Reading a request: on every stream whose buffer extends 28 bytes from its position
  \<open>nego_read_request\<close> returns, without an assertion, an endless search for CR LF or an access out of
  bounds; it accepts exactly the packets of the format, with the state that the format gives them. Only
  when memory runs out is such a packet refused.
\<close>

theorem nego_read_request_decodes:
  assumes "readable s" "s_pointer s + 28 \<le> s_capacity s"
  shows "case dec_request_pdu n (remaining s) of
      Some n' \<Rightarrow> (\<exists>t. nego_read_request malloc (s, n) = Success () (t, n') \<and> remaining t = []) \<or>
        (\<exists>k. malloc k = None) \<and> (\<exists>y. nego_read_request malloc (s, n) = Failure y)
    | None \<Rightarrow> \<exists>y. nego_read_request malloc (s, n) = Failure y"
  using nego_read_request_exact [OF assms, of malloc n] by (auto simp: serves_def split: option.splits)

text \<open>
  C8: The request of the client at the server. A client without a routing token, whose cookie holds no CR and
  no NUL and is cut to at most 255 bytes, writes its request into the 512 bytes of the code. If the cookie
  and the eight bytes of negotiation data (sent by clients that ask for more than standard security or are
  told to send them) take at most 230 bytes, the server reads that request: it stores the cookie, its
  prefix included; without negotiation data nothing else changes; flags that the server does not support
  are refused; otherwise it takes over the requested protocols and its negotiation is final. A longer
  request is never sent: the client aborts.
\<close>

theorem nego_request_round_trip:
  assumes "wf_stream s" "s_pointer s = 0" "s_capacity s = 512" "sends_cookie n c"
    and "unat (ng_CookieMaxLength n) \<le> 255" "memory_available malloc"
  shows "if length c + (if sends_negotiation n then 8 else 0) \<le> 230
    then \<exists>u. nego_write_request n s = Success () u \<and>
      (let r = nego_read_request malloc (Stream_StaticInit (written u) (length (written u)), m);
           m' = m\<lparr>ng_cookie := Some (ascii ''Cookie: mstshash='' @ c)\<rparr> in
       if \<not> sends_negotiation n then \<exists>t. r = Success () (t, m')
       else if refused m (nego_request_flags n) then \<exists>y. r = Failure y
       else \<exists>t. r = Success () (t, nego_set_state NEGO_STATE_FINAL
         ((if nego_request_flags n AND 2 \<noteq> 0 \<and> ng_RemoteCredsGuardSupported m
           then m'\<lparr>ng_RemoteCredsGuardActive := True\<rparr> else m')\<lparr>ng_RequestedProtocols := ng_RequestedProtocols n\<rparr>)))
    else nego_write_request n s = Fault AssertionFailure"
proof -
  have stored: "token_stored n" using assms(4) by (simp add: token_stored_def sends_cookie_def)
  note l = sends_cookie_body(2) [OF assms(4)]
  have c: "length c \<le> 255" using assms(4,5) by (auto simp: sends_cookie_def)
  show ?thesis
  proof (cases "length c + (if sends_negotiation n then 8 else 0) \<le> 230")
    case False
    then have "nego_write_request n s = Fault AssertionFailure"
      by (intro nego_write_request_aborts) (use assms stored l c in \<open>auto split: if_splits\<close>)
    with False show ?thesis by simp
  next
    case True
    then have fits: "length (request_body n) \<le> 249" using l by simp
    with nego_write_request_ok [OF assms(1,2) _ stored] assms(3) obtain u where
      u: "nego_write_request n s = Success () u" "written u = request_bytes n" by auto
    let ?r = "Stream_StaticInit (request_bytes n) (length (request_bytes n))"
    have "30 \<le> length (request_bytes n)" "length (request_bytes n) \<le> 260"
      using l fits by (simp_all add: request_bytes_def Let_def enc_tpdu_def)
    then have r: "readable ?r" "s_pointer ?r + 28 \<le> s_capacity ?r"
      using static_readable(1) [of "request_bytes n"] by (simp_all add: Stream_StaticInit_def)
    have mem: "malloc k = None \<Longrightarrow> False" for k using assms(6) unfolding memory_available_def by blast
    from nego_read_request_exact [OF r, of malloc m] dec_request_bytes [OF assms(4) fits, of m]
      dec_request_data [of "Some (ascii ''Cookie: mstshash='' @ c)" m n] u True
    show ?thesis by (auto simp: serves_def static_readable(2) Let_def dest: mem)
  qed
qed

text \<open>
  C9: The response of the server at the client: the bytes of \<open>nego_write_response\<close> are read by
  \<open>nego_recv\<close>. A failure code ends in the state \<open>FAIL\<close> and leaves the client's selection as it was. Otherwise
  the client takes over the protocol and flags of the server; it ends in \<open>FAIL\<close> if the protocol is one of
  standard security, TLS, NLA and AAD and the client has not enabled it, and in \<open>FINAL\<close> if it has enabled it.
  Any other protocol (extended NLA, RDSTLS, unknown ones) is not compared with the enabled ones and ends
  in \<open>FINAL\<close>.
\<close>

theorem nego_response_round_trip:
  assumes "wf_stream s" "s_pointer s = 0" "260 \<le> s_capacity s"
  shows "\<exists>u t n'. nego_write_response settings m s = Success () u \<and>
    nego_recv (Stream_StaticInit (written u) (length (written u)), n) = Success () (t, n') \<and>
    (if ng_SelectedProtocol m AND PROTOCOL_FAILED_NEGO \<noteq> 0
     then ng_state n' = NEGO_STATE_FAIL \<and> ng_SelectedProtocol n' = ng_SelectedProtocol n \<and>
       (\<forall>p. ng_EnabledProtocols n' p \<longrightarrow> ng_EnabledProtocols n p)
     else n' = n\<lparr>ng_flags := ucast (nego_response_flags settings m), ng_SelectedProtocol := ng_SelectedProtocol m,
       ng_state := if ng_SelectedProtocol m \<in> {PROTOCOL_RDP, PROTOCOL_SSL, PROTOCOL_HYBRID, PROTOCOL_RDSAAD} \<and>
           \<not> ng_EnabledProtocols n (ng_SelectedProtocol m)
         then NEGO_STATE_FAIL else NEGO_STATE_FINAL\<rparr>)"
proof -
  from nego_write_response_ok [OF assms, of settings m] obtain u where
    u: "nego_write_response settings m s = Success () u" "written u = response_bytes settings m" by blast
  let ?r = "Stream_StaticInit (response_bytes settings m) (length (response_bytes settings m))"
  have "length (response_bytes settings m) = 19" by (simp add: response_bytes_def response_body_def enc_tpdu_def)
  then have r: "readable ?r" using static_readable(1) [of "response_bytes settings m"] by simp
  obtain t where "nego_recv (?r, n) = Success () (t, apply_confirm (response_confirm settings m) n)"
    using nego_recv_exact [OF r, of n] dec_response [of settings m] by (auto simp: nego_returns_def static_readable(2))
  with u show ?thesis by (auto simp: response_confirm_def acceptable_def)
qed

subsection \<open>Behaviour that the code does not intend\<close>

text \<open>
  The comparison with the 17 bytes of the cookie prefix is made as soon as 15 bytes are left: on a
  buffer that ends with the packet it reads behind the end.
\<close>

lemma nego_request_reads_past_end:
  assumes "readable s" "15 \<le> length (remaining s)" "s_capacity s < s_pointer s + 17"
  shows "nego_read_request_token_or_cookie malloc (s, n) = Fault OutOfBoundsAccess"
proof -
  have "length (drop (s_pointer s) (s_buffer s)) < length (ascii ''Cookie: mstshash='')"
    unfolding length_prefixes(1) using assms(1,3) by (auto simp: readable_def wf_stream_def)
  then have "memcmp_equal (ascii ''Cookie: mstshash='') s = Fault OutOfBoundsAccess" by (simp only: memcmp_equal_def Let_def if_True)
  then show ?thesis using assms(1,2)
    by (simp add: nego_read_request_token_or_cookie_def on_stream_bind GetRemainingLength_readable Let_def)
      (simp add: token_kind_at_def c_simps on_stream_def)
qed

text \<open>
  A confirm without negotiation data is final if standard security is enabled, and leaves the protocol
  selected by an earlier attempt in place, even one that had been refused.
\<close>

lemma nego_stale_selection:
  assumes "readable s" "remaining s = enc_tpkt 11 @ enc_tpdu 0xD0 6" "ng_EnabledProtocols n PROTOCOL_RDP"
  shows "\<exists>t. nego_recv (s, n) = Success () (t, n\<lparr>ng_state := NEGO_STATE_FINAL\<rparr>)"
proof -
  have "dec_tpkt (enc_tpkt 11 @ enc_tpdu 0xD0 6 @ []) = Some (word_of_nat 11, enc_tpdu 0xD0 6 @ [])"
    by (rule dec_tpkt_enc) (simp_all add: enc_tpdu_def)
  moreover have "dec_confirm (word_of_nat 11) (enc_tpdu 0xD0 6 @ []) = Some (6, [])"
    unfolding dec_confirm_def by (subst bind_p_Some, rule dec_tpdu_enc) simp_all
  ultimately have "dec_confirm_pdu (remaining s) = Some NegNone"
    using assms(2) by (simp add: dec_confirm_pdu_def dec_neg_def return_p_def)
  with nego_recv_exact [OF assms(1), of n] assms(3) show ?thesis by (auto simp: nego_returns_def nego_set_state_def)
qed

section \<open>Witnesses\<close>

definition sample_client :: "unit rdpNego" where
  "sample_client = (nego_new ())\<lparr>ng_cookie := Some (ascii ''user''), ng_RequestedProtocols := PROTOCOL_HYBRID\<rparr>"

definition sample_server :: "unit rdpNego" where
  "sample_server = (nego_new ())\<lparr>ng_SelectedProtocol := PROTOCOL_HYBRID\<rparr>"

lemmas sample_defs = sample_client_def sample_server_def nego_new_def nego_init_def nego_set_state_def

lemma sample_cookie: "sends_cookie sample_client (ascii ''user'')"
proof -
  have "ascii ''user'' = [117, 115, 101, 114]" by code_simp
  then show ?thesis by (simp add: sends_cookie_def sample_defs protocols)
qed

lemma sample_accepted: "\<not> refused sample_server (nego_request_flags sample_client)"
  by (simp add: refused_def nego_request_flags_def sample_defs)

lemma sample_negotiates: "sends_negotiation sample_client"
  by (simp add: sends_negotiation_def sample_defs protocols)

lemma blank_512: "wf_stream (blank 512)" "s_pointer (blank 512) = 0" "260 \<le> s_capacity (blank 512)" "s_capacity (blank 512) = 512"
  by (simp_all add: Stream_StaticInit_def wf_stream_def)

theorem nego_read_request_decodes_witness:
  "\<exists>t n'. nego_read_request calloc
      (Stream_StaticInit (request_bytes sample_client) (length (request_bytes sample_client)), sample_server) = Success () (t, n') \<and>
    ng_RequestedProtocols n' = PROTOCOL_HYBRID"
proof -
  let ?s = "Stream_StaticInit (request_bytes sample_client) (length (request_bytes sample_client))"
  have l: "length (request_body sample_client) = 31"
    using sends_cookie_body(2) [OF sample_cookie] by (simp add: sample_defs sends_negotiation_def protocols)
  then have "length (request_bytes sample_client) = 42" by (simp add: request_bytes_def Let_def enc_tpdu_def)
  then have "readable ?s" "s_pointer ?s + 28 \<le> s_capacity ?s"
    using static_readable(1) [of "request_bytes sample_client"] by (simp_all add: Stream_StaticInit_def)
  from nego_read_request_decodes [OF this, of calloc sample_server] dec_request_bytes [OF sample_cookie, of sample_server]
    dec_request_data [of "Some (ascii ''Cookie: mstshash='' @ ascii ''user'')" sample_server sample_client]
    sample_accepted sample_negotiates l
  show ?thesis by (auto simp: static_readable(2) sample_defs nego_request_flags_def)
qed

theorem nego_request_round_trip_witness:
  "\<exists>u t n'. nego_write_request sample_client (blank 512) = Success () u \<and>
    nego_read_request calloc (Stream_StaticInit (written u) (length (written u)), sample_server) = Success () (t, n') \<and>
    ng_RequestedProtocols n' = PROTOCOL_HYBRID \<and> ng_state n' = NEGO_STATE_FINAL"
proof -
  have "unat (ng_CookieMaxLength sample_client) \<le> 255" by (simp add: sample_defs)
  from nego_request_round_trip [OF blank_512(1,2,4) sample_cookie this memory_available_calloc, of sample_server]
    sample_negotiates sample_accepted
  show ?thesis by (fastforce simp: sample_defs nego_request_flags_def Let_def)
qed

theorem nego_response_round_trip_witness:
  "(\<exists>u t n'. nego_write_response default_settings sample_server (blank 512) = Success () u \<and>
     nego_recv (Stream_StaticInit (written u) (length (written u)), sample_client) = Success () (t, n') \<and>
     ng_state n' = NEGO_STATE_FAIL) \<and>
   (\<exists>u t n'. nego_write_response default_settings sample_server (blank 512) = Success () u \<and>
     nego_recv (Stream_StaticInit (written u) (length (written u)),
       sample_client\<lparr>ng_EnabledProtocols := (\<lambda>p. p = PROTOCOL_HYBRID)\<rparr>) = Success () (t, n') \<and>
     ng_state n' = NEGO_STATE_FINAL \<and> ng_SelectedProtocol n' = PROTOCOL_HYBRID)"
  using nego_response_round_trip [OF blank_512(1-3), of default_settings sample_server sample_client]
    nego_response_round_trip [OF blank_512(1-3), of default_settings sample_server
      "sample_client\<lparr>ng_EnabledProtocols := (\<lambda>p. p = PROTOCOL_HYBRID)\<rparr>"]
  by (fastforce simp: sample_defs protocols PROTOCOL_FAILED_NEGO_def)

end
