(* ===== verification/GccState.thy ===== *)
theory GccState
  imports Session
begin

text \<open>
  The state that \<open>gcc.c\<close> and \<open>mcs.c\<close> work on: the structures of \<open>libfreerdp/core/mcs.h\<close> and the
  fields of \<open>rdpSettings\<close> that the GCC data blocks read and write, the code outside of the modelled
  files as a record of functions, and the invariant that keeps the array accesses inside the arrays.
\<close>

section \<open>The MCS module (mcs.h)\<close>

record DomainParameters =
  maxChannelIds :: "32 word"
  maxUserIds :: "32 word"
  maxTokenIds :: "32 word"
  numPriorities :: "32 word"
  minThroughput :: "32 word"
  maxHeight :: "32 word"
  maxMCSPDUsize :: "32 word"
  protocolVersion :: "32 word"

record rdpMcsChannel =
  ch_Name :: "byte list"
  ch_options :: "32 word"
  ch_ChannelId :: "16 word"
  ch_joined :: bool

record CHANNEL_DEF =
  cd_name :: "byte list"
  cd_options :: "32 word"

record MONITOR_ATTRIBUTES =
  physicalWidth :: "32 word"
  physicalHeight :: "32 word"
  orientation :: "32 word"
  desktopScaleFactor :: "32 word"
  deviceScaleFactor :: "32 word"

record rdpMonitor =
  mon_x :: "32 word"
  mon_y :: "32 word"
  mon_width :: "32 word"
  mon_height :: "32 word"
  mon_is_primary :: bool
  mon_attributes :: MONITOR_ATTRIBUTES

definition CHANNEL_MAX_COUNT :: nat where "CHANNEL_MAX_COUNT = 31"
definition CHANNEL_NAME_LEN :: nat where "CHANNEL_NAME_LEN = 7"
definition MCS_BASE_CHANNEL_ID :: "16 word" where "MCS_BASE_CHANNEL_ID = 1001"
definition MCS_GLOBAL_CHANNEL_ID :: "16 word" where "MCS_GLOBAL_CHANNEL_ID = 1003"
definition MCS_Result_enum_length :: byte where "MCS_Result_enum_length = 16"

lemmas mcs_constants = CHANNEL_MAX_COUNT_def CHANNEL_NAME_LEN_def MCS_BASE_CHANNEL_ID_def MCS_GLOBAL_CHANNEL_ID_def
  MCS_Result_enum_length_def

section \<open>The settings\<close>

text \<open>The fields of one group: what the early capability flags of the core data stand for.\<close>

record early_settings =
  es_SupportErrorInfoPdu :: bool
  es_SupportStatusInfoPdu :: bool
  es_SupportAsymetricKeys :: bool
  es_HasRelativeMouseEvent :: bool
  es_NetworkAutoDetect :: bool
  es_SupportSkipChannelJoin :: bool
  es_SupportMonitorLayoutPdu :: bool
  es_SupportHeartbeatPdu :: bool
  es_SupportGraphicsPipeline :: bool
  es_SupportDynamicTimeZone :: bool
  es_SupportEdgeActionV1 :: bool
  es_SupportEdgeActionV2 :: bool

record core_settings =
  cs_RdpVersion :: "32 word"
  cs_DesktopWidth :: "32 word"
  cs_DesktopHeight :: "32 word"
  cs_KeyboardLayout :: "32 word"
  cs_ClientBuild :: "32 word"
  cs_ClientHostname :: "byte list option"
  cs_KeyboardType :: "32 word"
  cs_KeyboardSubType :: "32 word"
  cs_KeyboardFunctionKey :: "32 word"
  cs_SupportedColorDepths :: "16 word"
  cs_EarlyCapabilityFlags :: "32 word"
  cs_ClientProductId :: "byte list option"
  cs_ConnectionType :: "32 word"
  cs_SelectedProtocol :: "32 word"
  cs_RequestedProtocols :: "32 word"
  cs_DesktopPhysicalWidth :: "32 word"
  cs_DesktopPhysicalHeight :: "32 word"
  cs_DesktopOrientation :: "16 word"
  cs_DesktopScaleFactor :: "32 word"
  cs_DeviceScaleFactor :: "32 word"
  cs_ColorDepth :: "32 word"
  cs_ServerMode :: bool
  cs_TransportDumpReplay :: bool

record security_settings =
  ss_UseRdpSecurityLayer :: bool
  ss_EncryptionMethods :: "32 word"
  ss_EncryptionLevel :: "32 word"
  ss_ServerRandomLength :: "32 word"
  ss_ServerRandom :: "byte list"
  ss_ServerCertificateLength :: "32 word"
  ss_ServerCertificate :: "byte list"

record monitor_settings =
  ms_MonitorFlags :: "32 word"
  ms_MonitorCount :: "32 word"
  ms_MonitorDefArraySize :: "32 word"
  ms_MonitorDefArray :: "rdpMonitor list"
  ms_MonitorAttributeFlags :: "32 word"
  ms_HasMonitorAttributes :: bool
  ms_UseMultimon :: bool
  ms_SpanMonitors :: bool
  ms_ForceMultimon :: bool

record rdpSettings =
  st_early :: early_settings
  st_core :: core_settings
  st_security :: security_settings
  st_monitor :: monitor_settings
  st_ClusterInfoFlags :: "32 word"
  st_RedirectedSessionId :: "32 word"
  st_ConsoleSession :: bool
  st_RedirectSmartCards :: bool
  st_SmartcardLogon :: bool
  st_SupportMultitransport :: bool
  st_MultitransportFlags :: "32 word"
  st_NegFlags :: "32 word"
  st_ChannelCount :: "32 word"
  st_ChannelDefArray :: "CHANNEL_DEF list"

record 'w rdpMcs =
  mc_transport :: 'w
  mc_settings :: rdpSettings
  mc_userId :: "16 word"
  mc_baseChannelId :: "16 word"
  mc_IOChannelId :: "16 word"
  mc_messageChannelId :: "16 word"
  mc_flags :: "32 word"
  mc_domainParameters :: DomainParameters
  mc_targetParameters :: DomainParameters
  mc_minimumParameters :: DomainParameters
  mc_maximumParameters :: DomainParameters
  mc_userChannelJoined :: bool
  mc_globalChannelJoined :: bool
  mc_messageChannelJoined :: bool
  mc_channelCount :: "32 word"
  mc_channelMaxCount :: "32 word"
  mc_channels :: "rdpMcsChannel list"

section \<open>Code outside of the modelled files\<close>

text \<open>
  The allocator, \<open>ConvertWCharNToUtf8\<close> (the bytes of the string and the size of the buffer),
  \<open>ConvertUtf8ToWCharAlloc\<close>, \<open>ConvertUtf8NToWChar\<close> (the string and the size of the buffer),
  \<open>winpr_RAND\<close>, and the reader and writer of server certificates. \<open>None\<close> is failure.
\<close>

record gcc_env =
  ge_malloc :: malloc
  ge_ConvertWCharNToUtf8 :: "byte list \<Rightarrow> nat \<Rightarrow> byte list option"
  ge_ConvertUtf8ToWCharAlloc :: "byte list option \<Rightarrow> 16 word list option"
  ge_ConvertUtf8NToWChar :: "byte list \<Rightarrow> nat \<Rightarrow> 16 word list option"
  ge_RAND :: "nat \<Rightarrow> byte list"
  ge_read_server_cert :: "byte list \<Rightarrow> bool"
  ge_write_server_cert :: "(wStream, nat) cfun"

type_synonym ('w, 'a) mcs_fun = "(wStream \<times> 'w rdpMcs, 'a) cfun"

definition change_settings :: "(rdpSettings \<Rightarrow> rdpSettings) \<Rightarrow> ('w, unit) mcs_fun" where
  "change_settings g = change_state (\<lambda>m. m\<lparr>mc_settings := g (mc_settings m)\<rparr>)"

definition change_core :: "(core_settings \<Rightarrow> core_settings) \<Rightarrow> ('w, unit) mcs_fun" where
  "change_core g = change_settings (\<lambda>st. st\<lparr>st_core := g (st_core st)\<rparr>)"

definition change_security :: "(security_settings \<Rightarrow> security_settings) \<Rightarrow> ('w, unit) mcs_fun" where
  "change_security g = change_settings (\<lambda>st. st\<lparr>st_security := g (st_security st)\<rparr>)"

definition change_monitor :: "(monitor_settings \<Rightarrow> monitor_settings) \<Rightarrow> ('w, unit) mcs_fun" where
  "change_monitor g = change_settings (\<lambda>st. st\<lparr>st_monitor := g (st_monitor st)\<rparr>)"

lemmas changes = change_settings_def change_core_def change_security_def change_monitor_def

section \<open>The invariant\<close>

text \<open>
  The channel array has \<open>channelMaxCount\<close> entries of eight name bytes, of which \<open>channelCount\<close> are in
  use, and the monitor array has \<open>MonitorDefArraySize\<close> entries, of which \<open>MonitorCount\<close> are.
\<close>

definition wf_channels :: "'w rdpMcs \<Rightarrow> bool" where
  "wf_channels m \<longleftrightarrow> mc_channelMaxCount m = word_of_nat CHANNEL_MAX_COUNT \<and>
     length (mc_channels m) = CHANNEL_MAX_COUNT \<and> unat (mc_channelCount m) \<le> CHANNEL_MAX_COUNT \<and>
     (\<forall>c \<in> set (mc_channels m). length (ch_Name c) = CHANNEL_NAME_LEN + 1)"

definition wf_monitors :: "monitor_settings \<Rightarrow> bool" where
  "wf_monitors g \<longleftrightarrow> length (ms_MonitorDefArray g) = unat (ms_MonitorDefArraySize g) \<and>
     unat (ms_MonitorCount g) \<le> unat (ms_MonitorDefArraySize g)"

definition wf_mcs :: "'w rdpMcs \<Rightarrow> bool" where
  "wf_mcs m \<longleftrightarrow> wf_channels m \<and> wf_monitors (st_monitor (mc_settings m))"

text \<open>
  \<open>safe b P k f Q\<close>: on a stream with at least \<open>k\<close> unread bytes and a state with \<open>P\<close>, \<open>f\<close> does not fault and only
  moves forward inside the stream; the state that a success leaves has \<open>Q\<close>. A failure ends the connection.
  With \<open>b\<close>, the stream has no capacity behind its length, as the streams over one block do.
\<close>

definition moved :: "wStream \<Rightarrow> wStream \<Rightarrow> bool" where
  "moved s t \<longleftrightarrow> (\<exists>n \<le> length (remaining s). t = advance n s)"

definition safely :: "wStream \<Rightarrow> ('r \<Rightarrow> 'm \<Rightarrow> bool) \<Rightarrow> (wStream \<times> 'm, 'r) outcome \<Rightarrow> bool" where
  "safely s Q x \<longleftrightarrow> (case x of
     Fault e \<Rightarrow> False
   | Failure (t, m) \<Rightarrow> moved s t
   | Success v (t, m) \<Rightarrow> Q v m \<and> moved s t)"

definition safe :: "bool \<Rightarrow> ('m \<Rightarrow> bool) \<Rightarrow> nat \<Rightarrow> (wStream \<times> 'm, 'r) cfun \<Rightarrow> ('r \<Rightarrow> 'm \<Rightarrow> bool) \<Rightarrow> bool" where
  "safe b P k f Q \<longleftrightarrow> (\<forall>s m. readable s \<and> (b \<longrightarrow> s_length s = s_capacity s) \<and> k \<le> length (remaining s) \<and> P m \<longrightarrow> safely s Q (f (s, m)))"

lemma moved_here [simp]: "moved s s"
  by (auto simp: moved_def intro: exI [of _ 0])

lemma moved_advance [simp]: "n \<le> length (remaining s) \<Longrightarrow> moved s (advance n s)"
  by (auto simp: moved_def)

lemma moved_trans: "moved s t \<Longrightarrow> moved t u \<Longrightarrow> moved s u"
proof -
  assume "moved s t" "moved t u"
  then obtain i j where "i \<le> length (remaining s)" "j \<le> length (remaining s) - i" "u = advance (i + j) s"
    by (auto simp: moved_def)
  then show ?thesis by (auto simp: moved_def intro!: exI [of _ "i + j"])
qed

lemma moved_readable: "readable s \<Longrightarrow> moved s t \<Longrightarrow> readable t"
  by (auto simp: moved_def)

lemma moved_tight: "moved s t \<Longrightarrow> s_length t = s_length s \<and> s_capacity t = s_capacity s"
  by (auto simp: moved_def advance_def)

lemma safely_moved: "moved s t \<Longrightarrow> safely t Q x \<Longrightarrow> safely s Q x"
  by (auto simp: safely_def split: outcome.splits intro: moved_trans)

lemma safely_simps [simp]:
  "safely s Q (Fault e) \<longleftrightarrow> False" "safely s Q (Failure (t, m)) \<longleftrightarrow> moved s t"
  "safely s Q (Success v (t, m)) \<longleftrightarrow> Q v m \<and> moved s t"
  by (simp_all add: safely_def)

lemma safeI: "(\<And>s m. readable s \<Longrightarrow> b \<longrightarrow> s_length s = s_capacity s \<Longrightarrow> k \<le> length (remaining s) \<Longrightarrow> P m \<Longrightarrow> safely s Q (f (s, m))) \<Longrightarrow> safe b P k f Q"
  by (simp add: safe_def)

lemma safeD: "safe b P k f Q \<Longrightarrow> readable s \<Longrightarrow> b \<longrightarrow> s_length s = s_capacity s \<Longrightarrow> k \<le> length (remaining s) \<Longrightarrow> P m \<Longrightarrow> safely s Q (f (s, m))"
  by (simp add: safe_def)

lemma safe_bind:
  assumes f: "safe b P k f Q" and g: "\<And>v. safe b (Q v) 0 (g v) R"
  shows "safe b P k (bind_c f g) R"
proof (rule safeI)
  fix s m assume s: "readable s" "b \<longrightarrow> s_length s = s_capacity s" "k \<le> length (remaining s)" "P m"
  have a: "safely s Q (f (s, m))" by (rule safeD [OF f s])
  show "safely s R (bind_c f g (s, m))"
  proof (cases "f (s, m)")
    case (Success v x)
    obtain t m' where x: "x = (t, m')" by (cases x)
    with a Success have q: "Q v m'" "moved s t" by simp_all
    have "safely t R (g v (t, m'))" using moved_readable [OF s(1) q(2)] moved_tight [OF q(2)] q(1) s(2)
      by (auto intro: safeD [OF g])
    with q(2) have "safely s R (g v (t, m'))" by (rule safely_moved)
    then show ?thesis using Success x by (simp add: bind_c_def)
  next
    case (Failure x)
    then show ?thesis using a by (cases x) (simp add: bind_c_def)
  qed (use a in simp)
qed

lemma safe_mono: "safe b P k f Q \<Longrightarrow> (\<And>m. P' m \<Longrightarrow> P m) \<Longrightarrow> k \<le> k' \<Longrightarrow> (\<And>v m. Q v m \<Longrightarrow> Q' v m) \<Longrightarrow> safe b P' k' f Q'"
  unfolding safe_def safely_def by (fastforce split: outcome.splits)

lemma safe_take:
  assumes "n \<le> k" and prim: "\<And>s. readable s \<Longrightarrow> n \<le> length (remaining s) \<Longrightarrow> \<exists>v. f s = Success v (advance n s)"
    and g: "\<And>v. safe b P (k - n) (g v) R"
  shows "safe b P k (bind_c (on_stream f) g) R"
proof (rule safeI)
  fix s m assume s: "readable s" "b \<longrightarrow> s_length s = s_capacity s" "k \<le> length (remaining s)" "P m"
  with assms(1) obtain v where v: "f s = Success v (advance n s)" using prim [of s] by auto
  have r: "readable (advance n s)" "moved s (advance n s)" using s assms(1) by auto
  have "safely (advance n s) R (g v (advance n s, m))"
    by (rule safeD [OF g]) (use s assms(1) r moved_tight [OF r(2)] in simp_all)
  with r(2) have "safely s R (g v (advance n s, m))" by (rule safely_moved)
  then show "safely s R (bind_c (on_stream f) g (s, m))" by (simp add: on_stream_bind [where f = f, OF v])
qed

lemma safe_prims:
  "1 \<le> k \<Longrightarrow> (\<And>v. safe b P (k - 1) (g8 v) R) \<Longrightarrow> safe b P k (bind_c (on_stream Stream_Read_UINT8) g8) R"
  "2 \<le> k \<Longrightarrow> (\<And>v. safe b P (k - 2) (g16 v) R) \<Longrightarrow> safe b P k (bind_c (on_stream Stream_Read_UINT16) g16) R"
  "4 \<le> k \<Longrightarrow> (\<And>v. safe b P (k - 4) (g32 v) R) \<Longrightarrow> safe b P k (bind_c (on_stream Stream_Read_UINT32) g32) R"
  "n \<le> k \<Longrightarrow> (\<And>v. safe b P (k - n) (gb v) R) \<Longrightarrow> safe b P k (bind_c (on_stream (Stream_Read n)) gb) R"
  by (erule safe_take, force simp: stream_exec Suc_le_eq, simp)+

lemma safe_seek:
  assumes "n \<le> k" "safe b P (k - n) f R"
  shows "safe b P k (bind_c (on_stream (Stream_Seek n)) (\<lambda>_. f)) R"
  by (rule safe_take [OF assms(1)]) (use assms(2) remaining_le_room in \<open>force simp: stream_exec\<close>)+

lemma safe_check:
  assumes "safe b P n f R"
  shows "safe b P k (bind_c (on_stream (Stream_CheckAndLogRequiredLength n)) (\<lambda>_. f)) R"
  using assms unfolding safe_def bind_c_def on_stream_def by (simp add: stream_exec)

lemma length_of_size:
  "readable s \<Longrightarrow> 0 < sz \<Longrightarrow> Stream_CheckAndLogRequiredLengthWLogEx n sz s =
     (if n * sz \<le> length (remaining s) then Success () s else Failure s)"
  by (auto simp: Stream_CheckAndLogRequiredLengthWLogEx_def Stream_CheckAndLogRequiredLengthWLogExVa_def c_simps
      stream_exec less_eq_div_iff_mult_less_eq not_less [symmetric] div_less_iff_less_mult)

lemma safe_check_of_size:
  assumes "safe b P (n * sz) f R" "0 < sz"
  shows "safe b P k (bind_c (on_stream (Stream_CheckAndLogRequiredLengthWLogEx n sz)) (\<lambda>_. f)) R"
  using assms unfolding safe_def bind_c_def on_stream_def by (simp add: length_of_size)

lemma capacity_of_size:
  "readable s \<Longrightarrow> s_length s = s_capacity s \<Longrightarrow> 0 < sz \<Longrightarrow> Stream_CheckAndLogRequiredCapacityWLogEx n sz s =
     (if n * sz \<le> length (remaining s) then Success () s else Failure s)"
  by (auto simp: Stream_CheckAndLogRequiredCapacityWLogEx_def Stream_CheckAndLogRequiredCapacityWLogExVa_def c_simps
      stream_exec readable_def room_def length_remaining div_less_iff_less_mult not_less [symmetric])

lemma safe_check_capacity:
  assumes "safe True P (n * sz) f R" "0 < sz"
  shows "safe True P k (bind_c (on_stream (Stream_CheckAndLogRequiredCapacityWLogEx n sz)) (\<lambda>_. f)) R"
  using assms unfolding safe_def bind_c_def on_stream_def by (simp add: capacity_of_size)

lemma safe_rem:
  assumes "\<And>n. safe b P n (g n) R"
  shows "safe b P k (bind_c (on_stream Stream_GetRemainingLength) g) R"
  using assms unfolding safe_def bind_c_def on_stream_def by (simp add: stream_exec)

lemma safe_state:
  "safe b Q k f R \<Longrightarrow> (\<And>m. P m \<Longrightarrow> Q (g m)) \<Longrightarrow> safe b P k (bind_c (change_state g) (\<lambda>_. f)) R"
  "(\<And>m0. P m0 \<Longrightarrow> safe b (\<lambda>m. P m \<and> m = m0) k (h m0) R) \<Longrightarrow> safe b P k (bind_c get_state h) R"
  "(\<And>m. P m \<Longrightarrow> R () (g m)) \<Longrightarrow> safe b P k (change_state g) R"
  "safe b P k fail_c R" "(\<And>m. P m \<Longrightarrow> R v m) \<Longrightarrow> safe b P k (return_c v) R"
  by (auto simp: safe_def bind_c_def get_state_def change_state_def fail_c_def return_c_def)

lemma safe_if:
  "(c \<Longrightarrow> safe b P k f R) \<Longrightarrow> (\<not> c \<Longrightarrow> safe b P k g R) \<Longrightarrow> safe b P k (if c then f else g) R"
  by simp

lemma safe_change:
  "(\<And>m. P m \<Longrightarrow> P (g m)) \<Longrightarrow> safe b P k f R \<Longrightarrow> safe b P k (bind_c (change_state g) (\<lambda>_. f)) R"
  by (simp add: safe_def state_bind)

lemma safe_call: "safe b P 0 f (\<lambda>_. P) \<Longrightarrow> (\<And>v. safe b P 0 (g v) R) \<Longrightarrow> safe b P k (bind_c f g) R"
  by (rule safe_bind [where Q = "\<lambda>_. P"]) (simp_all add: safe_def)

lemma safe_weaken: "safe False P 0 f R \<Longrightarrow> safe b P k f R"
  by (simp add: safe_def)

text \<open>The settings outside of the monitor group are not part of the invariant.\<close>

lemma wf_mcs_settings [simp]:
  "wf_mcs (m\<lparr>mc_settings := st\<rparr>) \<longleftrightarrow> wf_channels m \<and> wf_monitors (st_monitor st)"
  "wf_mcs (m\<lparr>mc_transport := w\<rparr>) \<longleftrightarrow> wf_mcs m" "wf_mcs (m\<lparr>mc_userId := i\<rparr>) \<longleftrightarrow> wf_mcs m"
  "wf_mcs (m\<lparr>mc_baseChannelId := i\<rparr>) \<longleftrightarrow> wf_mcs m" "wf_mcs (m\<lparr>mc_IOChannelId := i\<rparr>) \<longleftrightarrow> wf_mcs m"
  "wf_mcs (m\<lparr>mc_messageChannelId := i\<rparr>) \<longleftrightarrow> wf_mcs m" "wf_mcs (m\<lparr>mc_flags := v\<rparr>) \<longleftrightarrow> wf_mcs m"
  "wf_mcs (m\<lparr>mc_domainParameters := d\<rparr>) \<longleftrightarrow> wf_mcs m" "wf_mcs (m\<lparr>mc_targetParameters := d\<rparr>) \<longleftrightarrow> wf_mcs m"
  "wf_mcs (m\<lparr>mc_minimumParameters := d\<rparr>) \<longleftrightarrow> wf_mcs m" "wf_mcs (m\<lparr>mc_maximumParameters := d\<rparr>) \<longleftrightarrow> wf_mcs m"
  by (simp_all add: wf_mcs_def wf_channels_def)

lemma wf_mcs_parts: "wf_mcs m \<Longrightarrow> wf_channels m" "wf_mcs m \<Longrightarrow> wf_monitors (st_monitor (mc_settings m))"
  by (simp_all add: wf_mcs_def)

text \<open>A reader of the lower layers.\<close>

lemma safe_reads:
  assumes "reads f p" and "\<And>m v. P m \<Longrightarrow> R v m"
  shows "safe b P k (on_stream f) R"
proof (rule safeI)
  fix s m assume s: "readable s" "P m"
  show "safely s R (on_stream f (s, m))"
  proof (cases "p (remaining s)")
    case None
    from assms(1) s(1) None obtain n where "n \<le> length (remaining s)" "f s = Failure (advance n s)" by (rule reads_None)
    then show ?thesis by (simp add: on_stream_def)
  next
    case (Some a)
    obtain v rest where "a = (v, rest)" by (cases a)
    with Some have "p (remaining s) = Some (v, rest)" by simp
    with assms(1) s(1) obtain n where "n \<le> length (remaining s)" "f s = Success v (advance n s)" by (rule reads_Some)
    then show ?thesis using assms(2) s(2) by (simp add: on_stream_def)
  qed
qed

end
