(* ===== verification/GccBlocks.thy ===== *)
theory GccBlocks
  imports GccState
begin

text \<open>
  The data blocks of \<open>libfreerdp/core/gcc.c\<close>: the client blocks (core, security, network, cluster, monitor,
  message channel, multitransport) with their readers and writers, and that every reader keeps the
  invariant of the MCS state whatever the block contains.
\<close>

section \<open>Constants\<close>

definition CS_CORE :: "16 word" where "CS_CORE = 0xC001"
definition CS_SECURITY :: "16 word" where "CS_SECURITY = 0xC002"
definition CS_NET :: "16 word" where "CS_NET = 0xC003"
definition CS_CLUSTER :: "16 word" where "CS_CLUSTER = 0xC004"
definition CS_MONITOR :: "16 word" where "CS_MONITOR = 0xC005"
definition CS_MCS_MSGCHANNEL :: "16 word" where "CS_MCS_MSGCHANNEL = 0xC006"
definition CS_MONITOR_EX :: "16 word" where "CS_MONITOR_EX = 0xC008"
definition CS_MULTITRANSPORT :: "16 word" where "CS_MULTITRANSPORT = 0xC00A"
definition CS_UNUSED1 :: "16 word" where "CS_UNUSED1 = 0xC00C"
definition SC_CORE :: "16 word" where "SC_CORE = 0x0C01"
definition SC_SECURITY :: "16 word" where "SC_SECURITY = 0x0C02"
definition SC_NET :: "16 word" where "SC_NET = 0x0C03"
definition SC_MCS_MSGCHANNEL :: "16 word" where "SC_MCS_MSGCHANNEL = 0x0C04"
definition SC_MULTITRANSPORT :: "16 word" where "SC_MULTITRANSPORT = 0x0C08"

lemmas block_types = CS_CORE_def CS_SECURITY_def CS_NET_def CS_CLUSTER_def CS_MONITOR_def CS_MCS_MSGCHANNEL_def
  CS_MONITOR_EX_def CS_MULTITRANSPORT_def CS_UNUSED1_def SC_CORE_def SC_SECURITY_def SC_NET_def
  SC_MCS_MSGCHANNEL_def SC_MULTITRANSPORT_def

definition RNS_UD_CS_SUPPORT_ERRINFO_PDU :: "32 word" where "RNS_UD_CS_SUPPORT_ERRINFO_PDU = 0x0001"
definition RNS_UD_CS_WANT_32BPP_SESSION :: "32 word" where "RNS_UD_CS_WANT_32BPP_SESSION = 0x0002"
definition RNS_UD_CS_SUPPORT_STATUSINFO_PDU :: "32 word" where "RNS_UD_CS_SUPPORT_STATUSINFO_PDU = 0x0004"
definition RNS_UD_CS_STRONG_ASYMMETRIC_KEYS :: "32 word" where "RNS_UD_CS_STRONG_ASYMMETRIC_KEYS = 0x0008"
definition RNS_UD_CS_RELATIVE_MOUSE_INPUT :: "32 word" where "RNS_UD_CS_RELATIVE_MOUSE_INPUT = 0x0010"
definition RNS_UD_CS_VALID_CONNECTION_TYPE :: "32 word" where "RNS_UD_CS_VALID_CONNECTION_TYPE = 0x0020"
definition RNS_UD_CS_SUPPORT_MONITOR_LAYOUT_PDU :: "32 word" where "RNS_UD_CS_SUPPORT_MONITOR_LAYOUT_PDU = 0x0040"
definition RNS_UD_CS_SUPPORT_NETCHAR_AUTODETECT :: "32 word" where "RNS_UD_CS_SUPPORT_NETCHAR_AUTODETECT = 0x0080"
definition RNS_UD_CS_SUPPORT_DYNVC_GFX_PROTOCOL :: "32 word" where "RNS_UD_CS_SUPPORT_DYNVC_GFX_PROTOCOL = 0x0100"
definition RNS_UD_CS_SUPPORT_DYNAMIC_TIME_ZONE :: "32 word" where "RNS_UD_CS_SUPPORT_DYNAMIC_TIME_ZONE = 0x0200"
definition RNS_UD_CS_SUPPORT_HEARTBEAT_PDU :: "32 word" where "RNS_UD_CS_SUPPORT_HEARTBEAT_PDU = 0x0400"
definition RNS_UD_CS_SUPPORT_SKIP_CHANNELJOIN :: "32 word" where "RNS_UD_CS_SUPPORT_SKIP_CHANNELJOIN = 0x0800"
definition RNS_UD_SC_EDGE_ACTIONS_SUPPORTED_V1 :: "32 word" where "RNS_UD_SC_EDGE_ACTIONS_SUPPORTED_V1 = 1"
definition RNS_UD_SC_DYNAMIC_DST_SUPPORTED :: "32 word" where "RNS_UD_SC_DYNAMIC_DST_SUPPORTED = 2"
definition RNS_UD_SC_EDGE_ACTIONS_SUPPORTED_V2 :: "32 word" where "RNS_UD_SC_EDGE_ACTIONS_SUPPORTED_V2 = 4"
definition RNS_UD_SC_SKIP_CHANNELJOIN_SUPPORTED :: "32 word" where "RNS_UD_SC_SKIP_CHANNELJOIN_SUPPORTED = 8"

lemmas early_flags = RNS_UD_CS_SUPPORT_ERRINFO_PDU_def RNS_UD_CS_WANT_32BPP_SESSION_def
  RNS_UD_CS_SUPPORT_STATUSINFO_PDU_def RNS_UD_CS_STRONG_ASYMMETRIC_KEYS_def RNS_UD_CS_RELATIVE_MOUSE_INPUT_def
  RNS_UD_CS_VALID_CONNECTION_TYPE_def RNS_UD_CS_SUPPORT_MONITOR_LAYOUT_PDU_def
  RNS_UD_CS_SUPPORT_NETCHAR_AUTODETECT_def RNS_UD_CS_SUPPORT_DYNVC_GFX_PROTOCOL_def
  RNS_UD_CS_SUPPORT_DYNAMIC_TIME_ZONE_def RNS_UD_CS_SUPPORT_HEARTBEAT_PDU_def RNS_UD_CS_SUPPORT_SKIP_CHANNELJOIN_def
  RNS_UD_SC_EDGE_ACTIONS_SUPPORTED_V1_def RNS_UD_SC_DYNAMIC_DST_SUPPORTED_def RNS_UD_SC_EDGE_ACTIONS_SUPPORTED_V2_def
  RNS_UD_SC_SKIP_CHANNELJOIN_SUPPORTED_def

definition RNS_UD_COLOR_4BPP :: "16 word" where "RNS_UD_COLOR_4BPP = 0xCA00"
definition RNS_UD_COLOR_8BPP :: "16 word" where "RNS_UD_COLOR_8BPP = 0xCA01"
definition RNS_UD_COLOR_16BPP_555 :: "16 word" where "RNS_UD_COLOR_16BPP_555 = 0xCA02"
definition RNS_UD_COLOR_16BPP_565 :: "16 word" where "RNS_UD_COLOR_16BPP_565 = 0xCA03"
definition RNS_UD_COLOR_24BPP :: "16 word" where "RNS_UD_COLOR_24BPP = 0xCA04"
definition RNS_UD_SAS_DEL :: "16 word" where "RNS_UD_SAS_DEL = 0xAA03"
definition RDP_VERSION_10_12 :: "32 word" where "RDP_VERSION_10_12 = 0x00080011"
definition REDIRECTION_SUPPORTED :: "32 word" where "REDIRECTION_SUPPORTED = 1"
definition REDIRECTED_SESSIONID_FIELD_VALID :: "32 word" where "REDIRECTED_SESSIONID_FIELD_VALID = 2"
definition REDIRECTED_SMARTCARD :: "32 word" where "REDIRECTED_SMARTCARD = 0x40"
definition REDIRECTION_VERSION5 :: "32 word" where "REDIRECTION_VERSION5 = 4"
definition REDIRECTION_VERSION6 :: "32 word" where "REDIRECTION_VERSION6 = 5"
definition MONITOR_PRIMARY :: "32 word" where "MONITOR_PRIMARY = 1"

definition ENCRYPTION_METHOD_NONE :: "32 word" where "ENCRYPTION_METHOD_NONE = 0"
definition ENCRYPTION_METHOD_40BIT :: "32 word" where "ENCRYPTION_METHOD_40BIT = 1"
definition ENCRYPTION_METHOD_128BIT :: "32 word" where "ENCRYPTION_METHOD_128BIT = 2"
definition ENCRYPTION_METHOD_56BIT :: "32 word" where "ENCRYPTION_METHOD_56BIT = 8"
definition ENCRYPTION_METHOD_FIPS :: "32 word" where "ENCRYPTION_METHOD_FIPS = 16"
definition ENCRYPTION_LEVEL_NONE :: "32 word" where "ENCRYPTION_LEVEL_NONE = 0"
definition ENCRYPTION_LEVEL_LOW :: "32 word" where "ENCRYPTION_LEVEL_LOW = 1"
definition ENCRYPTION_LEVEL_CLIENT_COMPATIBLE :: "32 word" where "ENCRYPTION_LEVEL_CLIENT_COMPATIBLE = 2"
definition ENCRYPTION_LEVEL_HIGH :: "32 word" where "ENCRYPTION_LEVEL_HIGH = 3"
definition ENCRYPTION_LEVEL_FIPS :: "32 word" where "ENCRYPTION_LEVEL_FIPS = 4"

section \<open>Headers of the blocks\<close>

definition gcc_read_user_data_header :: "(wStream, 16 word \<times> 16 word) cfun" where
  "gcc_read_user_data_header =
     bind_c (Stream_CheckAndLogRequiredLength 4) (\<lambda>_.
     bind_c Stream_Read_UINT16 (\<lambda>type.
     bind_c Stream_Read_UINT16 (\<lambda>len.
     if len < 4 then fail_c
     else bind_c (Stream_CheckAndLogRequiredLength (unat (len - 4))) (\<lambda>_. return_c (type, len)))))"

definition gcc_write_user_data_header :: "malloc \<Rightarrow> 16 word \<Rightarrow> 16 word \<Rightarrow> (wStream, unit) cfun" where
  "gcc_write_user_data_header malloc type len =
     bind_c (Stream_EnsureRemainingCapacity malloc (4 + unat len)) (\<lambda>_.
     bind_c (Stream_Write_UINT16 type) (\<lambda>_. Stream_Write_UINT16 len))"

section \<open>Core data\<close>

definition rdp_version_common :: "32 word \<Rightarrow> 32 word \<Rightarrow> 32 word" where
  "rdp_version_common serverVersion clientVersion = min serverVersion clientVersion"

definition ColorDepthToHighColor :: "32 word \<Rightarrow> 16 word" where
  "ColorDepthToHighColor bpp =
     (if bpp = 4 then 4 else if bpp = 8 then 8 else if bpp = 15 then 15 else if bpp = 16 then 16 else 24)"

definition filterAndLogEarlyServerCapabilityFlags :: "32 word \<Rightarrow> 32 word" where
  "filterAndLogEarlyServerCapabilityFlags flags =
     flags AND (RNS_UD_SC_EDGE_ACTIONS_SUPPORTED_V1 OR RNS_UD_SC_DYNAMIC_DST_SUPPORTED OR
       RNS_UD_SC_EDGE_ACTIONS_SUPPORTED_V2 OR RNS_UD_SC_SKIP_CHANNELJOIN_SUPPORTED)"

definition flag_if :: "bool \<Rightarrow> 32 word \<Rightarrow> 32 word" where
  "flag_if b f = (if b then f else 0)"

definition earlyServerCapsFromSettings :: "early_settings \<Rightarrow> 32 word" where
  "earlyServerCapsFromSettings e = filterAndLogEarlyServerCapabilityFlags (
     flag_if (es_SupportEdgeActionV1 e) RNS_UD_SC_EDGE_ACTIONS_SUPPORTED_V1 OR
     flag_if (es_SupportDynamicTimeZone e) RNS_UD_SC_DYNAMIC_DST_SUPPORTED OR
     flag_if (es_SupportEdgeActionV2 e) RNS_UD_SC_EDGE_ACTIONS_SUPPORTED_V2 OR
     flag_if (es_SupportSkipChannelJoin e) RNS_UD_SC_SKIP_CHANNELJOIN_SUPPORTED)"

definition early_client_mask :: "32 word" where
  "early_client_mask = RNS_UD_CS_SUPPORT_ERRINFO_PDU OR RNS_UD_CS_WANT_32BPP_SESSION OR
     RNS_UD_CS_SUPPORT_STATUSINFO_PDU OR RNS_UD_CS_STRONG_ASYMMETRIC_KEYS OR
     RNS_UD_CS_RELATIVE_MOUSE_INPUT OR RNS_UD_CS_VALID_CONNECTION_TYPE OR
     RNS_UD_CS_SUPPORT_MONITOR_LAYOUT_PDU OR RNS_UD_CS_SUPPORT_NETCHAR_AUTODETECT OR
     RNS_UD_CS_SUPPORT_DYNVC_GFX_PROTOCOL OR RNS_UD_CS_SUPPORT_DYNAMIC_TIME_ZONE OR
     RNS_UD_CS_SUPPORT_HEARTBEAT_PDU OR RNS_UD_CS_SUPPORT_SKIP_CHANNELJOIN"

definition filterAndLogEarlyClientCapabilityFlags :: "32 word \<Rightarrow> ('s, 16 word) cfun" where
  "filterAndLogEarlyClientCapabilityFlags flags =
     bind_c (assert_c (flags AND early_client_mask \<le> 0xFFFF)) (\<lambda>_. return_c (ucast (flags AND early_client_mask)))"

definition earlyClientCapsFromSettings :: "rdpSettings \<Rightarrow> ('s, 16 word) cfun" where
  "earlyClientCapsFromSettings st = (let e = st_early st; c = st_core st in
     filterAndLogEarlyClientCapabilityFlags (
       flag_if (es_SupportErrorInfoPdu e) RNS_UD_CS_SUPPORT_ERRINFO_PDU OR
       flag_if (cs_ColorDepth c = 32) RNS_UD_CS_WANT_32BPP_SESSION OR
       flag_if (es_SupportStatusInfoPdu e) RNS_UD_CS_SUPPORT_STATUSINFO_PDU OR
       flag_if (cs_ConnectionType c \<noteq> 0) RNS_UD_CS_VALID_CONNECTION_TYPE OR
       flag_if (es_SupportMonitorLayoutPdu e) RNS_UD_CS_SUPPORT_MONITOR_LAYOUT_PDU OR
       flag_if (es_NetworkAutoDetect e) RNS_UD_CS_SUPPORT_NETCHAR_AUTODETECT OR
       flag_if (es_SupportGraphicsPipeline e) RNS_UD_CS_SUPPORT_DYNVC_GFX_PROTOCOL OR
       flag_if (es_SupportDynamicTimeZone e) RNS_UD_CS_SUPPORT_DYNAMIC_TIME_ZONE OR
       flag_if (es_SupportHeartbeatPdu e) RNS_UD_CS_SUPPORT_HEARTBEAT_PDU OR
       flag_if (es_SupportAsymetricKeys e) RNS_UD_CS_STRONG_ASYMMETRIC_KEYS OR
       flag_if (es_HasRelativeMouseEvent e) RNS_UD_CS_RELATIVE_MOUSE_INPUT OR
       flag_if (es_SupportSkipChannelJoin e) RNS_UD_CS_SUPPORT_SKIP_CHANNELJOIN))"

definition updateEarlyClientCaps :: "32 word \<Rightarrow> 32 word \<Rightarrow> ('w, unit) mcs_fun" where
  "updateEarlyClientCaps flags connectionType =
     bind_c (change_settings (\<lambda>st.
       let e = st_early st; has = (\<lambda>f. flags AND f \<noteq> 0) in
       st\<lparr>st_early := e\<lparr>
            es_SupportErrorInfoPdu := es_SupportErrorInfoPdu e \<and> has RNS_UD_CS_SUPPORT_ERRINFO_PDU,
            es_SupportStatusInfoPdu := es_SupportStatusInfoPdu e \<and> has RNS_UD_CS_SUPPORT_STATUSINFO_PDU,
            es_SupportAsymetricKeys := es_SupportAsymetricKeys e \<and> has RNS_UD_CS_STRONG_ASYMMETRIC_KEYS,
            es_HasRelativeMouseEvent := es_HasRelativeMouseEvent e \<and>
              cs_RdpVersion (st_core st) \<ge> RDP_VERSION_10_12 \<and> has RNS_UD_CS_RELATIVE_MOUSE_INPUT,
            es_NetworkAutoDetect := es_NetworkAutoDetect e \<and> has RNS_UD_CS_SUPPORT_NETCHAR_AUTODETECT,
            es_SupportSkipChannelJoin := es_SupportSkipChannelJoin e \<and> has RNS_UD_CS_SUPPORT_SKIP_CHANNELJOIN,
            es_SupportMonitorLayoutPdu := es_SupportMonitorLayoutPdu e \<and> has RNS_UD_CS_SUPPORT_MONITOR_LAYOUT_PDU,
            es_SupportHeartbeatPdu := es_SupportHeartbeatPdu e \<and> has RNS_UD_CS_SUPPORT_HEARTBEAT_PDU,
            es_SupportGraphicsPipeline := es_SupportGraphicsPipeline e \<and> has RNS_UD_CS_SUPPORT_DYNVC_GFX_PROTOCOL,
            es_SupportDynamicTimeZone := es_SupportDynamicTimeZone e \<and> has RNS_UD_CS_SUPPORT_DYNAMIC_TIME_ZONE\<rparr>,
          st_core := (st_core st)\<lparr>cs_ConnectionType :=
            if has RNS_UD_CS_VALID_CONNECTION_TYPE then connectionType else 0\<rparr>\<rparr>)) (\<lambda>_.
     bind_c (filterAndLogEarlyClientCapabilityFlags flags) (\<lambda>_. return_c ()))"

definition updateEarlyServerCaps :: "32 word \<Rightarrow> ('w, unit) mcs_fun" where
  "updateEarlyServerCaps flags =
     change_settings (\<lambda>st. let e = st_early st; has = (\<lambda>f. flags AND f \<noteq> 0) in
       st\<lparr>st_early := e\<lparr>
         es_SupportEdgeActionV1 := es_SupportEdgeActionV1 e \<and> has RNS_UD_SC_EDGE_ACTIONS_SUPPORTED_V1,
         es_SupportDynamicTimeZone := es_SupportDynamicTimeZone e \<and> has RNS_UD_SC_DYNAMIC_DST_SUPPORTED,
         es_SupportEdgeActionV2 := es_SupportEdgeActionV2 e \<and> has RNS_UD_SC_EDGE_ACTIONS_SUPPORTED_V2,
         es_SupportSkipChannelJoin := es_SupportSkipChannelJoin e \<and> has RNS_UD_SC_SKIP_CHANNELJOIN_SUPPORTED\<rparr>\<rparr>)"

definition Stream_Read_UTF16_String_As_UTF8_Buffer :: "gcc_env \<Rightarrow> nat \<Rightarrow> nat \<Rightarrow> (wStream, byte list) cfun" where
  "Stream_Read_UTF16_String_As_UTF8_Buffer env wcharLength utfBufferCharLength =
     bind_c Stream_ConstPointer (\<lambda>ptr.
     if wcharLength > (SIZE_MOD - 1) div 2 then fail_c
     else
       bind_c (Stream_CheckAndLogRequiredLength (wcharLength * 2)) (\<lambda>_.
       bind_c (Stream_Seek (wcharLength * 2)) (\<lambda>_.
       case ge_ConvertWCharNToUtf8 env (take (wcharLength * 2) ptr) utfBufferCharLength of
         None \<Rightarrow> fail_c
       | Some str \<Rightarrow> return_c str)))"

text \<open>\<open>freerdp_settings_set_string\<close> frees the old string and duplicates the new one.\<close>

definition settings_set_string :: "gcc_env \<Rightarrow> (byte list option \<Rightarrow> core_settings \<Rightarrow> core_settings) \<Rightarrow> byte list \<Rightarrow>
    ('w, unit) mcs_fun" where
  "settings_set_string env setter str =
     (case ge_malloc env (length str + 1) of
        None \<Rightarrow> bind_c (change_core (setter None)) (\<lambda>_. fail_c)
      | Some _ \<Rightarrow> change_core (setter (Some str)))"

text \<open>
  The optional fields of the core data stand in a \<open>do \<dots> while (0)\<close> that is left by the first length check that
  fails, with the local variables as they are then.
\<close>

definition or_break :: "nat \<Rightarrow> 'v \<Rightarrow> ('w, 'v) mcs_fun \<Rightarrow> ('w, 'v) mcs_fun" where
  "or_break n vars body = (\<lambda>(s, m). case Stream_CheckAndLogRequiredLength n s of
     Fault e \<Rightarrow> Fault e
   | Failure s' \<Rightarrow> Success vars (s', m)
   | Success _ s' \<Rightarrow> body (s', m))"

definition gcc_core_display :: "16 word \<times> 16 word \<times> byte \<Rightarrow> ('w, 16 word \<times> 16 word \<times> byte) mcs_fun" where
  "gcc_core_display vars =
     or_break 1 vars (bind_c (on_stream (Stream_Seek 1)) (\<lambda>_.
     or_break 4 vars (bind_c (on_stream Stream_Read_UINT32) (\<lambda>serverSelectedProtocol.
     or_break 4 vars (bind_c (on_stream Stream_Read_UINT32) (\<lambda>w.
     bind_c (change_core (\<lambda>c. c\<lparr>cs_DesktopPhysicalWidth := w\<rparr>)) (\<lambda>_.
     or_break 4 vars (bind_c (on_stream Stream_Read_UINT32) (\<lambda>h.
     bind_c (change_core (\<lambda>c. c\<lparr>cs_DesktopPhysicalHeight := h\<rparr>)) (\<lambda>_.
     or_break 2 vars (bind_c (on_stream Stream_Read_UINT16) (\<lambda>d.
     bind_c (change_core (\<lambda>c. c\<lparr>cs_DesktopOrientation := d\<rparr>)) (\<lambda>_.
     or_break 4 vars (bind_c (on_stream Stream_Read_UINT32) (\<lambda>x.
     bind_c (change_core (\<lambda>c. c\<lparr>cs_DesktopScaleFactor := x\<rparr>)) (\<lambda>_.
     or_break 4 vars (bind_c (on_stream Stream_Read_UINT32) (\<lambda>y.
     bind_c (change_core (\<lambda>c. c\<lparr>cs_DeviceScaleFactor := y\<rparr>)) (\<lambda>_.
     bind_c get_state (\<lambda>m.
     if cs_TransportDumpReplay (st_core (mc_settings m)) then
       bind_c (change_core (\<lambda>c. c\<lparr>cs_SelectedProtocol := serverSelectedProtocol\<rparr>)) (\<lambda>_. return_c vars)
     else if cs_SelectedProtocol (st_core (mc_settings m)) \<noteq> serverSelectedProtocol then fail_c
     else return_c vars))))))))))))))))))))"

definition gcc_core_optional :: "gcc_env \<Rightarrow> ('w, 16 word \<times> 16 word \<times> byte) mcs_fun" where
  "gcc_core_optional env =
     or_break 2 (0, 0, 0) (bind_c (on_stream Stream_Read_UINT16) (\<lambda>postBeta2ColorDepth.
     or_break 2 (postBeta2ColorDepth, 0, 0) (bind_c (on_stream Stream_Read_UINT16) (\<lambda>clientProductId.
     or_break 4 (postBeta2ColorDepth, 0, 0) (bind_c (on_stream Stream_Read_UINT32) (\<lambda>serialNumber.
     or_break 2 (postBeta2ColorDepth, 0, 0) (bind_c (on_stream Stream_Read_UINT16) (\<lambda>highColorDepth.
     or_break 2 (postBeta2ColorDepth, highColorDepth, 0) (bind_c (on_stream Stream_Read_UINT16) (\<lambda>depths.
     bind_c (change_core (\<lambda>c. c\<lparr>cs_SupportedColorDepths := depths\<rparr>)) (\<lambda>_.
     or_break 2 (postBeta2ColorDepth, highColorDepth, 0) (bind_c (on_stream Stream_Read_UINT16) (\<lambda>flags.
     bind_c (change_core (\<lambda>c. c\<lparr>cs_EarlyCapabilityFlags := ucast flags\<rparr>)) (\<lambda>_.
     or_break 64 (postBeta2ColorDepth, highColorDepth, 0)
       (bind_c (on_stream (Stream_Read_UTF16_String_As_UTF8_Buffer env 32 130)) (\<lambda>str.
     bind_c (settings_set_string env (\<lambda>v c. c\<lparr>cs_ClientProductId := v\<rparr>) str) (\<lambda>_.
     or_break 1 (postBeta2ColorDepth, highColorDepth, 0) (bind_c (on_stream Stream_Read_UINT8) (\<lambda>connectionType.
     gcc_core_display (postBeta2ColorDepth, highColorDepth, connectionType))))))))))))))))))))"

definition client_color_depth :: "32 word \<Rightarrow> 16 word \<Rightarrow> 16 word \<Rightarrow> 16 word \<Rightarrow> 32 word option" where
  "client_color_depth flags highColorDepth postBeta2ColorDepth colorDepth =
     (if highColorDepth > 0 then
        Some (if flags AND RNS_UD_CS_WANT_32BPP_SESSION \<noteq> 0 then 32 else ucast highColorDepth)
      else if postBeta2ColorDepth > 0 then
        (if postBeta2ColorDepth = RNS_UD_COLOR_4BPP then Some 4
         else if postBeta2ColorDepth = RNS_UD_COLOR_8BPP then Some 8
         else if postBeta2ColorDepth = RNS_UD_COLOR_16BPP_555 then Some 15
         else if postBeta2ColorDepth = RNS_UD_COLOR_16BPP_565 then Some 16
         else if postBeta2ColorDepth = RNS_UD_COLOR_24BPP then Some 24
         else None)
      else if colorDepth = RNS_UD_COLOR_4BPP then Some 4
      else if colorDepth = RNS_UD_COLOR_8BPP then Some 8
      else None)"

definition gcc_core_finish :: "16 word \<Rightarrow> 16 word \<times> 16 word \<times> byte \<Rightarrow> ('w, unit) mcs_fun" where
  "gcc_core_finish colorDepth = (\<lambda>(postBeta2ColorDepth, highColorDepth, connectionType).
     bind_c get_state (\<lambda>m. let c = st_core (mc_settings m) in
     case client_color_depth (cs_EarlyCapabilityFlags c) highColorDepth postBeta2ColorDepth colorDepth of
       None \<Rightarrow> fail_c
     | Some clientColorDepth \<Rightarrow>
         bind_c (change_core (\<lambda>c. if clientColorDepth < cs_ColorDepth c \<or> \<not> cs_ServerMode c
           then c\<lparr>cs_ColorDepth := clientColorDepth\<rparr> else c)) (\<lambda>_.
         updateEarlyClientCaps (cs_EarlyCapabilityFlags c) (ucast connectionType))))"

definition gcc_read_client_core_data :: "gcc_env \<Rightarrow> ('w, unit) mcs_fun" where
  "gcc_read_client_core_data env =
     bind_c (on_stream (Stream_CheckAndLogRequiredLength 128)) (\<lambda>_.
     bind_c (on_stream Stream_Read_UINT32) (\<lambda>version.
     bind_c (change_core (\<lambda>c. c\<lparr>cs_RdpVersion := rdp_version_common version (cs_RdpVersion c)\<rparr>)) (\<lambda>_.
     bind_c (on_stream Stream_Read_UINT16) (\<lambda>w.
     bind_c (change_core (\<lambda>c. c\<lparr>cs_DesktopWidth := ucast w\<rparr>)) (\<lambda>_.
     bind_c (on_stream Stream_Read_UINT16) (\<lambda>h.
     bind_c (change_core (\<lambda>c. c\<lparr>cs_DesktopHeight := ucast h\<rparr>)) (\<lambda>_.
     bind_c (on_stream Stream_Read_UINT16) (\<lambda>colorDepth.
     bind_c (on_stream (Stream_Seek 2)) (\<lambda>_.
     bind_c (on_stream Stream_Read_UINT32) (\<lambda>layout.
     bind_c (change_core (\<lambda>c. c\<lparr>cs_KeyboardLayout := layout\<rparr>)) (\<lambda>_.
     bind_c (on_stream Stream_Read_UINT32) (\<lambda>build.
     bind_c (change_core (\<lambda>c. c\<lparr>cs_ClientBuild := build\<rparr>)) (\<lambda>_.
     bind_c (on_stream (Stream_Read_UTF16_String_As_UTF8_Buffer env 16 130)) (\<lambda>str.
     bind_c (settings_set_string env (\<lambda>v c. c\<lparr>cs_ClientHostname := v\<rparr>) str) (\<lambda>_.
     bind_c (on_stream Stream_Read_UINT32) (\<lambda>kt.
     bind_c (change_core (\<lambda>c. c\<lparr>cs_KeyboardType := kt\<rparr>)) (\<lambda>_.
     bind_c (on_stream Stream_Read_UINT32) (\<lambda>ks.
     bind_c (change_core (\<lambda>c. c\<lparr>cs_KeyboardSubType := ks\<rparr>)) (\<lambda>_.
     bind_c (on_stream Stream_Read_UINT32) (\<lambda>kf.
     bind_c (change_core (\<lambda>c. c\<lparr>cs_KeyboardFunctionKey := kf\<rparr>)) (\<lambda>_.
     bind_c (on_stream (Stream_Seek 64)) (\<lambda>_.
     bind_c (gcc_core_optional env) (gcc_core_finish colorDepth)))))))))))))))))))))))"

definition Stream_Write_UTF16_String_From_UTF8 :: "gcc_env \<Rightarrow> nat \<Rightarrow> byte list \<Rightarrow> bool \<Rightarrow> (wStream, nat) cfun" where
  "Stream_Write_UTF16_String_From_UTF8 env wcharLength src fill =
     bind_c
       (if src \<noteq> [] then
          bind_c (Stream_CheckAndLogRequiredCapacityEx wcharLength 2) (\<lambda>_.
          case ge_ConvertUtf8NToWChar env src wcharLength of
            None \<Rightarrow> fail_c
          | Some str \<Rightarrow> bind_c (Stream_Write (concat (map le16 str))) (\<lambda>_. return_c (length str)))
        else return_c 0) (\<lambda>rc.
     bind_c (if fill then Stream_Zero ((wcharLength - rc) * 2) else return_c ()) (\<lambda>_. return_c rc))"

definition client_name_field :: "16 word list option \<Rightarrow> 16 word list" where
  "client_name_field name = (case name of None \<Rightarrow> []
     | Some ws \<Rightarrow> if length ws \<ge> 16 then (take 16 ws)[15 := 0] else ws)"

definition gcc_write_client_core_data :: "gcc_env \<Rightarrow> rdpSettings \<Rightarrow> (wStream, unit) cfun" where
  "gcc_write_client_core_data env st = (let c = st_core st in
     bind_c (gcc_write_user_data_header (ge_malloc env) CS_CORE 234) (\<lambda>_.
     bind_c (Stream_Write_UINT32 (cs_RdpVersion c)) (\<lambda>_.
     bind_c (assert_c (cs_DesktopWidth c \<le> 0xFFFF)) (\<lambda>_.
     bind_c (Stream_Write_UINT16 (ucast (cs_DesktopWidth c))) (\<lambda>_.
     bind_c (assert_c (cs_DesktopHeight c \<le> 0xFFFF)) (\<lambda>_.
     bind_c (Stream_Write_UINT16 (ucast (cs_DesktopHeight c))) (\<lambda>_.
     bind_c (Stream_Write_UINT16 RNS_UD_COLOR_8BPP) (\<lambda>_.
     bind_c (Stream_Write_UINT16 RNS_UD_SAS_DEL) (\<lambda>_.
     bind_c (Stream_Write_UINT32 (cs_KeyboardLayout c)) (\<lambda>_.
     bind_c (Stream_Write_UINT32 (cs_ClientBuild c)) (\<lambda>_.
     bind_c (Stream_EnsureRemainingCapacity (ge_malloc env) (32 + 12 + 64 + 8)) (\<lambda>_.
     let clientName = client_name_field (ge_ConvertUtf8ToWCharAlloc env (cs_ClientHostname c)) in
     bind_c (Stream_Write (concat (map le16 clientName))) (\<lambda>_.
     bind_c (Stream_Zero (32 - length clientName * 2)) (\<lambda>_.
     bind_c (Stream_Write_UINT32 (cs_KeyboardType c)) (\<lambda>_.
     bind_c (Stream_Write_UINT32 (cs_KeyboardSubType c)) (\<lambda>_.
     bind_c (Stream_Write_UINT32 (cs_KeyboardFunctionKey c)) (\<lambda>_.
     bind_c (Stream_Zero 64) (\<lambda>_.
     bind_c (Stream_Write_UINT16 RNS_UD_COLOR_8BPP) (\<lambda>_.
     bind_c (Stream_Write_UINT16 1) (\<lambda>_.
     bind_c (Stream_Write_UINT32 0) (\<lambda>_.
     bind_c (earlyClientCapsFromSettings st) (\<lambda>earlyCapabilityFlags.
     bind_c (assert_c (cs_ConnectionType c \<le> 0xFF)) (\<lambda>_.
     bind_c (Stream_EnsureRemainingCapacity (ge_malloc env) 6) (\<lambda>_.
     bind_c (Stream_Write_UINT16 (ColorDepthToHighColor (cs_ColorDepth c))) (\<lambda>_.
     bind_c (Stream_Write_UINT16 (cs_SupportedColorDepths c)) (\<lambda>_.
     bind_c (Stream_Write_UINT16 earlyCapabilityFlags) (\<lambda>_.
     bind_c (Stream_EnsureRemainingCapacity (ge_malloc env) (64 + 24)) (\<lambda>_.
     bind_c (case cs_ClientProductId c of
         Some str \<Rightarrow> bind_c (Stream_Write_UTF16_String_From_UTF8 env 32 (take 32 str) True) (\<lambda>_. return_c ())
       | None \<Rightarrow> Stream_Zero 64) (\<lambda>_.
     bind_c (Stream_Write_UINT8 (ucast (cs_ConnectionType c))) (\<lambda>_.
     bind_c (Stream_Write_UINT8 0) (\<lambda>_.
     bind_c (Stream_Write_UINT32 (cs_SelectedProtocol c)) (\<lambda>_.
     bind_c (Stream_Write_UINT32 (cs_DesktopPhysicalWidth c)) (\<lambda>_.
     bind_c (Stream_Write_UINT32 (cs_DesktopPhysicalHeight c)) (\<lambda>_.
     bind_c (Stream_Write_UINT16 (cs_DesktopOrientation c)) (\<lambda>_.
     bind_c (Stream_Write_UINT32 (cs_DesktopScaleFactor c)) (\<lambda>_.
     Stream_Write_UINT32 (cs_DeviceScaleFactor c)))))))))))))))))))))))))))))))))))))"

definition gcc_read_server_core_data :: "('w, unit) mcs_fun" where
  "gcc_read_server_core_data =
     bind_c (on_stream (Stream_CheckAndLogRequiredLength 4)) (\<lambda>_.
     bind_c (on_stream Stream_Read_UINT32) (\<lambda>serverVersion.
     bind_c (change_core (\<lambda>c. c\<lparr>cs_RdpVersion := rdp_version_common serverVersion (cs_RdpVersion c)\<rparr>)) (\<lambda>_.
     bind_c (on_stream Stream_GetRemainingLength) (\<lambda>rem.
     bind_c (if rem \<ge> 4 then bind_c (on_stream Stream_Read_UINT32) (\<lambda>v.
         change_core (\<lambda>c. c\<lparr>cs_RequestedProtocols := v\<rparr>)) else return_c ()) (\<lambda>_.
     bind_c (on_stream Stream_GetRemainingLength) (\<lambda>rem.
     bind_c (if rem \<ge> 4 then bind_c (on_stream Stream_Read_UINT32) (\<lambda>v.
         change_core (\<lambda>c. c\<lparr>cs_EarlyCapabilityFlags := v\<rparr>)) else return_c ()) (\<lambda>_.
     bind_c get_state (\<lambda>m. updateEarlyServerCaps (cs_EarlyCapabilityFlags (st_core (mc_settings m)))))))))))"

definition gcc_write_server_core_data :: "malloc \<Rightarrow> rdpSettings \<Rightarrow> (wStream, unit) cfun" where
  "gcc_write_server_core_data malloc st =
     bind_c (gcc_write_user_data_header malloc SC_CORE 16) (\<lambda>_.
     bind_c (Stream_Write_UINT32 (cs_RdpVersion (st_core st))) (\<lambda>_.
     bind_c (Stream_Write_UINT32 (cs_RequestedProtocols (st_core st))) (\<lambda>_.
     Stream_Write_UINT32 (earlyServerCapsFromSettings (st_early st)))))"

section \<open>Security data\<close>

definition gcc_read_client_security_data :: "('w, unit) mcs_fun" where
  "gcc_read_client_security_data =
     bind_c (on_stream (Stream_CheckAndLogRequiredLength 8)) (\<lambda>_.
     bind_c get_state (\<lambda>m.
     if ss_UseRdpSecurityLayer (st_security (mc_settings m)) then
       bind_c (on_stream Stream_Read_UINT32) (\<lambda>methods.
       bind_c (change_security (\<lambda>c. c\<lparr>ss_EncryptionMethods := methods\<rparr>)) (\<lambda>_.
       if methods = ENCRYPTION_METHOD_NONE then
         bind_c (on_stream Stream_Read_UINT32) (\<lambda>ext. change_security (\<lambda>c. c\<lparr>ss_EncryptionMethods := ext\<rparr>))
       else bind_c (on_stream (Stream_Seek 4)) (\<lambda>_. return_c ())))
     else bind_c (on_stream (Stream_Seek 8)) (\<lambda>_. return_c ())))"

definition gcc_write_client_security_data :: "malloc \<Rightarrow> security_settings \<Rightarrow> (wStream, unit) cfun" where
  "gcc_write_client_security_data malloc c =
     bind_c (gcc_write_user_data_header malloc CS_SECURITY 12) (\<lambda>_.
     if ss_UseRdpSecurityLayer c then
       bind_c (Stream_Write_UINT32 (ss_EncryptionMethods c)) (\<lambda>_. Stream_Write_UINT32 0)
     else
       bind_c (Stream_Write_UINT32 0) (\<lambda>_. Stream_Write_UINT32 (ss_EncryptionMethods c)))"

text \<open>\<open>freerdp_settings_set_pointer_len (settings, id, NULL, len)\<close> for the two buffers of the security data.\<close>

definition settings_alloc :: "gcc_env \<Rightarrow> (byte list \<Rightarrow> 32 word \<Rightarrow> security_settings \<Rightarrow> security_settings) \<Rightarrow> 32 word \<Rightarrow>
    ('w, unit) mcs_fun" where
  "settings_alloc env setter len =
     bind_c (change_security (setter [] 0)) (\<lambda>_.
     if len = 0 then return_c ()
     else case ge_malloc env (unat len) of
       None \<Rightarrow> fail_c
     | Some _ \<Rightarrow> change_security (setter (replicate (unat len) 0) len))"

definition set_server_random :: "byte list \<Rightarrow> 32 word \<Rightarrow> security_settings \<Rightarrow> security_settings" where
  "set_server_random bs len c = c\<lparr>ss_ServerRandom := bs, ss_ServerRandomLength := len\<rparr>"

definition set_server_certificate :: "byte list \<Rightarrow> 32 word \<Rightarrow> security_settings \<Rightarrow> security_settings" where
  "set_server_certificate bs len c = c\<lparr>ss_ServerCertificate := bs, ss_ServerCertificateLength := len\<rparr>"

text \<open>The \<open>goto fail\<close> of a function that cleans up before it returns \<open>FALSE\<close>.\<close>

definition cleanup :: "('m \<Rightarrow> 'm) \<Rightarrow> (wStream \<times> 'm, 'r) cfun \<Rightarrow> (wStream \<times> 'm, 'r) cfun" where
  "cleanup g f x = (case f x of Failure (s, m) \<Rightarrow> Failure (s, g m) | r \<Rightarrow> r)"

definition valid_crypto_config :: "32 word \<Rightarrow> 32 word \<Rightarrow> bool" where
  "valid_crypto_config level method =
     (if level = ENCRYPTION_LEVEL_NONE then method = ENCRYPTION_METHOD_NONE
      else if level = ENCRYPTION_LEVEL_FIPS then method = ENCRYPTION_METHOD_FIPS
      else if level = ENCRYPTION_LEVEL_LOW \<or> level = ENCRYPTION_LEVEL_HIGH \<or>
              level = ENCRYPTION_LEVEL_CLIENT_COMPATIBLE
      then method = ENCRYPTION_METHOD_40BIT \<or> method = ENCRYPTION_METHOD_56BIT \<or>
           method = ENCRYPTION_METHOD_128BIT \<or> method = ENCRYPTION_METHOD_FIPS
      else False)"

definition gcc_read_server_keys :: "gcc_env \<Rightarrow> ('w, unit) mcs_fun" where
  "gcc_read_server_keys env =
     bind_c (on_stream (Stream_CheckAndLogRequiredLength 8)) (\<lambda>_.
     bind_c (on_stream Stream_Read_UINT32) (\<lambda>rlen.
     bind_c (change_security (\<lambda>c. c\<lparr>ss_ServerRandomLength := rlen\<rparr>)) (\<lambda>_.
     bind_c (on_stream Stream_Read_UINT32) (\<lambda>clen.
     bind_c (change_security (\<lambda>c. c\<lparr>ss_ServerCertificateLength := clen\<rparr>)) (\<lambda>_.
     if rlen = 0 \<or> clen = 0 then fail_c
     else
       bind_c (on_stream (Stream_CheckAndLogRequiredLength (unat rlen))) (\<lambda>_.
       cleanup (\<lambda>m. m\<lparr>mc_settings := (mc_settings m)\<lparr>st_security :=
           set_server_certificate [] 0 (set_server_random [] 0 (st_security (mc_settings m)))\<rparr>\<rparr>) (
         bind_c (settings_alloc env set_server_random rlen) (\<lambda>_.
         bind_c (on_stream (Stream_Read (unat rlen))) (\<lambda>random.
         bind_c (change_security (\<lambda>c. c\<lparr>ss_ServerRandom := random\<rparr>)) (\<lambda>_.
         bind_c (on_stream (Stream_CheckAndLogRequiredLength (unat clen))) (\<lambda>_.
         bind_c (settings_alloc env set_server_certificate clen) (\<lambda>_.
         bind_c (on_stream (Stream_Read (unat clen))) (\<lambda>cert.
         bind_c (change_security (\<lambda>c. c\<lparr>ss_ServerCertificate := cert\<rparr>)) (\<lambda>_.
         if ge_read_server_cert env cert then return_c () else fail_c))))))))))))))"

definition gcc_read_server_security_data :: "gcc_env \<Rightarrow> ('w, unit) mcs_fun" where
  "gcc_read_server_security_data env =
     bind_c (on_stream (Stream_CheckAndLogRequiredLength 8)) (\<lambda>_.
     bind_c (on_stream Stream_Read_UINT32) (\<lambda>method.
     bind_c (on_stream Stream_Read_UINT32) (\<lambda>level.
     if method \<notin> {ENCRYPTION_METHOD_NONE, ENCRYPTION_METHOD_40BIT, ENCRYPTION_METHOD_56BIT,
         ENCRYPTION_METHOD_128BIT, ENCRYPTION_METHOD_FIPS} then fail_c
     else
       bind_c (change_security (\<lambda>c. c\<lparr>ss_EncryptionMethods := method, ss_EncryptionLevel := level\<rparr>)) (\<lambda>_.
       if \<not> valid_crypto_config level method then fail_c
       else if level = ENCRYPTION_LEVEL_NONE then
         change_security (\<lambda>c. c\<lparr>ss_UseRdpSecurityLayer := False\<rparr>)
       else gcc_read_server_keys env))))"

definition gcc_update_server_random :: "gcc_env \<Rightarrow> ('w, unit) mcs_fun" where
  "gcc_update_server_random env =
     bind_c (settings_alloc env set_server_random 32) (\<lambda>_.
     change_security (\<lambda>c. c\<lparr>ss_ServerRandom := ge_RAND env 32\<rparr>))"

definition get_position :: "(wStream, nat) cfun" where
  "get_position s = Success (Stream_GetPosition s) s"

definition gcc_write_server_security_body :: "gcc_env \<Rightarrow> security_settings \<Rightarrow> (wStream, unit) cfun" where
  "gcc_write_server_security_body env c =
     bind_c get_position (\<lambda>posHeader.
     bind_c (gcc_write_user_data_header (ge_malloc env) SC_SECURITY 12) (\<lambda>_.
     bind_c (Stream_Write_UINT32 (ss_EncryptionMethods c)) (\<lambda>_.
     bind_c (Stream_Write_UINT32 (ss_EncryptionLevel c)) (\<lambda>_.
     if ss_EncryptionMethods c = ENCRYPTION_METHOD_NONE then return_c ()
     else
       bind_c (Stream_EnsureRemainingCapacity (ge_malloc env) (4 + unat (ss_ServerRandomLength c))) (\<lambda>_.
       bind_c (Stream_Write_UINT32 (ss_ServerRandomLength c)) (\<lambda>_.
       bind_c get_position (\<lambda>posCertLen.
       bind_c (Stream_Seek 4) (\<lambda>_.
       bind_c (Stream_Write (ss_ServerRandom c)) (\<lambda>_.
       bind_c (ge_write_server_cert env) (\<lambda>len.
       bind_c get_position (\<lambda>pos.
       bind_c (assert_c (pos \<ge> posHeader)) (\<lambda>_.
       bind_c (assert_c (pos - posHeader \<le> 0xFFFF)) (\<lambda>_.
       bind_c (ignoring (Stream_SetPosition posHeader)) (\<lambda>_.
       bind_c (gcc_write_user_data_header (ge_malloc env) SC_SECURITY (word_of_nat (pos - posHeader))) (\<lambda>_.
       bind_c (ignoring (Stream_SetPosition posCertLen)) (\<lambda>_.
       bind_c (assert_c (len \<le> 0xFFFFFFFF)) (\<lambda>_.
       bind_c (Stream_Write_UINT32 (word_of_nat len)) (\<lambda>_.
       ignoring (Stream_SetPosition pos)))))))))))))))))))"

definition gcc_write_server_security_data :: "gcc_env \<Rightarrow> ('w, unit) mcs_fun" where
  "gcc_write_server_security_data env =
     bind_c (gcc_update_server_random env) (\<lambda>_.
     bind_c get_state (\<lambda>m. on_stream (gcc_write_server_security_body env (st_security (mc_settings m)))))"

section \<open>Network data\<close>

text \<open>\<open>mcs->channels[i]\<close>, read and written.\<close>

definition at_channel :: "nat \<Rightarrow> (rdpMcsChannel \<Rightarrow> rdpMcsChannel) \<Rightarrow> ('w, unit) mcs_fun" where
  "at_channel i g = (\<lambda>(s, m).
     if i < length (mc_channels m)
     then Success () (s, m\<lparr>mc_channels := (mc_channels m)[i := g (mc_channels m ! i)]\<rparr>)
     else Fault OutOfBoundsAccess)"

definition channel :: "'w rdpMcs \<Rightarrow> nat \<Rightarrow> ('s, rdpMcsChannel) cfun" where
  "channel m i = (if i < length (mc_channels m) then return_c (mc_channels m ! i) else (\<lambda>_. Fault OutOfBoundsAccess))"

text \<open>\<open>mcs->baseChannelId++\<close>\<close>

definition next_channel_id :: "('w, 16 word) mcs_fun" where
  "next_channel_id = (\<lambda>(s, m). Success (mc_baseChannelId m) (s, m\<lparr>mc_baseChannelId := mc_baseChannelId m + 1\<rparr>))"

primrec gcc_read_channel_defs :: "nat \<Rightarrow> nat \<Rightarrow> ('w, unit) mcs_fun" where
  "gcc_read_channel_defs 0 i = return_c ()"
| "gcc_read_channel_defs (Suc n) i =
     bind_c (on_stream (Stream_Read (CHANNEL_NAME_LEN + 1))) (\<lambda>name.
     bind_c (at_channel i (\<lambda>c. c\<lparr>ch_Name := name\<rparr>)) (\<lambda>_.
     if 0 \<notin> set name then fail_c
     else
       bind_c (on_stream Stream_Read_UINT32) (\<lambda>options.
       bind_c (at_channel i (\<lambda>c. c\<lparr>ch_options := options\<rparr>)) (\<lambda>_.
       bind_c next_channel_id (\<lambda>id.
       bind_c (at_channel i (\<lambda>c. c\<lparr>ch_ChannelId := id\<rparr>)) (\<lambda>_.
       gcc_read_channel_defs n (Suc i)))))))"

definition gcc_read_client_network_data :: "('w, unit) mcs_fun" where
  "gcc_read_client_network_data =
     bind_c (on_stream (Stream_CheckAndLogRequiredLength 4)) (\<lambda>_.
     bind_c (on_stream Stream_Read_UINT32) (\<lambda>count.
     bind_c (change_state (\<lambda>m. m\<lparr>mc_channelCount := count\<rparr>)) (\<lambda>_.
     bind_c (on_stream (Stream_CheckAndLogRequiredLengthWLogEx (unat count) 12)) (\<lambda>_.
     if unat count > CHANNEL_MAX_COUNT then fail_c
     else gcc_read_channel_defs (unat count) 0))))"

primrec gcc_write_channel_defs :: "'w rdpMcs \<Rightarrow> nat \<Rightarrow> nat \<Rightarrow> (wStream, unit) cfun" where
  "gcc_write_channel_defs m 0 i = return_c ()"
| "gcc_write_channel_defs m (Suc n) i =
     bind_c (channel m i) (\<lambda>c.
     bind_c (Stream_Write (ch_Name c)) (\<lambda>_.
     bind_c (Stream_Write_UINT32 (ch_options c)) (\<lambda>_.
     gcc_write_channel_defs m n (Suc i))))"

definition gcc_write_client_network_data :: "malloc \<Rightarrow> 'w rdpMcs \<Rightarrow> (wStream, unit) cfun" where
  "gcc_write_client_network_data malloc m =
     (if mc_channelCount m > 0 then
        bind_c (assert_c (mc_channelCount m * 12 + 8 \<le> 0xFFFF)) (\<lambda>_.
        bind_c (gcc_write_user_data_header malloc CS_NET (ucast (mc_channelCount m * 12 + 8))) (\<lambda>_.
        bind_c (Stream_Write_UINT32 (mc_channelCount m)) (\<lambda>_.
        gcc_write_channel_defs m (unat (mc_channelCount m)) 0)))
      else return_c ())"

primrec gcc_read_channel_ids :: "nat \<Rightarrow> nat \<Rightarrow> ('w, unit) mcs_fun" where
  "gcc_read_channel_ids 0 i = return_c ()"
| "gcc_read_channel_ids (Suc n) i =
     bind_c (on_stream Stream_Read_UINT16) (\<lambda>id.
     bind_c (at_channel i (\<lambda>c. c\<lparr>ch_ChannelId := id\<rparr>)) (\<lambda>_.
     gcc_read_channel_ids n (Suc i)))"

definition gcc_read_server_network_data :: "('w, unit) mcs_fun" where
  "gcc_read_server_network_data =
     bind_c (on_stream (Stream_CheckAndLogRequiredLength 4)) (\<lambda>_.
     bind_c (on_stream Stream_Read_UINT16) (\<lambda>io.
     bind_c (change_state (\<lambda>m. m\<lparr>mc_IOChannelId := io\<rparr>)) (\<lambda>_.
     bind_c (on_stream Stream_Read_UINT16) (\<lambda>count.
     bind_c (change_state (\<lambda>m. if ucast count \<noteq> mc_channelCount m then m\<lparr>mc_channelCount := ucast count\<rparr> else m)) (\<lambda>_.
     bind_c (on_stream (Stream_CheckAndLogRequiredLengthWLogEx (unat count) 2)) (\<lambda>_.
     bind_c get_state (\<lambda>m.
     if mc_channelMaxCount m < ucast count then fail_c
     else
       bind_c (gcc_read_channel_ids (unat count) 0) (\<lambda>_.
       if unat count mod 2 = 1 then on_stream (Stream_SafeSeek 2) else return_c ()))))))))"

primrec gcc_write_channel_ids :: "'w rdpMcs \<Rightarrow> nat \<Rightarrow> nat \<Rightarrow> (wStream, unit) cfun" where
  "gcc_write_channel_ids m 0 i = return_c ()"
| "gcc_write_channel_ids m (Suc n) i =
     bind_c (channel m i) (\<lambda>c.
     bind_c (Stream_Write_UINT16 (ch_ChannelId c)) (\<lambda>_. gcc_write_channel_ids m n (Suc i)))"

definition gcc_write_server_network_data :: "malloc \<Rightarrow> 'w rdpMcs \<Rightarrow> (wStream, unit) cfun" where
  "gcc_write_server_network_data malloc m =
     (let count = mc_channelCount m; odd = count mod 2 = 1; payloadLen = 8 + count * 2 + (if odd then 2 else 0) in
      bind_c (assert_c (payloadLen \<le> 0xFFFF)) (\<lambda>_.
      bind_c (gcc_write_user_data_header malloc SC_NET (ucast payloadLen)) (\<lambda>_.
      bind_c (Stream_Write_UINT16 MCS_GLOBAL_CHANNEL_ID) (\<lambda>_.
      bind_c (assert_c (count \<le> 0xFFFF)) (\<lambda>_.
      bind_c (Stream_Write_UINT16 (ucast count)) (\<lambda>_.
      bind_c (gcc_write_channel_ids m (unat count) 0) (\<lambda>_.
      if odd then Stream_Write_UINT16 0 else return_c ())))))))"

section \<open>Cluster data\<close>

definition gcc_read_client_cluster_data :: "('w, unit) mcs_fun" where
  "gcc_read_client_cluster_data =
     bind_c (on_stream (Stream_CheckAndLogRequiredLength 8)) (\<lambda>_.
     bind_c (on_stream Stream_Read_UINT32) (\<lambda>flags.
     bind_c (change_settings (\<lambda>st. st\<lparr>st_ClusterInfoFlags := flags\<rparr>)) (\<lambda>_.
     bind_c (on_stream Stream_Read_UINT32) (\<lambda>redirectedSessionId.
     bind_c (change_settings (\<lambda>st. (if flags AND REDIRECTED_SESSIONID_FIELD_VALID \<noteq> 0
           then st\<lparr>st_RedirectedSessionId := redirectedSessionId\<rparr> else st)
         \<lparr>st_ConsoleSession := flags AND REDIRECTED_SESSIONID_FIELD_VALID \<noteq> 0,
          st_RedirectSmartCards := flags AND REDIRECTED_SMARTCARD \<noteq> 0\<rparr>)) (\<lambda>_.
     bind_c (on_stream Stream_GetRemainingLength) (\<lambda>rem.
     if rem > 0 then on_stream (Stream_Seek rem) else return_c ()))))))"

definition gcc_write_client_cluster_data :: "malloc \<Rightarrow> rdpSettings \<Rightarrow> (wStream, unit) cfun" where
  "gcc_write_client_cluster_data malloc st =
     (let flags = st_ClusterInfoFlags st OR
            flag_if (st_ConsoleSession st \<or> st_RedirectedSessionId st \<noteq> 0) REDIRECTED_SESSIONID_FIELD_VALID OR
            flag_if (st_RedirectSmartCards st \<and> st_SmartcardLogon st) REDIRECTED_SMARTCARD;
          flags = flags OR flag_if (flags AND REDIRECTION_SUPPORTED \<noteq> 0)
            (push_bit 2 (if st_SupportMultitransport st then REDIRECTION_VERSION6 else REDIRECTION_VERSION5))
      in
      bind_c (gcc_write_user_data_header malloc CS_CLUSTER 12) (\<lambda>_.
      bind_c (Stream_Write_UINT32 flags) (\<lambda>_.
      Stream_Write_UINT32 (st_RedirectedSessionId st))))"

section \<open>Monitor data\<close>

text \<open>\<open>settings->MonitorDefArray[i]\<close>; the coordinates are signed, and their differences wrap around.\<close>

definition at_monitor :: "nat \<Rightarrow> (rdpMonitor \<Rightarrow> rdpMonitor) \<Rightarrow> ('w, unit) mcs_fun" where
  "at_monitor i g = (\<lambda>(s, m). let a = ms_MonitorDefArray (st_monitor (mc_settings m)) in
     if i < length a
     then change_monitor (\<lambda>c. c\<lparr>ms_MonitorDefArray := a[i := g (a ! i)]\<rparr>) (s, m)
     else Fault OutOfBoundsAccess)"

definition INT32_MAX :: int where "INT32_MAX = 2147483647"

primrec gcc_read_monitors :: "nat \<Rightarrow> nat \<Rightarrow> ('w, unit) mcs_fun" where
  "gcc_read_monitors 0 i = return_c ()"
| "gcc_read_monitors (Suc n) i =
     bind_c (on_stream Stream_Read_UINT32) (\<lambda>left.
     bind_c (on_stream Stream_Read_UINT32) (\<lambda>top.
     bind_c (on_stream Stream_Read_UINT32) (\<lambda>right.
     bind_c (on_stream Stream_Read_UINT32) (\<lambda>bottom.
     bind_c (on_stream Stream_Read_UINT32) (\<lambda>flags.
     if sint left > sint right \<or> sint top > sint bottom then fail_c
     else let w = sint (right - left); h = sint (bottom - top) in
       if w \<ge> INT32_MAX \<or> h \<ge> INT32_MAX \<or> w < 0 \<or> h < 0 then fail_c
       else
         bind_c (assert_c (w + 1 \<le> INT32_MAX \<and> h + 1 \<le> INT32_MAX)) (\<lambda>_.
         bind_c (at_monitor i (\<lambda>c. c\<lparr>mon_x := left, mon_y := top, mon_width := word_of_int (w + 1),
           mon_height := word_of_int (h + 1), mon_is_primary := flags AND MONITOR_PRIMARY \<noteq> 0\<rparr>)) (\<lambda>_.
         gcc_read_monitors n (Suc i))))))))"

definition gcc_read_client_monitor_data :: "('w, unit) mcs_fun" where
  "gcc_read_client_monitor_data =
     bind_c (on_stream (Stream_CheckAndLogRequiredLength 8)) (\<lambda>_.
     bind_c (on_stream Stream_Read_UINT32) (\<lambda>flags.
     bind_c (change_monitor (\<lambda>c. c\<lparr>ms_MonitorFlags := flags\<rparr>)) (\<lambda>_.
     bind_c (on_stream Stream_Read_UINT32) (\<lambda>count.
     if count > 16 then fail_c
     else
       bind_c get_state (\<lambda>m.
       let count = min count (ms_MonitorDefArraySize (st_monitor (mc_settings m))) in
       bind_c (on_stream (Stream_CheckAndLogRequiredLengthWLogEx (unat count) 20)) (\<lambda>_.
       bind_c (change_monitor (\<lambda>c. c\<lparr>ms_MonitorCount := count\<rparr>)) (\<lambda>_.
       gcc_read_monitors (unat count) 0)))))))"

definition monitors :: "monitor_settings \<Rightarrow> ('s, rdpMonitor list) cfun" where
  "monitors c = (if unat (ms_MonitorCount c) \<le> length (ms_MonitorDefArray c)
     then return_c (take (unat (ms_MonitorCount c)) (ms_MonitorDefArray c)) else (\<lambda>_. Fault OutOfBoundsAccess))"

primrec gcc_write_monitors :: "32 word \<Rightarrow> 32 word \<Rightarrow> rdpMonitor list \<Rightarrow> (wStream, unit) cfun" where
  "gcc_write_monitors baseX baseY [] = return_c ()"
| "gcc_write_monitors baseX baseY (c # cs) =
     (let left = mon_x c - baseX; top = mon_y c - baseY;
          right = left + mon_width c - 1; bottom = top + mon_height c - 1 in
      bind_c (Stream_Write_UINT32 left) (\<lambda>_.
      bind_c (Stream_Write_UINT32 top) (\<lambda>_.
      bind_c (Stream_Write_UINT32 right) (\<lambda>_.
      bind_c (Stream_Write_UINT32 bottom) (\<lambda>_.
      bind_c (Stream_Write_UINT32 (flag_if (mon_is_primary c) MONITOR_PRIMARY)) (\<lambda>_.
      gcc_write_monitors baseX baseY cs))))))"

definition gcc_write_client_monitor_data :: "malloc \<Rightarrow> monitor_settings \<Rightarrow> (wStream, unit) cfun" where
  "gcc_write_client_monitor_data malloc c =
     (if ms_MonitorCount c > 1 then
        bind_c (assert_c (20 * ms_MonitorCount c + 12 \<le> 0xFFFF)) (\<lambda>_.
        bind_c (gcc_write_user_data_header malloc CS_MONITOR (ucast (20 * ms_MonitorCount c + 12))) (\<lambda>_.
        bind_c (Stream_Write_UINT32 (ms_MonitorFlags c)) (\<lambda>_.
        bind_c (Stream_Write_UINT32 (ms_MonitorCount c)) (\<lambda>_.
        bind_c (monitors c) (\<lambda>ms.
        case find mon_is_primary ms of
          None \<Rightarrow> gcc_write_monitors 0 0 ms
        | Some p \<Rightarrow> gcc_write_monitors (mon_x p) (mon_y p) ms)))))
      else return_c ())"

primrec gcc_read_monitor_attributes :: "nat \<Rightarrow> nat \<Rightarrow> ('w, unit) mcs_fun" where
  "gcc_read_monitor_attributes 0 i = return_c ()"
| "gcc_read_monitor_attributes (Suc n) i =
     bind_c (on_stream Stream_Read_UINT32) (\<lambda>w.
     bind_c (on_stream Stream_Read_UINT32) (\<lambda>h.
     bind_c (on_stream Stream_Read_UINT32) (\<lambda>orient.
     bind_c (on_stream Stream_Read_UINT32) (\<lambda>desktop.
     bind_c (on_stream Stream_Read_UINT32) (\<lambda>device.
     bind_c (at_monitor i (\<lambda>c. c\<lparr>mon_attributes := \<lparr>physicalWidth = w, physicalHeight = h, orientation = orient,
       desktopScaleFactor = desktop, deviceScaleFactor = device\<rparr>\<rparr>)) (\<lambda>_.
     gcc_read_monitor_attributes n (Suc i)))))))"

definition gcc_read_client_monitor_extended_data :: "('w, unit) mcs_fun" where
  "gcc_read_client_monitor_extended_data =
     bind_c (on_stream (Stream_CheckAndLogRequiredLength 12)) (\<lambda>_.
     bind_c (on_stream Stream_Read_UINT32) (\<lambda>flags.
     bind_c (change_monitor (\<lambda>c. c\<lparr>ms_MonitorAttributeFlags := flags\<rparr>)) (\<lambda>_.
     bind_c (on_stream Stream_Read_UINT32) (\<lambda>sz.
     bind_c (on_stream Stream_Read_UINT32) (\<lambda>count.
     if sz \<noteq> 20 then fail_c
     else
       bind_c (on_stream (Stream_CheckAndLogRequiredCapacityWLogEx (unat count) (unat sz))) (\<lambda>_.
       bind_c get_state (\<lambda>m.
       if ms_MonitorCount (st_monitor (mc_settings m)) \<noteq> count then fail_c
       else
         bind_c (change_monitor (\<lambda>c. c\<lparr>ms_HasMonitorAttributes := True\<rparr>)) (\<lambda>_.
         gcc_read_monitor_attributes (unat count) 0))))))))"

primrec gcc_write_monitor_attributes :: "rdpMonitor list \<Rightarrow> (wStream, unit) cfun" where
  "gcc_write_monitor_attributes [] = return_c ()"
| "gcc_write_monitor_attributes (c # cs) =
     bind_c (Stream_Write_UINT32 (physicalWidth (mon_attributes c))) (\<lambda>_.
     bind_c (Stream_Write_UINT32 (physicalHeight (mon_attributes c))) (\<lambda>_.
     bind_c (Stream_Write_UINT32 (orientation (mon_attributes c))) (\<lambda>_.
     bind_c (Stream_Write_UINT32 (desktopScaleFactor (mon_attributes c))) (\<lambda>_.
     bind_c (Stream_Write_UINT32 (deviceScaleFactor (mon_attributes c))) (\<lambda>_.
     gcc_write_monitor_attributes cs)))))"

definition gcc_write_client_monitor_extended_data :: "malloc \<Rightarrow> monitor_settings \<Rightarrow> (wStream, unit) cfun" where
  "gcc_write_client_monitor_extended_data malloc c =
     (if ms_HasMonitorAttributes c then
        bind_c (assert_c (20 * ms_MonitorCount c + 16 \<le> 0xFFFF)) (\<lambda>_.
        bind_c (gcc_write_user_data_header malloc CS_MONITOR_EX (ucast (20 * ms_MonitorCount c + 16))) (\<lambda>_.
        bind_c (Stream_Write_UINT32 (ms_MonitorAttributeFlags c)) (\<lambda>_.
        bind_c (Stream_Write_UINT32 20) (\<lambda>_.
        bind_c (Stream_Write_UINT32 (ms_MonitorCount c)) (\<lambda>_.
        bind_c (monitors c) gcc_write_monitor_attributes)))))
      else return_c ())"

section \<open>Message channel and multitransport data\<close>

definition gcc_read_client_message_channel_data :: "('w, unit) mcs_fun" where
  "gcc_read_client_message_channel_data =
     bind_c (on_stream (Stream_CheckAndLogRequiredLength 4)) (\<lambda>_.
     bind_c (on_stream Stream_Read_UINT32) (\<lambda>flags.
     bind_c (change_state (\<lambda>m. m\<lparr>mc_flags := flags\<rparr>)) (\<lambda>_.
     bind_c next_channel_id (\<lambda>id.
     change_state (\<lambda>m. m\<lparr>mc_messageChannelId := id\<rparr>)))))"

definition gcc_write_client_message_channel_data :: "malloc \<Rightarrow> 'w rdpMcs \<Rightarrow> (wStream, unit) cfun" where
  "gcc_write_client_message_channel_data malloc m =
     (if es_NetworkAutoDetect (st_early (mc_settings m)) \<or> es_SupportHeartbeatPdu (st_early (mc_settings m)) \<or>
         st_SupportMultitransport (mc_settings m) then
        bind_c (gcc_write_user_data_header malloc CS_MCS_MSGCHANNEL 8) (\<lambda>_. Stream_Write_UINT32 (mc_flags m))
      else return_c ())"

definition gcc_read_server_message_channel_data :: "('w, unit) mcs_fun" where
  "gcc_read_server_message_channel_data =
     bind_c (on_stream (Stream_CheckAndLogRequiredLength 2)) (\<lambda>_.
     bind_c (on_stream Stream_Read_UINT16) (\<lambda>id.
     change_state (\<lambda>m. m\<lparr>mc_messageChannelId := id\<rparr>)))"

definition gcc_write_server_message_channel_data :: "malloc \<Rightarrow> 'w rdpMcs \<Rightarrow> (wStream, unit) cfun" where
  "gcc_write_server_message_channel_data malloc m =
     (if mc_messageChannelId m = 0 then return_c ()
      else bind_c (gcc_write_user_data_header malloc SC_MCS_MSGCHANNEL 6) (\<lambda>_.
        Stream_Write_UINT16 (mc_messageChannelId m)))"

definition gcc_read_client_multitransport_channel_data :: "('w, unit) mcs_fun" where
  "gcc_read_client_multitransport_channel_data =
     bind_c (on_stream (Stream_CheckAndLogRequiredLength 4)) (\<lambda>_.
     bind_c (on_stream Stream_Read_UINT32) (\<lambda>remoteFlags.
     change_settings (\<lambda>st. st\<lparr>st_MultitransportFlags := st_MultitransportFlags st AND remoteFlags\<rparr>)))"

definition gcc_write_client_multitransport_channel_data :: "malloc \<Rightarrow> rdpSettings \<Rightarrow> (wStream, unit) cfun" where
  "gcc_write_client_multitransport_channel_data malloc st =
     bind_c (gcc_write_user_data_header malloc CS_MULTITRANSPORT 8) (\<lambda>_.
     Stream_Write_UINT32 (st_MultitransportFlags st))"

definition gcc_read_server_multitransport_channel_data :: "('w, unit) mcs_fun" where
  "gcc_read_server_multitransport_channel_data =
     bind_c (on_stream (Stream_CheckAndLogRequiredLength 4)) (\<lambda>_.
     bind_c (on_stream Stream_Read_UINT32) (\<lambda>remoteFlags.
     change_settings (\<lambda>st. st\<lparr>st_MultitransportFlags := st_MultitransportFlags st AND remoteFlags\<rparr>)))"

definition gcc_write_server_multitransport_channel_data :: "malloc \<Rightarrow> rdpSettings \<Rightarrow> (wStream, unit) cfun" where
  "gcc_write_server_multitransport_channel_data malloc st =
     bind_c (gcc_write_user_data_header malloc SC_MULTITRANSPORT 8) (\<lambda>_.
     Stream_Write_UINT32 (st_MultitransportFlags st))"

definition gcc_read_client_unused1_data :: "(wStream, unit) cfun" where
  "gcc_read_client_unused1_data = Stream_SafeSeek 2"

section \<open>The readers keep the invariant\<close>

lemma safe_get:
  "(\<And>m0. P m0 \<Longrightarrow> safe b P k (h m0) R) \<Longrightarrow> safe b P k (bind_c get_state h) R"
  by (simp add: safe_def state_bind)

lemma safe_last:
  fixes R :: "'r \<Rightarrow> 'm \<Rightarrow> bool"
  shows "safe b P k fail_c R" "(\<And>m. P m \<Longrightarrow> R v m) \<Longrightarrow> safe b P k (return_c v) R"
  by (auto simp: safe_def fail_c_def return_c_def)

lemma safe_or_break:
  assumes "safe b P n body R" "\<And>m. P m \<Longrightarrow> R vars m"
  shows "safe b P k (or_break n vars body) R"
  using assms by (auto simp: safe_def or_break_def stream_exec)

lemma safe_cleanup: "safe b P k f R \<Longrightarrow> safe b P k (cleanup g f) R"
  by (fastforce simp: safe_def safely_def cleanup_def split: outcome.splits)

lemma safe_utf16:
  assumes "wcharLength * 2 \<le> k" "wcharLength \<le> (SIZE_MOD - 1) div 2"
    "\<And>str. safe b P (k - wcharLength * 2) (g str) R"
  shows "safe b P k (bind_c (on_stream (Stream_Read_UTF16_String_As_UTF8_Buffer env wcharLength sz)) g) R"
proof (rule safeI)
  fix s m assume s: "readable s" "b \<longrightarrow> s_length s = s_capacity s" "k \<le> length (remaining s)" "P m"
  let ?n = "wcharLength * 2" and ?f = "Stream_Read_UTF16_String_As_UTF8_Buffer env wcharLength sz"
  have n: "?n \<le> length (remaining s)" using s assms(1) by simp
  define p where "p = take ?n (drop (s_pointer s) (s_buffer s))"
  have f: "?f s = (case ge_ConvertWCharNToUtf8 env p sz of
      None \<Rightarrow> Failure (advance ?n s) | Some str \<Rightarrow> Success str (advance ?n s))"
    using s(1) n assms(2) remaining_le_room [of s]
    by (simp add: Stream_Read_UTF16_String_As_UTF8_Buffer_def bind_c_def Stream_ConstPointer_def stream_exec
        fail_c_def return_c_def p_def split: option.splits)
  have r: "readable (advance ?n s)" "moved s (advance ?n s)" using s n by auto
  show "safely s R (bind_c (on_stream ?f) g (s, m))"
  proof (cases "ge_ConvertWCharNToUtf8 env p sz")
    case None
    then show ?thesis using f r by (simp add: bind_c_def on_stream_def)
  next
    case (Some str)
    have "safely (advance ?n s) R (g str (advance ?n s, m))"
      by (rule safeD [OF assms(3)]) (use s r moved_tight [OF r(2)] in simp_all)
    then show ?thesis using f r Some safely_moved [OF r(2)] by (simp add: bind_c_def on_stream_def)
  qed
qed

lemma wf_core: "wf_mcs m \<Longrightarrow> wf_mcs (m\<lparr>mc_settings := (mc_settings m)\<lparr>st_core := c\<rparr>\<rparr>)"
  "wf_mcs m \<Longrightarrow> wf_mcs (m\<lparr>mc_settings := (mc_settings m)\<lparr>st_security := d\<rparr>\<rparr>)"
  by (simp_all add: wf_mcs_def wf_channels_def)

lemma safe_string:
  assumes "safe b wf_mcs k f R"
  shows "safe b wf_mcs k (bind_c (settings_set_string env setter str) (\<lambda>_. f)) R"
proof (cases "ge_malloc env (length str + 1)")
  case None
  then show ?thesis unfolding settings_set_string_def changes
    by (simp add: bind_c_assoc) (rule safe_change, simp add: wf_mcs_parts, simp add: safe_def bind_c_def fail_c_def)
next
  case (Some a)
  then show ?thesis unfolding settings_set_string_def changes
    by simp (rule safe_change, simp_all add: wf_mcs_parts assms)
qed

lemma safe_alloc:
  assumes "safe b wf_mcs k f R"
  shows "safe b wf_mcs k (bind_c (settings_alloc env setter len) (\<lambda>_. f)) R"
  unfolding settings_alloc_def changes bind_c_assoc
proof (rule safe_change, simp add: wf_mcs_parts)
  show "safe b wf_mcs k (bind_c (if len = 0 then return_c () else case ge_malloc env (unat len) of None \<Rightarrow> fail_c
      | Some _ \<Rightarrow> change_state (\<lambda>m. m\<lparr>mc_settings := (mc_settings m)\<lparr>st_security :=
          setter (replicate (unat len) 0) len (st_security (mc_settings m))\<rparr>\<rparr>)) (\<lambda>_. f)) R"
  proof (cases "len = 0 \<or> ge_malloc env (unat len) = None")
    case True
    then show ?thesis using assms by (auto simp: c_simps safe_def bind_c_def fail_c_def return_c_def)
  next
    case False
    then show ?thesis by auto (rule safe_change, simp_all add: wf_mcs_parts assms)
  qed
qed

lemmas safe_intros = safe_prims safe_seek safe_check safe_check_of_size safe_rem safe_get safe_change safe_or_break
  safe_cleanup safe_utf16 safe_string safe_alloc safe_if safe_state(3) safe_last

lemmas wf_simps = Let_def wf_core wf_mcs_parts

lemma safe_client_core_optional: "safe b wf_mcs k (gcc_core_optional env) (\<lambda>_. wf_mcs)"
  unfolding gcc_core_optional_def gcc_core_display_def changes
  by (rule safe_intros | (simp add: wf_simps; fail))+

lemma safe_client_caps: "safe b wf_mcs k (updateEarlyClientCaps flags t) (\<lambda>_. wf_mcs)"
proof -
  have m: "early_client_mask \<le> 0xFFF" by (simp add: early_client_mask_def early_flags)
  have "flags AND early_client_mask \<le> early_client_mask" by (rule word_and_le1)
  with m have "flags AND early_client_mask \<le> 0xFFFF" by (simp add: word_le_nat_alt)
  then show ?thesis unfolding updateEarlyClientCaps_def filterAndLogEarlyClientCapabilityFlags_def changes
    by (intro safe_change) (simp_all add: wf_simps safe_def c_simps)
qed

lemma safe_case_option:
  "(x = None \<Longrightarrow> safe b P k f R) \<Longrightarrow> (\<And>v. x = Some v \<Longrightarrow> safe b P k (g v) R) \<Longrightarrow>
     safe b P k (case x of None \<Rightarrow> f | Some v \<Rightarrow> g v) R"
  by (cases x) simp_all

lemma safe_client_core: "safe b wf_mcs k (gcc_read_client_core_data env) (\<lambda>_. wf_mcs)"
proof -
  have f: "safe b wf_mcs 0 (gcc_core_finish colorDepth v) (\<lambda>_. wf_mcs)" for colorDepth v
    unfolding gcc_core_finish_def changes Let_def split_beta
    by (rule safe_intros safe_case_option safe_client_caps | (simp add: wf_simps; fail))+
  show ?thesis unfolding gcc_read_client_core_data_def changes
    by (rule safe_intros safe_call [OF safe_client_core_optional f] | (simp add: wf_simps; fail))+
qed

lemma safe_server_core: "safe b wf_mcs k gcc_read_server_core_data (\<lambda>_. wf_mcs)"
proof -
  have o: "safe b wf_mcs n (bind_c (if 4 \<le> n then bind_c (on_stream Stream_Read_UINT32) (\<lambda>v.
      change_state (\<lambda>m. m\<lparr>mc_settings := (mc_settings m)\<lparr>st_core := g v (st_core (mc_settings m))\<rparr>\<rparr>)) else return_c ())
      (\<lambda>_. f)) R" if "safe b wf_mcs 0 f R" for n g R and f :: "('a, 'r) mcs_fun"
  proof (rule safe_bind [where Q = "\<lambda>_. wf_mcs"])
    show "safe b wf_mcs n (if 4 \<le> n then bind_c (on_stream Stream_Read_UINT32) (\<lambda>v.
        change_state (\<lambda>m. m\<lparr>mc_settings := (mc_settings m)\<lparr>st_core := g v (st_core (mc_settings m))\<rparr>\<rparr>))
        else return_c ()) (\<lambda>_. wf_mcs)"
      by (rule safe_intros | (simp add: wf_simps; fail))+
  qed (rule that)
  show ?thesis unfolding gcc_read_server_core_data_def updateEarlyServerCaps_def changes Let_def
    by (rule o safe_intros | (simp add: wf_simps; fail))+
qed

lemma safe_client_security: "safe b wf_mcs k gcc_read_client_security_data (\<lambda>_. wf_mcs)"
  unfolding gcc_read_client_security_data_def changes
  by (rule safe_intros | (simp add: wf_simps; fail))+

lemma safe_server_security: "safe b wf_mcs k (gcc_read_server_security_data env) (\<lambda>_. wf_mcs)"
  unfolding gcc_read_server_security_data_def gcc_read_server_keys_def changes
  by (rule safe_intros | (simp add: wf_simps; fail))+

lemma safe_cluster: "safe b wf_mcs k gcc_read_client_cluster_data (\<lambda>_. wf_mcs)"
proof -
  have l: "safe b wf_mcs n (on_stream (Stream_Seek n)) (\<lambda>_. wf_mcs)" for n
    using remaining_le_room by (fastforce simp: safe_def on_stream_def stream_exec)
  show ?thesis unfolding gcc_read_client_cluster_data_def changes
    by (rule l safe_intros | (simp add: wf_simps; fail))+
qed

lemma safe_message_channel:
  "safe b wf_mcs k gcc_read_client_message_channel_data (\<lambda>_. wf_mcs)"
  "safe b wf_mcs k gcc_read_server_message_channel_data (\<lambda>_. wf_mcs)"
proof -
  have "safe b wf_mcs 0 next_channel_id (\<lambda>_. wf_mcs)" by (auto simp: safe_def next_channel_id_def)
  note n = safe_call [OF this]
  show "safe b wf_mcs k gcc_read_client_message_channel_data (\<lambda>_. wf_mcs)"
    unfolding gcc_read_client_message_channel_data_def by (rule n safe_intros | (simp add: wf_simps; fail))+
  show "safe b wf_mcs k gcc_read_server_message_channel_data (\<lambda>_. wf_mcs)"
    unfolding gcc_read_server_message_channel_data_def by (rule n safe_intros | (simp add: wf_simps; fail))+
qed

lemma safe_multitransport:
  "safe b wf_mcs k gcc_read_client_multitransport_channel_data (\<lambda>_. wf_mcs)"
  "safe b wf_mcs k gcc_read_server_multitransport_channel_data (\<lambda>_. wf_mcs)"
  unfolding gcc_read_client_multitransport_channel_data_def gcc_read_server_multitransport_channel_data_def changes
  by (rule safe_intros | (simp add: wf_simps; fail))+

lemma safe_unused1: "safe b wf_mcs k (on_stream gcc_read_client_unused1_data) (\<lambda>_. wf_mcs)"
  unfolding gcc_read_client_unused1_data_def by (rule safe_reads [OF reads_SafeSeek])

lemma safe_bytes:
  assumes "n \<le> k" "\<And>v. length v = n \<Longrightarrow> safe b P (k - n) (g v) R"
  shows "safe b P k (bind_c (on_stream (Stream_Read n)) g) R"
proof (rule safeI)
  fix s m assume s: "readable s" "b \<longrightarrow> s_length s = s_capacity s" "k \<le> length (remaining s)" "P m"
  then have n: "n \<le> length (remaining s)" using assms(1) by simp
  have v: "Stream_Read n s = Success (take n (remaining s)) (advance n s)" using s n by (simp add: stream_exec)
  have r: "readable (advance n s)" "moved s (advance n s)" using s n by auto
  have "safely (advance n s) R (g (take n (remaining s)) (advance n s, m))"
    by (rule safeD [OF assms(2)]) (use s n r assms(1) moved_tight [OF r(2)] in simp_all)
  then show "safely s R (bind_c (on_stream (Stream_Read n)) g (s, m))"
    using safely_moved [OF r(2)] by (simp add: bind_c_def on_stream_def v)
qed

lemma safe_at_channel:
  assumes "i < CHANNEL_MAX_COUNT" "\<And>c. length (ch_Name c) = CHANNEL_NAME_LEN + 1 \<Longrightarrow> length (ch_Name (g c)) = CHANNEL_NAME_LEN + 1"
    "safe b wf_mcs k f R"
  shows "safe b wf_mcs k (bind_c (at_channel i g) (\<lambda>_. f)) R"
proof -
  have "wf_mcs (m\<lparr>mc_channels := (mc_channels m)[i := g (mc_channels m ! i)]\<rparr>)" if "wf_mcs m" for m :: "'a rdpMcs"
    using that assms(1,2) set_update_subset_insert [of "mc_channels m" i "g (mc_channels m ! i)"]
    by (auto simp: wf_mcs_def wf_channels_def)
  moreover have "length (mc_channels m) = CHANNEL_MAX_COUNT" if "wf_mcs m" for m :: "'a rdpMcs"
    using that by (simp add: wf_mcs_def wf_channels_def)
  ultimately show ?thesis using assms(1,3) by (auto simp: safe_def bind_c_def at_channel_def)
qed

lemma safe_channel_id: "(\<And>v. safe b wf_mcs k (g v) R) \<Longrightarrow> safe b wf_mcs k (bind_c next_channel_id g) R"
  by (simp add: safe_def bind_c_def next_channel_id_def)

lemma safe_channel_defs:
  "i + n \<le> CHANNEL_MAX_COUNT \<Longrightarrow> safe b wf_mcs (n * 12) (gcc_read_channel_defs n i) (\<lambda>_. wf_mcs)"
proof (induction n arbitrary: i)
  case 0
  show ?case by (simp add: safe_last)
next
  case (Suc n)
  show ?case using Suc.prems Suc.IH [of "Suc i"] unfolding gcc_read_channel_defs.simps
    by (intro safe_bytes safe_at_channel safe_if safe_last safe_prims(3) safe_channel_id) (simp_all add: mcs_constants)
qed

lemma wf_mcs_count:
  "wf_mcs (m\<lparr>mc_channelCount := 0\<rparr>) \<Longrightarrow> unat (mc_channelCount m) \<le> CHANNEL_MAX_COUNT \<Longrightarrow> wf_mcs m"
  by (simp add: wf_mcs_def wf_channels_def)

lemma safe_client_network: "safe b (wf_mcs :: 'w rdpMcs \<Rightarrow> bool) k gcc_read_client_network_data (\<lambda>_. wf_mcs)"
proof -
  let ?P = "\<lambda>v (m :: 'w rdpMcs). wf_mcs (m\<lparr>mc_channelCount := 0\<rparr>) \<and> mc_channelCount m = v"
  have h: "safe b (?P v) (unat v * 12) (if unat v > CHANNEL_MAX_COUNT then fail_c else gcc_read_channel_defs (unat v) 0) (\<lambda>_. wf_mcs)" for v
  proof (rule safe_if [OF safe_last(1)])
    assume v: "\<not> CHANNEL_MAX_COUNT < unat v"
    show "safe b (?P v) (unat v * 12) (gcc_read_channel_defs (unat v) 0) (\<lambda>_. wf_mcs)"
      by (rule safe_mono [OF safe_channel_defs [of 0 "unat v"]]) (use v in \<open>auto intro: wf_mcs_count\<close>)
  qed
  have c: "?P v (m\<lparr>mc_channelCount := v\<rparr>)" if "wf_mcs m" for v and m :: "'w rdpMcs"
    using that by (simp add: wf_mcs_def wf_channels_def)
  show ?thesis unfolding gcc_read_client_network_data_def
  proof (intro safe_check safe_prims(3))
    show "safe b (wf_mcs :: 'w rdpMcs \<Rightarrow> bool) (4 - 4) (bind_c (change_state (\<lambda>m. m\<lparr>mc_channelCount := v\<rparr>)) (\<lambda>_.
        bind_c (on_stream (Stream_CheckAndLogRequiredLengthWLogEx (unat v) 12)) (\<lambda>_.
        if unat v > CHANNEL_MAX_COUNT then fail_c else gcc_read_channel_defs (unat v) 0))) (\<lambda>_. wf_mcs)" for v
      by (rule safe_state(1) [where Q = "?P v"], rule safe_check_of_size [OF h], simp, rule c)
  qed simp
qed

lemma safe_channel_ids:
  "i + n \<le> CHANNEL_MAX_COUNT \<Longrightarrow> safe b wf_mcs (n * 2) (gcc_read_channel_ids n i) (\<lambda>_. wf_mcs)"
proof (induction n arbitrary: i)
  case 0
  show ?case by (simp add: safe_last)
next
  case (Suc n)
  show ?case using Suc.prems Suc.IH [of "Suc i"] unfolding gcc_read_channel_ids.simps
    by (intro safe_at_channel safe_prims(2)) simp_all
qed

lemma unat_up: "unat (ucast (v :: 16 word) :: 32 word) = unat v"
  using unsigned_less [where 'a = nat, of v] by (simp add: unat_ucast)

lemma channel_max: "unat (word_of_nat CHANNEL_MAX_COUNT :: 32 word) = CHANNEL_MAX_COUNT"
  by (simp add: mcs_constants)

lemma safe_server_network: "safe b (wf_mcs :: 'w rdpMcs \<Rightarrow> bool) k gcc_read_server_network_data (\<lambda>_. wf_mcs)"
proof -
  let ?P = "\<lambda>v (m :: 'w rdpMcs). wf_mcs (m\<lparr>mc_channelCount := 0\<rparr>) \<and> mc_channelCount m = ucast (v :: 16 word)"
  let ?read = "\<lambda>v. bind_c (gcc_read_channel_ids (unat v) 0)
    (\<lambda>_. if unat v mod 2 = 1 then on_stream (Stream_SafeSeek 2) else return_c ())"
  have r: "safe b (wf_mcs :: 'w rdpMcs \<Rightarrow> bool) (unat v * 2) (?read v) (\<lambda>_. wf_mcs)" if "unat v \<le> CHANNEL_MAX_COUNT" for v :: "16 word"
    using that by (intro safe_bind [OF safe_channel_ids] safe_if safe_last safe_reads [OF reads_SafeSeek]) simp_all
  have g: "safe b (?P v) (unat v * 2) (bind_c get_state (\<lambda>m. if mc_channelMaxCount m < ucast v then fail_c else ?read v))
      (\<lambda>_. wf_mcs)" for v
  proof (rule safe_state(2), rule safe_if [OF safe_last(1)])
    fix m0 :: "'w rdpMcs" assume m: "?P v m0" "\<not> mc_channelMaxCount m0 < ucast v"
    have "unat (mc_channelMaxCount m0) = CHANNEL_MAX_COUNT" using m(1) channel_max by (simp add: wf_mcs_def wf_channels_def)
    with m(2) have v: "unat v \<le> CHANNEL_MAX_COUNT" by (simp add: word_less_nat_alt unat_up)
    show "safe b (\<lambda>m. ?P v m \<and> m = m0) (unat v * 2) (?read v) (\<lambda>_. wf_mcs)"
      by (rule safe_mono [OF r [OF v]]) (use v in \<open>auto intro!: wf_mcs_count simp: unat_up\<close>)
  qed
  have c: "?P v (if ucast v \<noteq> mc_channelCount m then m\<lparr>mc_channelCount := ucast v\<rparr> else m)"
    if "wf_mcs m" for v and m :: "'w rdpMcs"
    using that by (simp add: wf_mcs_def wf_channels_def)
  show ?thesis unfolding gcc_read_server_network_data_def
  proof (intro safe_check safe_prims(2) safe_change [where g = "mc_IOChannelId_update (\<lambda>_. v)" for v])
    show "safe b (wf_mcs :: 'w rdpMcs \<Rightarrow> bool) (4 - 2 - 2) (bind_c (change_state (\<lambda>m. if ucast v \<noteq> mc_channelCount m
          then m\<lparr>mc_channelCount := ucast v\<rparr> else m)) (\<lambda>_.
        bind_c (on_stream (Stream_CheckAndLogRequiredLengthWLogEx (unat v) 2)) (\<lambda>_.
        bind_c get_state (\<lambda>m. if mc_channelMaxCount m < ucast v then fail_c else ?read v)))) (\<lambda>_. wf_mcs)" for v :: "16 word"
      by (rule safe_state(1) [where Q = "?P v"], rule safe_check_of_size [OF g], simp, rule c)
  qed simp_all
qed

text \<open>Monitors.\<close>

abbreviation room_for :: "nat \<Rightarrow> 'w rdpMcs \<Rightarrow> bool" where
  "room_for n m \<equiv> wf_mcs m \<and> n \<le> unat (ms_MonitorDefArraySize (st_monitor (mc_settings m)))"

lemma room_for_update:
  "room_for n m \<Longrightarrow> length a = length (ms_MonitorDefArray (st_monitor (mc_settings m))) \<Longrightarrow>
     room_for n (m\<lparr>mc_settings := (mc_settings m)\<lparr>st_monitor := (st_monitor (mc_settings m))\<lparr>ms_MonitorDefArray := a\<rparr>\<rparr>\<rparr>)"
  by (simp add: wf_mcs_def wf_monitors_def wf_channels_def)

lemma safe_monitor_step:
  assumes "i < n" "safe b (room_for n) k f R"
  shows "safe b (room_for n) k (bind_c (at_monitor i g) (\<lambda>_. f)) R"
proof (rule safeI)
  fix s and m :: "'a rdpMcs" assume s: "readable s" "b \<longrightarrow> s_length s = s_capacity s" "k \<le> length (remaining s)" "room_for n m"
  let ?a = "ms_MonitorDefArray (st_monitor (mc_settings m))"
  let ?m = "m\<lparr>mc_settings := (mc_settings m)\<lparr>st_monitor := (st_monitor (mc_settings m))\<lparr>ms_MonitorDefArray :=
      ?a[i := g (?a ! i)]\<rparr>\<rparr>\<rparr>"
  have "i < length ?a" using s(4) assms(1) by (simp add: wf_mcs_def wf_monitors_def)
  then have "bind_c (at_monitor i g) (\<lambda>_. f) (s, m) = f (s, ?m)"
    by (simp add: bind_c_def at_monitor_def changes change_state_def Let_def)
  moreover have "safely s R (f (s, ?m))" by (rule safeD [OF assms(2) s(1-3) room_for_update [OF s(4)]]) simp
  ultimately show "safely s R (bind_c (at_monitor i g) (\<lambda>_. f) (s, m))" by simp
qed

lemma safe_monitors:
  "i + n \<le> N \<Longrightarrow> safe b (room_for N) (n * 20) (gcc_read_monitors n i) (\<lambda>_. room_for N)"
proof (induction n arbitrary: i)
  case 0
  show ?case by (simp add: safe_last)
next
  case (Suc n)
  have a: "safe b P k (bind_c (assert_c c) (\<lambda>_. f)) R" if "c" "safe b P k f R" for c P k R and f :: "('a, 'r) mcs_fun"
    using that by (simp add: safe_def c_simps)
  show ?case using Suc.prems Suc.IH [of "Suc i"] unfolding gcc_read_monitors.simps Let_def
    by (intro safe_prims(3) safe_if safe_last a safe_monitor_step) simp_all
qed

lemma safe_client_monitor: "safe b (wf_mcs :: 'w rdpMcs \<Rightarrow> bool) k gcc_read_client_monitor_data (\<lambda>_. wf_mcs)"
proof -
  let ?read = "\<lambda>n. bind_c (change_state (\<lambda>m. m\<lparr>mc_settings := (mc_settings m)\<lparr>st_monitor :=
      (st_monitor (mc_settings m))\<lparr>ms_MonitorCount := n\<rparr>\<rparr>\<rparr>)) (\<lambda>_. gcc_read_monitors (unat n) 0)"
  have r: "safe b (room_for (unat n) :: 'w rdpMcs \<Rightarrow> bool) (unat n * 20) (?read n) (\<lambda>_. wf_mcs)" for n
    by (rule safe_state(1) [where Q = "room_for (unat n)", OF safe_mono [OF safe_monitors [of 0 "unat n" "unat n"]]])
      (auto simp: wf_mcs_def wf_monitors_def wf_channels_def)
  have g: "safe b (wf_mcs :: 'w rdpMcs \<Rightarrow> bool) j (bind_c get_state (\<lambda>m. bind_c (on_stream
      (Stream_CheckAndLogRequiredLengthWLogEx (unat (min v (ms_MonitorDefArraySize (st_monitor (mc_settings m))))) 20))
      (\<lambda>_. ?read (min v (ms_MonitorDefArraySize (st_monitor (mc_settings m))))))) (\<lambda>_. wf_mcs)" for v j
  proof (rule safe_state(2))
    fix m0 :: "'w rdpMcs" assume "wf_mcs m0"
    let ?n = "min v (ms_MonitorDefArraySize (st_monitor (mc_settings m0)))"
    have n: "unat ?n \<le> unat (ms_MonitorDefArraySize (st_monitor (mc_settings m0)))"
      by (simp add: word_le_nat_alt [symmetric])
    show "safe b (\<lambda>m. wf_mcs m \<and> m = m0) j (bind_c (on_stream (Stream_CheckAndLogRequiredLengthWLogEx (unat ?n) 20))
        (\<lambda>_. ?read ?n)) (\<lambda>_. wf_mcs)"
      by (rule safe_check_of_size, rule safe_mono [OF r]) (use n in auto)
  qed
  show ?thesis unfolding gcc_read_client_monitor_data_def changes Let_def
    by (intro safe_check safe_prims(3) safe_change safe_if safe_last g) (simp_all add: wf_mcs_def wf_monitors_def wf_channels_def)
qed

lemma safe_attributes:
  "i + n \<le> N \<Longrightarrow> safe b (room_for N) (n * 20) (gcc_read_monitor_attributes n i) (\<lambda>_. room_for N)"
proof (induction n arbitrary: i)
  case 0
  show ?case by (simp add: safe_last)
next
  case (Suc n)
  show ?case using Suc.prems Suc.IH [of "Suc i"] unfolding gcc_read_monitor_attributes.simps
    by (intro safe_prims(3) safe_monitor_step) simp_all
qed

lemma safe_client_monitor_extended:
  "safe True (wf_mcs :: 'w rdpMcs \<Rightarrow> bool) k gcc_read_client_monitor_extended_data (\<lambda>_. wf_mcs)"
proof -
  let ?read = "\<lambda>n. bind_c (change_state (\<lambda>m. m\<lparr>mc_settings := (mc_settings m)\<lparr>st_monitor :=
      (st_monitor (mc_settings m))\<lparr>ms_HasMonitorAttributes := True\<rparr>\<rparr>\<rparr>)) (\<lambda>_. gcc_read_monitor_attributes (unat n) 0)"
  have r: "safe True (room_for (unat n) :: 'w rdpMcs \<Rightarrow> bool) (unat n * 20) (?read n) (\<lambda>_. wf_mcs)" for n
    by (rule safe_state(1) [where Q = "room_for (unat n)", OF safe_mono [OF safe_attributes [of 0 "unat n" "unat n"]]])
      (auto simp: wf_mcs_def wf_monitors_def wf_channels_def)
  have g: "safe True (wf_mcs :: 'w rdpMcs \<Rightarrow> bool) (unat v * 20) (bind_c get_state (\<lambda>m.
      if ms_MonitorCount (st_monitor (mc_settings m)) \<noteq> v then fail_c else ?read v)) (\<lambda>_. wf_mcs)" for v
  proof (rule safe_state(2), rule safe_if [OF safe_last(1)])
    fix m0 :: "'w rdpMcs" assume m: "wf_mcs m0" "\<not> ms_MonitorCount (st_monitor (mc_settings m0)) \<noteq> v"
    then have "room_for (unat v) m0" by (auto simp: wf_mcs_def wf_monitors_def)
    then show "safe True (\<lambda>m. wf_mcs m \<and> m = m0) (unat v * 20) (?read v) (\<lambda>_. wf_mcs)"
      by (intro safe_mono [OF r]) auto
  qed
  have c: "safe True (wf_mcs :: 'w rdpMcs \<Rightarrow> bool) j (if sz \<noteq> 20 then fail_c else
      bind_c (on_stream (Stream_CheckAndLogRequiredCapacityWLogEx (unat v) (unat sz))) (\<lambda>_. bind_c get_state (\<lambda>m.
      if ms_MonitorCount (st_monitor (mc_settings m)) \<noteq> v then fail_c else ?read v))) (\<lambda>_. wf_mcs)"
    for v j and sz :: "32 word"
    using safe_check_capacity [OF g] by (simp add: safe_last)
  show ?thesis unfolding gcc_read_client_monitor_extended_data_def changes
    by (intro safe_check safe_prims(3) safe_change c) (simp_all add: wf_mcs_def wf_monitors_def wf_channels_def)
qed

end
