(* ===== verification/Per.thy ===== *)
theory Per
  imports Codec
begin

text \<open>
  Packed encoding rules, \<open>libfreerdp/crypto/per.c\<close>.

  Every function of the file is a definition of the same name. Writers take \<open>malloc\<close> first, because
  they enlarge the stream; output parameters of the readers are results. Then the formats as encoders
  and parsers on byte lists, the contract of every reader and writer, and the round trips.
\<close>

section \<open>The functions of per.c\<close>

definition per_read_length :: "(wStream, 16 word) cfun" where
  "per_read_length =
     bind_c (Stream_CheckAndLogRequiredLength 1) (\<lambda>_.
     bind_c Stream_Read_UINT8 (\<lambda>byte.
     if byte AND 0x80 \<noteq> 0 then
       bind_c (Stream_CheckAndLogRequiredLength 1) (\<lambda>_.
       let byte = byte AND NOT 0x80; len = push_bit 8 (ucast byte) in
       bind_c Stream_Read_UINT8 (\<lambda>byte. return_c (len + ucast byte)))
     else return_c (ucast byte)))"

definition per_write_length :: "malloc \<Rightarrow> 16 word \<Rightarrow> (wStream, unit) cfun" where
  "per_write_length malloc len =
     (if len > 0x7F then
        bind_c (Stream_EnsureRemainingCapacity malloc 2) (\<lambda>_.
        Stream_Write_UINT16_BE (len OR 0x8000))
      else
        bind_c (Stream_EnsureRemainingCapacity malloc 1) (\<lambda>_.
        Stream_Write_UINT8 (ucast len)))"

definition per_read_choice :: "(wStream, byte) cfun" where
  "per_read_choice = bind_c (Stream_CheckAndLogRequiredLength 1) (\<lambda>_. Stream_Read_UINT8)"

definition per_write_choice :: "malloc \<Rightarrow> byte \<Rightarrow> (wStream, unit) cfun" where
  "per_write_choice malloc choice =
     bind_c (Stream_EnsureRemainingCapacity malloc 1) (\<lambda>_. Stream_Write_UINT8 choice)"

definition per_read_selection :: "(wStream, byte) cfun" where
  "per_read_selection = bind_c (Stream_CheckAndLogRequiredLength 1) (\<lambda>_. Stream_Read_UINT8)"

definition per_write_selection :: "malloc \<Rightarrow> byte \<Rightarrow> (wStream, unit) cfun" where
  "per_write_selection malloc selection =
     bind_c (Stream_EnsureRemainingCapacity malloc 1) (\<lambda>_. Stream_Write_UINT8 selection)"

definition per_read_number_of_sets :: "(wStream, byte) cfun" where
  "per_read_number_of_sets = bind_c (Stream_CheckAndLogRequiredLength 1) (\<lambda>_. Stream_Read_UINT8)"

definition per_write_number_of_sets :: "malloc \<Rightarrow> byte \<Rightarrow> (wStream, unit) cfun" where
  "per_write_number_of_sets malloc number =
     bind_c (Stream_EnsureRemainingCapacity malloc 1) (\<lambda>_. Stream_Write_UINT8 number)"

definition per_read_padding :: "16 word \<Rightarrow> (wStream, unit) cfun" where
  "per_read_padding len =
     bind_c (Stream_CheckAndLogRequiredLength (unat len)) (\<lambda>_. Stream_Seek (unat len))"

definition per_write_padding :: "malloc \<Rightarrow> 16 word \<Rightarrow> (wStream, unit) cfun" where
  "per_write_padding malloc len =
     bind_c (Stream_EnsureRemainingCapacity malloc (unat len)) (\<lambda>_. Stream_Zero (unat len))"

definition per_read_integer :: "(wStream, 32 word) cfun" where
  "per_read_integer =
     bind_c per_read_length (\<lambda>len.
     bind_c (Stream_CheckAndLogRequiredLength (unat len)) (\<lambda>_.
     if len = 0 then return_c 0
     else if len = 1 then bind_c Stream_Read_UINT8 (\<lambda>v. return_c (ucast v))
     else if len = 2 then bind_c Stream_Read_UINT16_BE (\<lambda>v. return_c (ucast v))
     else fail_c))"

definition per_write_integer :: "malloc \<Rightarrow> 32 word \<Rightarrow> (wStream, unit) cfun" where
  "per_write_integer malloc integer =
     (if integer \<le> 0xFF then
        bind_c (per_write_length malloc 1) (\<lambda>_.
        bind_c (Stream_EnsureRemainingCapacity malloc 1) (\<lambda>_.
        bind_c (asserting_int_cast integer) (\<lambda>v. Stream_Write_UINT8 v)))
      else if integer \<le> 0xFFFF then
        bind_c (per_write_length malloc 2) (\<lambda>_.
        bind_c (Stream_EnsureRemainingCapacity malloc 2) (\<lambda>_.
        bind_c (asserting_int_cast integer) (\<lambda>v. Stream_Write_UINT16_BE v)))
      else
        bind_c (per_write_length malloc 4) (\<lambda>_.
        bind_c (Stream_EnsureRemainingCapacity malloc 4) (\<lambda>_.
        Stream_Write_UINT32_BE integer)))"

definition per_read_integer16 :: "16 word \<Rightarrow> (wStream, 16 word) cfun" where
  "per_read_integer16 mini =
     bind_c (Stream_CheckAndLogRequiredLength 2) (\<lambda>_.
     bind_c Stream_Read_UINT16_BE (\<lambda>integer.
     if integer > 0xFFFF - mini then fail_c else return_c (integer + mini)))"

definition per_write_integer16 :: "malloc \<Rightarrow> 16 word \<Rightarrow> 16 word \<Rightarrow> (wStream, unit) cfun" where
  "per_write_integer16 malloc integer mini =
     (if mini > integer then fail_c
      else bind_c (Stream_EnsureRemainingCapacity malloc 2) (\<lambda>_.
        Stream_Write_UINT16_BE (integer - mini)))"

definition per_read_enumerated :: "byte \<Rightarrow> (wStream, byte) cfun" where
  "per_read_enumerated count =
     bind_c (Stream_CheckAndLogRequiredLength 1) (\<lambda>_.
     bind_c Stream_Read_UINT8 (\<lambda>enumerated.
     if unat enumerated + 1 > unat count then fail_c else return_c enumerated))"

definition per_write_enumerated :: "malloc \<Rightarrow> byte \<Rightarrow> byte \<Rightarrow> (wStream, unit) cfun" where
  "per_write_enumerated malloc enumerated count =
     bind_c (Stream_EnsureRemainingCapacity malloc 1) (\<lambda>_. Stream_Write_UINT8 enumerated)"

text \<open>
  \<open>memcmp\<close>, and the dump of both arrays when they differ, read \<open>n\<close> bytes of each: an array with fewer is
  read beyond its end.
\<close>

definition per_check_oid_and_log_mismatch ::
  "byte list \<Rightarrow> byte list \<Rightarrow> nat \<Rightarrow> (wStream, unit) cfun" where
  "per_check_oid_and_log_mismatch got expect n =
     (if length got < n \<or> length expect < n then (\<lambda>_. Fault OutOfBoundsAccess)
      else if take n got = take n expect then return_c () else fail_c)"

text \<open>An element of a constant array that the caller gives.\<close>

definition array_at :: "byte list \<Rightarrow> nat \<Rightarrow> (wStream, byte) cfun" where
  "array_at a i s = (if i < length a then Success (a ! i) s else Fault OutOfBoundsAccess)"

definition per_read_object_identifier :: "byte list \<Rightarrow> (wStream, unit) cfun" where
  "per_read_object_identifier oid =
     bind_c per_read_length (\<lambda>len.
     if len \<noteq> 5 then fail_c
     else
       bind_c (Stream_CheckAndLogRequiredLength (unat len)) (\<lambda>_.
       bind_c Stream_Read_UINT8 (\<lambda>t12.
       bind_c Stream_Read_UINT8 (\<lambda>a2.
       bind_c Stream_Read_UINT8 (\<lambda>a3.
       bind_c Stream_Read_UINT8 (\<lambda>a4.
       bind_c Stream_Read_UINT8 (\<lambda>a5.
       per_check_oid_and_log_mismatch [t12 div 40, t12 mod 40, a2, a3, a4, a5] oid 6)))))))"

definition per_write_object_identifier :: "malloc \<Rightarrow> byte list \<Rightarrow> (wStream, unit) cfun" where
  "per_write_object_identifier malloc oid =
     bind_c (array_at oid 0) (\<lambda>o0.
     bind_c (array_at oid 1) (\<lambda>o1.
     let t12 = o0 * 40 + o1 in
     bind_c (Stream_EnsureRemainingCapacity malloc 6) (\<lambda>_.
     bind_c (Stream_Write_UINT8 5) (\<lambda>_.
     bind_c (Stream_Write_UINT8 t12) (\<lambda>_.
     bind_c (array_at oid 2) (\<lambda>v. bind_c (Stream_Write_UINT8 v) (\<lambda>_.
     bind_c (array_at oid 3) (\<lambda>v. bind_c (Stream_Write_UINT8 v) (\<lambda>_.
     bind_c (array_at oid 4) (\<lambda>v. bind_c (Stream_Write_UINT8 v) (\<lambda>_.
     bind_c (array_at oid 5) (\<lambda>v. Stream_Write_UINT8 v))))))))))))"

definition per_read_octet_string :: "byte list \<Rightarrow> 16 word \<Rightarrow> 16 word \<Rightarrow> (wStream, unit) cfun" where
  "per_read_octet_string oct_str len mini =
     bind_c per_read_length (\<lambda>mlength.
     if unat mlength + unat mini \<noteq> unat len then fail_c
     else
       bind_c (Stream_CheckAndLogRequiredLength (unat len)) (\<lambda>_.
       bind_c Stream_ConstPointer (\<lambda>a_oct_str.
       bind_c (Stream_Seek (unat len)) (\<lambda>_.
       per_check_oid_and_log_mismatch a_oct_str oct_str (unat len)))))"

text \<open>The loop \<open>for (i; i < len; i++)\<close>, with \<open>n\<close> iterations left.\<close>

fun per_write_octets :: "byte list \<Rightarrow> nat \<Rightarrow> nat \<Rightarrow> (wStream, unit) cfun" where
  "per_write_octets oct_str i 0 = return_c ()"
| "per_write_octets oct_str i (Suc n) =
     (if i < length oct_str
      then bind_c (Stream_Write_UINT8 (oct_str ! i)) (\<lambda>_. per_write_octets oct_str (Suc i) n)
      else (\<lambda>_. Fault OutOfBoundsAccess))"

definition per_write_octet_string ::
  "malloc \<Rightarrow> byte list \<Rightarrow> 16 word \<Rightarrow> 16 word \<Rightarrow> (wStream, unit) cfun" where
  "per_write_octet_string malloc oct_str len mini =
     (let mlength = (if len \<ge> mini then len - mini else mini) in
      bind_c (per_write_length malloc mlength) (\<lambda>_.
      bind_c (Stream_EnsureRemainingCapacity malloc (unat len)) (\<lambda>_.
      per_write_octets oct_str 0 (unat len))))"

definition per_read_numeric_string :: "16 word \<Rightarrow> (wStream, unit) cfun" where
  "per_read_numeric_string mini =
     bind_c per_read_length (\<lambda>mlength.
     let len = (unat mlength + unat mini + 1) div 2 in
     bind_c (Stream_CheckAndLogRequiredLength len) (\<lambda>_. Stream_Seek len))"

text \<open>
  The loop \<open>for (UINT16 i = 0; i < len; i += 2)\<close>. The counter wraps, so the loop has fuel; every
  iteration writes one byte, so one more than the room of the stream is enough.
\<close>

fun per_write_digits :: "nat \<Rightarrow> byte list \<Rightarrow> 16 word \<Rightarrow> 16 word \<Rightarrow> (wStream, unit) cfun" where
  "per_write_digits 0 num_str len i = (\<lambda>_. Fault NonTermination)"
| "per_write_digits (Suc fuel) num_str len i =
     (if i < len then
        if length num_str \<le> unat i \<or> (unat i + 1 < unat len \<and> length num_str \<le> unat i + 1)
        then (\<lambda>_. Fault OutOfBoundsAccess)
        else
          let c1 = num_str ! unat i;
              c2 = (if unat i + 1 < unat len then num_str ! (unat i + 1) else 0x30) in
          if c1 < 0x30 \<or> c2 < 0x30 then fail_c
          else
            let c1 = (c1 - 0x30) mod 10; c2 = (c2 - 0x30) mod 10;
                num = push_bit 4 c1 OR c2 in
            bind_c (Stream_Write_UINT8 num) (\<lambda>_. per_write_digits fuel num_str len (i + 2))
      else return_c ())"

definition per_write_numeric_string ::
  "malloc \<Rightarrow> byte list \<Rightarrow> 16 word \<Rightarrow> 16 word \<Rightarrow> (wStream, unit) cfun" where
  "per_write_numeric_string malloc num_str len mini =
     (let mlength = (if len \<ge> mini then len - mini else mini) in
      bind_c (per_write_length malloc mlength) (\<lambda>_.
      bind_c (Stream_EnsureRemainingCapacity malloc (unat len)) (\<lambda>_.
      (\<lambda>s. per_write_digits (room s + 2) num_str len 0 s))))"

section \<open>The formats\<close>

definition enc_per_length :: "16 word \<Rightarrow> byte list" where
  "enc_per_length v = (if unat v < 128 then [ucast v] else be16 (v OR 0x8000))"

fun dec_per_length :: "16 word parser" where
  "dec_per_length [] = None"
| "dec_per_length [b] = (if unat b < 128 then Some (ucast b, []) else None)"
| "dec_per_length (b # c # bs) =
     (if unat b < 128 then Some (ucast b, c # bs)
      else Some (word_of_nat (256 * (unat b - 128) + unat c), bs))"

lemma per_length_value:
  fixes b c :: byte
  assumes "128 \<le> unat b"
  shows "push_bit 8 (ucast (b AND NOT 0x80)) + ucast c =
    (word_of_nat (256 * (unat b - 128) + unat c) :: 16 word)"
proof -
  have "unat b mod 128 = unat b - 128" using assms unat_byte_less [of b] by (simp add: le_mod_geq)
  then have "(ucast (b AND NOT 0x80) :: 16 word) = word_of_nat (unat b - 128)"
    by (simp only: ucast_of_nat and_not_80)
  moreover have "(ucast c :: 16 word) = word_of_nat (unat c)" by (rule ucast_of_nat)
  ultimately show ?thesis by (simp only: push_bit_eq_mult of_nat_add of_nat_mult) simp
qed

lemma dec_per_length_enc:
  assumes "unat v < 32768"
  shows "dec_per_length (enc_per_length v @ rest) = Some (v, rest)"
proof (cases "unat v < 128")
  case True
  then have "unat (ucast v :: byte) < 128" "(ucast (ucast v :: byte) :: 16 word) = v"
    by (simp_all add: unat_ucast ucast_ucast_id)
  with True show ?thesis by (cases rest) (simp_all add: enc_per_length_def)
next
  case False
  define w where "w = v OR 0x8000"
  have w: "unat w = unat v + 32768" using assms by (simp add: w_def unat_or_8000)
  have hi: "unat (ucast (drop_bit 8 w) :: byte) = unat v div 256 + 128"
    using assms by (simp add: unat_ucast unat_drop_bit w)
  have "(unat v + 32768) mod 256 = unat v mod 256" using mod_mult_self1 [of "unat v" 128 256] by simp
  then have lo: "unat (ucast w :: byte) = unat v mod 256" by (simp add: unat_ucast w)
  have "dec_per_length (be16 w @ rest) = Some (word_of_nat
      (256 * (unat (ucast (drop_bit 8 w) :: byte) - 128) + unat (ucast w :: byte)), rest)"
    using hi by (simp add: word_be_2)
  also have "256 * (unat (ucast (drop_bit 8 w) :: byte) - 128) + unat (ucast w :: byte) = unat v"
    by (simp only: hi lo) simp
  finally show ?thesis using False by (simp add: enc_per_length_def w_def)
qed

lemma reads_per_length: "reads per_read_length dec_per_length"
proof (rule reads_cong)
  show "reads per_read_length (check_p 1 (bind_p u8_p (\<lambda>b.
      if b AND 0x80 \<noteq> 0 then check_p 1 (bind_p u8_p (\<lambda>c.
        return_p (push_bit 8 (ucast (b AND NOT 0x80)) + ucast c)))
      else return_p (ucast b))))"
    unfolding per_read_length_def Let_def
    by (intro reads_when_intros) simp_all
  fix bs :: "byte list"
  show "check_p 1 (bind_p u8_p (\<lambda>b.
      if b AND 0x80 \<noteq> 0 then check_p 1 (bind_p u8_p (\<lambda>c.
        return_p (push_bit 8 (ucast (b AND NOT 0x80)) + ucast c)))
      else return_p (ucast b))) bs = dec_per_length bs"
    by (cases bs rule: dec_per_length.cases; simp only: and_80; simp only: parser_defs)
      (simp_all add: per_length_value [simplified] parser_defs)
qed


section \<open>Contracts\<close>

lemma word_less_128: "(v > (0x7F :: 16 word)) \<longleftrightarrow> \<not> unat v < 128"
  by (simp add: word_less_nat_alt not_less Suc_le_eq flip: less_Suc_eq_le)

lemma emits_per_length: "emits (\<lambda>m. per_write_length m v) () (enc_per_length v)"
  unfolding per_write_length_def enc_per_length_def word_less_128
  by (cases "unat v < 128") (auto intro!: emits_ensure writes_scalars)

lemma writes_per_length: "writes (per_write_length m v) () (enc_per_length v)"
  unfolding per_write_length_def enc_per_length_def word_less_128
  by (cases "unat v < 128") (auto intro!: writes_ensure writes_scalars)

interpretation per_length: growing_codec enc_per_length dec_per_length "\<lambda>v. unat v < 32768"
  per_write_length "\<lambda>_. ()" per_read_length
  by unfold_locales (simp_all add: dec_per_length_enc emits_per_length writes_per_length reads_per_length)

text \<open>The three one-byte fields share their format.\<close>

definition enc_byte :: "byte \<Rightarrow> byte list" where
  "enc_byte v = [v]"

fun dec_byte :: "byte parser" where
  "dec_byte [] = None"
| "dec_byte (b # bs) = Some (b, bs)"

lemma reads_byte:
  "reads (bind_c (Stream_CheckAndLogRequiredLength 1) (\<lambda>_. Stream_Read_UINT8)) dec_byte"
proof (rule reads_cong)
  show "reads (bind_c (Stream_CheckAndLogRequiredLength 1) (\<lambda>_. Stream_Read_UINT8)) (check_p 1 u8_p)"
    by (intro reads_check, rule reads_when_last, intro reads_when_intros) simp
  show "check_p 1 u8_p bs = dec_byte bs" for bs
    by (cases bs rule: dec_byte.cases) (simp_all add: parser_defs)
qed

lemma emits_byte:
  "emits (\<lambda>m. bind_c (Stream_EnsureRemainingCapacity m 1) (\<lambda>_. Stream_Write_UINT8 v)) () (enc_byte v)"
  unfolding enc_byte_def by (rule emits_ensure [OF writes_scalars(1)]) simp

lemma writes_byte:
  "writes (bind_c (Stream_EnsureRemainingCapacity m 1) (\<lambda>_. Stream_Write_UINT8 v)) () (enc_byte v)"
  unfolding enc_byte_def by (rule writes_ensure [OF writes_scalars(1)]) simp

lemma dec_byte_enc: "dec_byte (enc_byte v @ rest) = Some (v, rest)"
  by (simp add: enc_byte_def)

lemmas byte_laws = dec_byte_enc emits_byte [unfolded One_nat_def] writes_byte [unfolded One_nat_def]
  reads_byte [unfolded One_nat_def]

interpretation per_choice: growing_codec enc_byte dec_byte "\<lambda>_. True"
  per_write_choice "\<lambda>_. ()" per_read_choice
  by unfold_locales (simp_all add: per_read_choice_def per_write_choice_def byte_laws)

interpretation per_selection: growing_codec enc_byte dec_byte "\<lambda>_. True"
  per_write_selection "\<lambda>_. ()" per_read_selection
  by unfold_locales (simp_all add: per_read_selection_def per_write_selection_def byte_laws)

interpretation per_number_of_sets: growing_codec enc_byte dec_byte "\<lambda>_. True"
  per_write_number_of_sets "\<lambda>_. ()" per_read_number_of_sets
  by unfold_locales (simp_all add: per_read_number_of_sets_def per_write_number_of_sets_def byte_laws)

text \<open>Padding: the reader skips, so the format is the zeros and the parser drops them.\<close>

lemma reads_padding: "reads (per_read_padding n) (skip_p (unat n))"
proof (rule reads_cong)
  show "reads (per_read_padding n) (check_p (unat n) (drop_p (unat n)))"
    unfolding per_read_padding_def
    by (intro reads_check, rule reads_when_last_unit, intro reads_when_intros) simp
qed (simp add: parser_defs skip_p_def)

interpretation per_padding: growing_codec "\<lambda>_::unit. replicate (unat n) 0" "skip_p (unat n)" "\<lambda>_. True"
  "\<lambda>m _. per_write_padding m n" "\<lambda>_. ()" "per_read_padding n" for n
proof unfold_locales
  show "skip_p (unat n) (replicate (unat n) 0 @ rest) = Some (v, rest)" for v :: unit and rest
    by (simp add: skip_p_def)
  show "emits (\<lambda>m. per_write_padding m n) () (replicate (unat n) 0)"
    unfolding per_write_padding_def by (intro emits_ensure writes_scalars) simp
  show "writes (per_write_padding m n) () (replicate (unat n) 0)" for m
    unfolding per_write_padding_def by (intro writes_ensure writes_scalars) simp
qed (rule reads_padding)

text \<open>Integers: a length and one, two or four bytes, most significant first.\<close>

definition enc_per_integer :: "32 word \<Rightarrow> byte list" where
  "enc_per_integer v =
     (if unat v < 256 then [1, ucast v]
      else if unat v < 65536 then 2 # be16 (ucast v) else 4 # be32 v)"

definition dec_per_integer :: "32 word parser" where
  "dec_per_integer = bind_p dec_per_length (\<lambda>n bs.
     if unat n \<le> length bs \<and> unat n \<le> 2
     then Some (word_of_nat (be_nat (take (unat n) bs)), drop (unat n) bs) else None)"

lemma reads_per_integer: "reads per_read_integer dec_per_integer"
  unfolding per_read_integer_def dec_per_integer_def
proof (rule reads_bind [OF reads_per_length], rule reads_cong)
  fix n :: "16 word"
  show "reads (bind_c (Stream_CheckAndLogRequiredLength (unat n)) (\<lambda>_.
       if n = 0 then return_c 0
       else if n = 1 then bind_c Stream_Read_UINT8 (\<lambda>v. return_c (ucast v))
       else if n = 2 then bind_c Stream_Read_UINT16_BE (\<lambda>v. return_c (ucast v)) else fail_c))
     (check_p (unat n) (if n = 0 then return_p (0 :: 32 word)
       else if n = 1 then bind_p u8_p (\<lambda>v. return_p (ucast v))
       else if n = 2 then bind_p u16_be_p (\<lambda>v. return_p (ucast v)) else fail_p))"
    by (intro reads_when_intros) simp_all
  fix bs
  have small: "unat n \<le> 2 \<longleftrightarrow> n = 0 \<or> n = 1 \<or> n = 2"
    by (simp add: word_unat_eq_iff) arith
  show "check_p (unat n) (if n = 0 then return_p (0 :: 32 word)
       else if n = 1 then bind_p u8_p (\<lambda>v. return_p (ucast v))
       else if n = 2 then bind_p u16_be_p (\<lambda>v. return_p (ucast v)) else fail_p) bs =
     (if unat n \<le> length bs \<and> unat n \<le> 2
     then Some (word_of_nat (be_nat (take (unat n) bs)), drop (unat n) bs) else None)"
    unfolding small
    by (auto simp: parser_defs ucast_get_u16_be be_nat_Cons Suc_le_eq take_Suc drop_Suc)
qed

lemma dec_per_length_small: "unat b < 128 \<Longrightarrow> dec_per_length (b # bs) = Some (ucast b, bs)"
  by (cases bs) simp_all

lemma dec_per_integer_enc:
  assumes "unat v < 65536"
  shows "dec_per_integer (enc_per_integer v @ rest) = Some (v, rest)"
proof -
  have "word_of_nat (be_nat (be16 (ucast v :: 16 word))) = v"
    using assms by (simp add: be_nat_word_be unat_ucast)
  then show ?thesis
    using assms by (auto simp: dec_per_integer_def enc_per_integer_def bind_p_def dec_per_length_small
        ucast_ucast_id be_nat_Cons)
qed

lemma emits_per_integer: "emits (\<lambda>m. per_write_integer m v) () (enc_per_integer v)"
proof -
  have len: "enc_per_length 1 = [1]" "enc_per_length 2 = [2]" "enc_per_length 4 = [4]"
    by (simp_all add: enc_per_length_def)
  have "emits (\<lambda>m. per_write_integer m v) () (if unat v < 256 then [1] @ [ucast v]
      else if unat v < 65536 then [2] @ be16 (ucast v) else [4] @ be32 v)"
    unfolding per_write_integer_def word_le_nat_alt
    by (auto simp flip: len simp: ucast_ucast_id intro!: emits_bind [OF emits_per_length] emits_ensure
       writes_scalars writes_cast)
  then show ?thesis by (auto simp: enc_per_integer_def split: if_splits)
qed

lemma writes_per_integer: "writes (per_write_integer m v) () (enc_per_integer v)"
proof -
  have len: "enc_per_length 1 = [1]" "enc_per_length 2 = [2]" "enc_per_length 4 = [4]"
    by (simp_all add: enc_per_length_def)
  have "writes (per_write_integer m v) () (if unat v < 256 then [1] @ [ucast v]
      else if unat v < 65536 then [2] @ be16 (ucast v) else [4] @ be32 v)"
    unfolding per_write_integer_def word_le_nat_alt
    by (auto simp flip: len simp: ucast_ucast_id intro!: writes_bind [OF writes_per_length]
       writes_ensure writes_scalars writes_cast)
  then show ?thesis by (auto simp: enc_per_integer_def split: if_splits)
qed

interpretation per_integer: growing_codec enc_per_integer dec_per_integer "\<lambda>v. unat v < 65536"
  per_write_integer "\<lambda>_. ()" per_read_integer
  by unfold_locales
    (simp_all add: dec_per_integer_enc emits_per_integer writes_per_integer reads_per_integer)

text \<open>Sixteen-bit integers with a lower bound.\<close>

definition enc_per_integer16 :: "16 word \<Rightarrow> 16 word \<Rightarrow> byte list" where
  "enc_per_integer16 mini v = be16 (v - mini)"

definition dec_per_integer16 :: "16 word \<Rightarrow> 16 word parser" where
  "dec_per_integer16 mini bs =
     (if 2 \<le> length bs \<and> be_nat (take 2 bs) + unat mini < 65536
      then Some (word_of_nat (be_nat (take 2 bs) + unat mini), drop 2 bs) else None)"

lemma reads_per_integer16: "reads (per_read_integer16 mini) (dec_per_integer16 mini)"
proof (rule reads_cong)
  show "reads (per_read_integer16 mini) (check_p 2 (bind_p u16_be_p (\<lambda>v.
      if v > 0xFFFF - mini then fail_p else return_p (v + mini))))"
    unfolding per_read_integer16_def by (intro reads_when_intros) simp_all
  fix bs :: "byte list"
  show "check_p 2 (bind_p u16_be_p (\<lambda>v.
      if v > 0xFFFF - mini then fail_p else return_p (v + mini))) bs = dec_per_integer16 mini bs"
  proof (cases "2 \<le> length bs")
    case True
    define k where "k = be_nat (take 2 bs)"
    have k: "k < 65536" using True be_nat_less [of "take 2 bs"] by (simp add: k_def)
    have v: "winpr_Data_Get_UINT16_BE bs = word_of_nat k"
      using True by (simp add: winpr_Data_Get_UINT16_BE_def data_get_be_nat k_def)
    have mini: "unat mini < 65536" using unsigned_less [where 'a = nat, of mini] by simp
    then have "unat (0xFFFF - mini) = 65535 - unat mini"
      by (subst unat_sub) (simp_all add: word_le_nat_alt)
    then have "(word_of_nat k > 0xFFFF - mini) \<longleftrightarrow> \<not> k + unat mini < 65536"
      using k mini by (simp add: word_less_nat_alt unat_of_nat) arith
    then show ?thesis using True by (simp add: parser_defs dec_per_integer16_def v flip: k_def)
  qed (simp add: parser_defs dec_per_integer16_def)
qed

lemma dec_per_integer16_enc:
  assumes "mini \<le> v"
  shows "dec_per_integer16 mini (enc_per_integer16 mini v @ rest) = Some (v, rest)"
proof -
  have le: "unat mini \<le> unat v" "unat v < 65536"
    using assms unsigned_less [where 'a = nat, of v] by (simp_all add: word_le_nat_alt)
  then have "be_nat (be16 (v - mini)) + unat mini = unat v"
    using assms by (simp add: be_nat_word_be unat_sub)
  with le show ?thesis by (simp add: dec_per_integer16_def enc_per_integer16_def)
qed

interpretation per_integer16: growing_codec "enc_per_integer16 mini" "dec_per_integer16 mini"
  "\<lambda>v. mini \<le> v" "\<lambda>m v. per_write_integer16 m v mini" "\<lambda>_. ()" "per_read_integer16 mini" for mini
proof unfold_locales
  show "emits (\<lambda>m. per_write_integer16 m v mini) () (enc_per_integer16 mini v)" if "mini \<le> v" for v
    using that unfolding per_write_integer16_def enc_per_integer16_def
    by (simp add: not_less [symmetric] emits_ensure writes_scalars)
  show "writes (per_write_integer16 m v mini) () (enc_per_integer16 mini v)" if "mini \<le> v" for m v
    using that unfolding per_write_integer16_def enc_per_integer16_def
    by (simp add: not_less [symmetric] writes_ensure writes_scalars)
qed (simp_all add: dec_per_integer16_enc reads_per_integer16)

text \<open>Enumerations: the reader checks the bound, the writer does not.\<close>

definition dec_per_enumerated :: "byte \<Rightarrow> byte parser" where
  "dec_per_enumerated count = bind_p dec_byte (\<lambda>v. if unat v < unat count then return_p v else fail_p)"

lemma reads_per_enumerated: "reads (per_read_enumerated count) (dec_per_enumerated count)"
proof (rule reads_cong)
  show "reads (per_read_enumerated count) (check_p 1 (bind_p u8_p (\<lambda>v.
      if unat v + 1 > unat count then fail_p else return_p v)))"
    unfolding per_read_enumerated_def by (intro reads_when_intros) simp_all
  show "check_p 1 (bind_p u8_p (\<lambda>v. if unat v + 1 > unat count then fail_p else return_p v)) bs =
      dec_per_enumerated count bs" for bs
    by (cases bs) (auto simp: parser_defs dec_per_enumerated_def)
qed

interpretation per_enumerated: growing_codec enc_byte "dec_per_enumerated count"
  "\<lambda>v. unat v < unat count" "\<lambda>m v. per_write_enumerated m v count" "\<lambda>_. ()"
  "per_read_enumerated count" for count
proof unfold_locales
  show "dec_per_enumerated count (enc_byte v @ rest) = Some (v, rest)" if "unat v < unat count" for v rest
    using that by (simp add: dec_per_enumerated_def dec_byte_enc return_p_def)
qed (simp_all add: reads_per_enumerated per_write_enumerated_def byte_laws)

text \<open>Object identifiers: six components, of which the first two share a byte.\<close>

definition oid_ok :: "byte list \<Rightarrow> bool" where
  "oid_ok oid \<longleftrightarrow> length oid = 6 \<and> unat (oid ! 1) < 40 \<and> unat (oid ! 0) * 40 + unat (oid ! 1) < 256"

definition enc_per_oid :: "byte list \<Rightarrow> byte list" where
  "enc_per_oid oid = 5 # (oid ! 0 * 40 + oid ! 1) # drop 2 oid"

definition dec_per_oid :: "byte list parser" where
  "dec_per_oid = bind_p dec_per_length (\<lambda>n bs.
     if n = 5 \<and> 5 \<le> length bs
     then Some ((hd bs div 40) # (hd bs mod 40) # take 4 (tl bs), drop 5 bs) else None)"

definition expect_p :: "'a \<Rightarrow> 'a parser \<Rightarrow> unit parser" where
  "expect_p v p = bind_p p (\<lambda>w. if w = v then return_p () else fail_p)"

lemma list_of_5: "5 \<le> length bs \<Longrightarrow> \<exists>a b c d e r. bs = a # b # c # d # e # r"
  by (auto simp: numeral_eq_Suc Suc_le_length_iff)

lemma array_at_ok: "i < length a \<Longrightarrow> array_at a i = return_c (a ! i)"
  by (rule ext) (simp add: array_at_def return_c_def)

lemma reads_per_oid:
  assumes "6 \<le> length oid"
  shows "reads (per_read_object_identifier oid) (expect_p (take 6 oid) dec_per_oid)"
proof (rule reads_cong)
  let ?q = "\<lambda>n :: 16 word. if n \<noteq> 5 then fail_p else check_p (unat n) (bind_p u8_p (\<lambda>t12. bind_p u8_p (\<lambda>a2.
      bind_p u8_p (\<lambda>a3. bind_p u8_p (\<lambda>a4. bind_p u8_p (\<lambda>a5.
      if take 6 [t12 div 40, t12 mod 40, a2, a3, a4, a5] = take 6 oid then return_p () else fail_p))))))"
  have check: "per_check_oid_and_log_mismatch [a, b, c, d, e, f] oid 6 =
      (if take 6 [a, b, c, d, e, f] = take 6 oid then return_c () else fail_c)" for a b c d e f
    using assms by (simp add: per_check_oid_and_log_mismatch_def)
  show "reads (per_read_object_identifier oid) (bind_p dec_per_length ?q)"
    unfolding per_read_object_identifier_def check
    by (intro reads_bind reads_per_length reads_when_intros) simp_all
  fix bs
  have "?q n bs = (if n = 5 \<and> 5 \<le> length bs
     then (if (hd bs div 40) # (hd bs mod 40) # take 4 (tl bs) = take 6 oid then Some ((), drop 5 bs)
       else None)
     else None)" for n and bs :: "byte list"
    by (cases "5 \<le> length bs") (auto simp: parser_defs dest!: list_of_5)
  then show "bind_p dec_per_length ?q bs = expect_p (take 6 oid) dec_per_oid bs"
    by (auto simp: expect_p_def dec_per_oid_def bind_p_def return_p_def fail_p_def split: option.split)
qed

lemma oid_bytes:
  assumes "oid_ok oid"
  shows "(oid ! 0 * 40 + oid ! 1) div 40 = oid ! 0" "(oid ! 0 * 40 + oid ! 1) mod 40 = oid ! 1"
proof -
  have "unat (oid ! 0 * 40 + oid ! 1) = unat (oid ! 0) * 40 + unat (oid ! 1)"
    using assms by (simp add: oid_ok_def unat_word_ariths)
  then have "unat ((oid ! 0 * 40 + oid ! 1) div 40) = unat (oid ! 0)"
    "unat ((oid ! 0 * 40 + oid ! 1) mod 40) = unat (oid ! 1)"
    using assms by (simp_all add: unat_div unat_mod oid_ok_def)
  then show "(oid ! 0 * 40 + oid ! 1) div 40 = oid ! 0" "(oid ! 0 * 40 + oid ! 1) mod 40 = oid ! 1"
    by (simp_all only: word_unat_eq_iff)
qed

lemma dec_per_oid_enc:
  assumes "oid_ok oid"
  shows "dec_per_oid (enc_per_oid oid @ rest) = Some (oid, rest)"
proof -
  have len: "length oid = 6" using assms by (simp add: oid_ok_def)
  then have "oid ! 0 # oid ! 1 # drop 2 oid = oid"
    by (simp add: Cons_nth_drop_Suc numeral_2_eq_2)
  then show ?thesis using len oid_bytes [OF assms]
    by (simp add: dec_per_oid_def enc_per_oid_def dec_per_length_small)
qed

lemma per_write_object_identifier_ok:
  assumes "length oid = 6"
  shows "per_write_object_identifier malloc oid = bind_c (Stream_EnsureRemainingCapacity malloc 6) (\<lambda>_.
      bind_c (Stream_Write_UINT8 5) (\<lambda>_. bind_c (Stream_Write_UINT8 (oid ! 0 * 40 + oid ! 1)) (\<lambda>_.
      bind_c (Stream_Write_UINT8 (oid ! 2)) (\<lambda>_. bind_c (Stream_Write_UINT8 (oid ! 3)) (\<lambda>_.
      bind_c (Stream_Write_UINT8 (oid ! 4)) (\<lambda>_. Stream_Write_UINT8 (oid ! 5)))))))"
  using assms by (simp add: per_write_object_identifier_def array_at_ok Let_def)

lemma writes_per_oid_body:
  assumes "length oid = 6"
  shows "writes (bind_c (Stream_Write_UINT8 5) (\<lambda>_.
      bind_c (Stream_Write_UINT8 (oid ! 0 * 40 + oid ! 1)) (\<lambda>_.
      bind_c (Stream_Write_UINT8 (oid ! 2)) (\<lambda>_. bind_c (Stream_Write_UINT8 (oid ! 3)) (\<lambda>_.
      bind_c (Stream_Write_UINT8 (oid ! 4)) (\<lambda>_. Stream_Write_UINT8 (oid ! 5))))))) () (enc_per_oid oid)"
proof (rule writes_cong)
  show "[5] @ [oid ! 0 * 40 + oid ! 1] @ [oid ! 2] @ [oid ! 3] @ [oid ! 4] @ [oid ! 5] = enc_per_oid oid"
    using assms by (auto simp: enc_per_oid_def numeral_eq_Suc length_Suc_conv)
qed (intro writes_seq writes_scalars)

lemma emits_per_oid:
  assumes "oid_ok oid"
  shows "emits (\<lambda>m. per_write_object_identifier m oid) () (enc_per_oid oid)"
    "writes (per_write_object_identifier m oid) () (enc_per_oid oid)"
proof -
  have 6: "length oid = 6" using assms by (simp add: oid_ok_def)
  show "emits (\<lambda>m. per_write_object_identifier m oid) () (enc_per_oid oid)"
    unfolding per_write_object_identifier_ok [OF 6]
    by (rule emits_ensure [OF writes_per_oid_body [OF 6]]) (simp add: enc_per_oid_def 6)
  show "writes (per_write_object_identifier m oid) () (enc_per_oid oid)"
    unfolding per_write_object_identifier_ok [OF 6]
    by (rule writes_ensure [OF writes_per_oid_body [OF 6]]) (simp add: enc_per_oid_def 6)
qed

lemma dec_expected_oid:
  "oid_ok oid \<Longrightarrow> expect_p (take 6 oid) dec_per_oid (enc_per_oid oid @ rest) = Some ((), rest)"
  by (simp add: expect_p_def dec_per_oid_enc bind_p_def return_p_def) (simp add: oid_ok_def)

text \<open>Octet strings of an expected content, and numeric strings.\<close>

definition enc_per_octet_string :: "byte list \<Rightarrow> 16 word \<Rightarrow> byte list" where
  "enc_per_octet_string str mini = enc_per_length (word_of_nat (length str) - mini) @ str"

definition dec_per_octet_string :: "byte list \<Rightarrow> 16 word \<Rightarrow> 16 word \<Rightarrow> unit parser" where
  "dec_per_octet_string str len mini = bind_p dec_per_length (\<lambda>n bs.
     if unat n + unat mini = unat len \<and> unat len \<le> length bs \<and> take (unat len) bs = take (unat len) str
     then Some ((), drop (unat len) bs) else None)"

lemma reads_when_expected:
  assumes "n \<le> length str"
  shows "reads_when n (bind_c Stream_ConstPointer (\<lambda>a. bind_c (Stream_Seek n) (\<lambda>_.
      per_check_oid_and_log_mismatch a str n)))
    (bind_p (bytes_p n) (\<lambda>a. if a = take n str then return_p () else fail_p))"
  unfolding reads_when_def
proof (intro allI impI)
  fix s assume s: "readable s \<and> n \<le> length (remaining s)"
  then have "n \<le> length (drop (s_pointer s) (s_buffer s))"
    using remaining_le_room [of s] by (auto simp: readable_def wf_stream_def room_def)
  then have "bind_c Stream_ConstPointer (\<lambda>a. bind_c (Stream_Seek n) (\<lambda>_. per_check_oid_and_log_mismatch a str n)) s =
      (if take n (remaining s) = take n str then Success () (advance n s) else Failure (advance n s))"
    using s assms remaining_le_room [of s] take_remaining [of n s]
    by (auto simp: bind_c_def Stream_ConstPointer_def per_check_oid_and_log_mismatch_def stream_exec
        return_c_def fail_c_def)
  then show "agrees s (bind_p (bytes_p n) (\<lambda>a. if a = take n str then return_p () else fail_p) (remaining s))
      (bind_c Stream_ConstPointer (\<lambda>a. bind_c (Stream_Seek n) (\<lambda>_. per_check_oid_and_log_mismatch a str n)) s)"
    using s by (auto simp: parser_defs)
qed

lemma reads_per_octet_string:
  assumes "unat len \<le> length str"
  shows "reads (per_read_octet_string str len mini) (dec_per_octet_string str len mini)"
  unfolding per_read_octet_string_def dec_per_octet_string_def
proof (rule reads_bind [OF reads_per_length], rule reads_cong)
  fix n :: "16 word" and bs :: "byte list"
  let ?q = "if unat n + unat mini \<noteq> unat len then fail_p
    else check_p (unat len) (bind_p (bytes_p (unat len)) (\<lambda>a. if a = take (unat len) str then return_p () else fail_p))"
  show "reads (if unat n + unat mini \<noteq> unat len then fail_c
      else bind_c (Stream_CheckAndLogRequiredLength (unat len)) (\<lambda>_.
        bind_c Stream_ConstPointer (\<lambda>a. bind_c (Stream_Seek (unat len)) (\<lambda>_.
        per_check_oid_and_log_mismatch a str (unat len))))) ?q"
    by (intro reads_if reads_fail reads_check reads_when_expected assms)
  show "?q bs = (if unat n + unat mini = unat len \<and> unat len \<le> length bs \<and>
      take (unat len) bs = take (unat len) str then Some ((), drop (unat len) bs) else None)"
    by (simp add: parser_defs)
qed

lemma writes_octets:
  "i + n \<le> length str \<Longrightarrow> writes (per_write_octets str i n) () (take n (drop i str))"
proof (induction n arbitrary: i)
  case 0
  then show ?case by (simp add: writes_return)
next
  case (Suc n)
  have "take (Suc n) (drop i str) = [str ! i] @ take n (drop (Suc i) str)"
    using Suc.prems by (simp add: take_Suc_conv_app_nth Cons_nth_drop_Suc [symmetric])
  moreover have "writes (bind_c (Stream_Write_UINT8 (str ! i)) (\<lambda>_. per_write_octets str (Suc i) n)) ()
      ([str ! i] @ take n (drop (Suc i) str))"
    using Suc.prems by (intro writes_seq writes_scalars Suc.IH) simp
  ultimately show ?case using Suc.prems by simp
qed

definition octet_string_ok :: "byte list \<Rightarrow> 16 word \<Rightarrow> bool" where
  "octet_string_ok str mini \<longleftrightarrow> length str < 65536 \<and> unat mini \<le> length str \<and>
     length str - unat mini < 32768"

lemma octet_string_length:
  assumes "octet_string_ok str mini"
  shows "unat (word_of_nat (length str) :: 16 word) = length str"
    and "mini \<le> word_of_nat (length str)"
    and "unat (word_of_nat (length str) - mini) = length str - unat mini"
proof -
  show *: "unat (word_of_nat (length str) :: 16 word) = length str"
    using assms by (simp add: octet_string_ok_def unat_of_nat)
  show le: "mini \<le> word_of_nat (length str)"
    using assms * by (simp add: octet_string_ok_def word_le_nat_alt)
  show "unat (word_of_nat (length str) - mini) = length str - unat mini"
    using * by (simp add: unat_sub [OF le])
qed

interpretation per_octet_string: growing_codec "\<lambda>_::unit. enc_per_octet_string str mini"
  "dec_per_octet_string str (word_of_nat (length str)) mini" "\<lambda>_. octet_string_ok str mini"
  "\<lambda>m _. per_write_octet_string m str (word_of_nat (length str)) mini" "\<lambda>_. ()"
  "per_read_octet_string str (word_of_nat (length str)) mini" for str mini
proof unfold_locales
  assume ok: "octet_string_ok str mini"
  note len = octet_string_length [OF ok]
  show "dec_per_octet_string str (word_of_nat (length str)) mini (enc_per_octet_string str mini @ rest) =
    Some (v, rest)" for v :: unit and rest
    using ok dec_per_length_enc [of "word_of_nat (length str) - mini" "str @ rest"]
    by (simp add: dec_per_octet_string_def enc_per_octet_string_def len octet_string_ok_def)
  show "emits (\<lambda>m. per_write_octet_string m str (word_of_nat (length str)) mini) ()
      (enc_per_octet_string str mini)"
    unfolding per_write_octet_string_def enc_per_octet_string_def Let_def if_P [OF len(2)]
    using writes_octets [of 0 "length str" str]
    by (intro emits_bind [OF emits_per_length] emits_ensure) (simp_all add: len)
  show "writes (per_write_octet_string m str (word_of_nat (length str)) mini) ()
      (enc_per_octet_string str mini)" for m
    unfolding per_write_octet_string_def enc_per_octet_string_def Let_def if_P [OF len(2)]
    using writes_octets [of 0 "length str" str]
    by (intro writes_bind [OF writes_per_length] writes_ensure) (simp_all add: len)
qed (rule reads_per_octet_string, simp add: unat_of_nat)

fun enc_digits :: "byte list \<Rightarrow> byte list" where
  "enc_digits [] = []"
| "enc_digits [c] = [push_bit 4 ((c - 0x30) mod 10) OR 0]"
| "enc_digits (c # d # cs) = (push_bit 4 ((c - 0x30) mod 10) OR ((d - 0x30) mod 10)) # enc_digits cs"

lemma length_enc_digits [simp]: "length (enc_digits cs) = (length cs + 1) div 2"
  by (induction cs rule: enc_digits.induct) simp_all

definition enc_per_numeric_string :: "byte list \<Rightarrow> 16 word \<Rightarrow> byte list" where
  "enc_per_numeric_string str mini = enc_per_length (word_of_nat (length str) - mini) @ enc_digits str"

definition dec_per_numeric_string :: "16 word \<Rightarrow> unit parser" where
  "dec_per_numeric_string mini =
     bind_p dec_per_length (\<lambda>n. skip_p ((unat n + unat mini + 1) div 2))"

lemma reads_per_numeric_string:
  "reads (per_read_numeric_string mini) (dec_per_numeric_string mini)"
  unfolding per_read_numeric_string_def dec_per_numeric_string_def Let_def
proof (rule reads_bind [OF reads_per_length], rule reads_cong)
  fix n :: "16 word" and bs :: "byte list"
  let ?k = "(unat n + unat mini + 1) div 2"
  show "reads (bind_c (Stream_CheckAndLogRequiredLength ?k) (\<lambda>_. Stream_Seek ?k))
      (check_p ?k (drop_p ?k))"
    by (intro reads_check, rule reads_when_last_unit, intro reads_when_intros) simp
  show "check_p ?k (drop_p ?k) bs = skip_p ?k bs" by (simp add: parser_defs skip_p_def)
qed

lemma enc_digits_drop:
  "i < length str \<Longrightarrow> enc_digits (drop i str) =
     (push_bit 4 ((str ! i - 0x30) mod 10) OR
       (((if i + 1 < length str then str ! (i + 1) else 0x30) - 0x30) mod 10)) #
     enc_digits (drop (i + 2) str)"
  by (cases "i + 1 < length str") (simp_all add: Cons_nth_drop_Suc [symmetric])

lemma writes_digits:
  assumes "unat len = length str" "length str < 65535" "\<forall>c \<in> set str. 0x30 \<le> c"
  shows "unat i \<le> length str + 1 \<Longrightarrow> (length str - unat i + 1) div 2 < fuel \<Longrightarrow>
    writes (per_write_digits fuel str len i) () (enc_digits (drop (unat i) str))"
proof (induction fuel arbitrary: i)
  case (Suc fuel)
  show ?case
  proof (cases "unat i < length str")
    case False
    then show ?thesis using assms(1) by (simp add: word_less_nat_alt writes_return)
  next
    case True
    then have i2: "unat (i + 2) = unat i + 2" using assms(2) by (simp add: unat_word_ariths)
    have fuel: "(length str - (unat i + 2) + 1) div 2 < fuel" using Suc.prems(2) True by arith
    let ?d = "if unat i + 1 < length str then str ! (unat i + 1) else 0x30"
    have "0x30 \<le> str ! unat i" "0x30 \<le> ?d" using True assms(3) by auto
    then have run: "per_write_digits (Suc fuel) str len i = bind_c
        (Stream_Write_UINT8 (push_bit 4 ((str ! unat i - 0x30) mod 10) OR ((?d - 0x30) mod 10)))
        (\<lambda>_. per_write_digits fuel str len (i + 2))"
      using True assms(1) by (auto simp: word_less_nat_alt Let_def linorder_not_less [symmetric])
    have "writes (per_write_digits fuel str len (i + 2)) () (enc_digits (drop (unat i + 2) str))"
      using Suc.IH [of "i + 2"] fuel True by (simp add: i2)
    then show ?thesis
      unfolding run enc_digits_drop [OF True] using writes_seq [OF writes_scalars(1)] by force
  qed
qed simp

lemma per_write_numeric_string_ok:
  assumes "octet_string_ok str mini" "length str < 65535" "\<forall>c \<in> set str. 0x30 \<le> c"
    and "wf_stream s" "length (enc_per_length (word_of_nat (length str) - mini)) + length str \<le> room s"
  shows "per_write_numeric_string m str (word_of_nat (length str)) mini s =
    Success () (put (enc_per_numeric_string str mini) s)"
proof -
  note len = octet_string_length [OF assms(1)]
  let ?n = "enc_per_length (word_of_nat (length str) - mini)"
  have "per_write_length m (word_of_nat (length str) - mini) s = Success () (put ?n s)"
    using writes_per_length assms(4,5) by (simp add: writes_def)
  moreover have "Stream_EnsureRemainingCapacity m (length str) (put ?n s) = Success () (put ?n s)"
    using assms(4,5) by (intro EnsureRemainingCapacity_room) simp_all
  moreover have "per_write_digits (room (put ?n s) + 2) str (word_of_nat (length str)) 0 (put ?n s) =
      Success () (put (enc_digits str) (put ?n s))"
    using writes_digits [of "word_of_nat (length str)" str 0 "room (put ?n s) + 2"] assms len(1)
    by (simp add: writes_def del: per_write_digits.simps)
  ultimately show ?thesis using assms(4,5) len(1)
    by (simp del: per_write_digits.simps add: per_write_numeric_string_def Let_def len(2) bind_c_def enc_per_numeric_string_def)
qed

lemma dec_per_numeric_string_enc:
  assumes "octet_string_ok str mini"
  shows "dec_per_numeric_string mini (enc_per_numeric_string str mini @ rest) = Some ((), rest)"
  using assms octet_string_length [OF assms]
    dec_per_length_enc [of "word_of_nat (length str) - mini" "enc_digits str @ rest"]
  by (simp add: dec_per_numeric_string_def enc_per_numeric_string_def skip_p_def octet_string_ok_def)

text \<open>
  With 65535 digits the counter goes from 65534 back to 0 and never reaches the length: the loop writes the
  digits again and again until the stream is full.
\<close>

lemma per_write_digits_wraps:
  assumes "length str = 65535" "\<forall>c \<in> set str. 0x30 \<le> c"
  shows "even (unat i) \<Longrightarrow> wf_stream s \<Longrightarrow> room s < fuel \<Longrightarrow>
    per_write_digits fuel str 65535 i s = Fault AssertionFailure"
proof (induction fuel arbitrary: i s)
  case (Suc fuel)
  have "unat i < 65536" using unsigned_less [where 'a = nat, of i] by simp
  then have i: "unat i < 65535" using Suc.prems(1) by (cases "unat i = 65535") auto
  have "i < 65535" using i by (simp add: word_less_nat_alt)
  have "0x30 \<le> str ! unat i" using assms i by simp
  moreover have "0x30 \<le> (if unat i + 1 < 65535 then str ! (unat i + 1) else 0x30)" using assms by simp
  ultimately obtain v where run: "per_write_digits (Suc fuel) str 65535 i =
      bind_c (Stream_Write_UINT8 v) (\<lambda>_. per_write_digits fuel str 65535 (i + 2))"
    using i \<open>i < 65535\<close> assms(1) by (auto simp: Let_def linorder_not_less [symmetric])
  show ?case
  proof (cases "room s = 0")
    case True
    then have "Stream_Write_UINT8 v s = Fault AssertionFailure"
      using Suc.prems(2) u8.write_scalar_full [of s] by (simp add: Stream_Write_UINT8_def)
    then show ?thesis unfolding run by (simp add: bind_c_def)
  next
    case False
    then have "Stream_Write_UINT8 v s = Success () (put [v] s)"
      using Suc.prems(2) by (simp add: stream_exec Suc_le_eq)
    moreover have "unat (i + 2) = (unat i + 2) mod 65536" by (simp add: unat_word_ariths)
    then have "even (unat (i + 2))" using Suc.prems(1) dvd_mod [of 2 "unat i + 2" 65536] by simp
    then have "per_write_digits fuel str 65535 (i + 2) (put [v] s) = Fault AssertionFailure"
      using Suc.prems False by (intro Suc.IH) (auto simp: Suc_le_eq)
    ultimately show ?thesis unfolding run by (simp add: bind_c_def)
  qed
qed simp

lemma per_write_numeric_string_wraps:
  assumes "octet_string_ok str mini" "length str = 65535" "\<forall>c \<in> set str. 0x30 \<le> c"
    and "wf_stream s" "length str + 2 \<le> room s"
  shows "per_write_numeric_string m str (word_of_nat (length str)) mini s = Fault AssertionFailure"
proof -
  note len = octet_string_length [OF assms(1)]
  let ?n = "enc_per_length (word_of_nat (length str) - mini)"
  have fits: "length ?n + length str \<le> room s" using assms(5) by (auto simp: enc_per_length_def)
  then have "per_write_length m (word_of_nat (length str) - mini) s = Success () (put ?n s)"
    using writes_per_length assms(4) by (simp add: writes_def)
  moreover have "Stream_EnsureRemainingCapacity m (length str) (put ?n s) = Success () (put ?n s)"
    using assms(4) fits by (intro EnsureRemainingCapacity_room) simp_all
  moreover have "per_write_digits (room (put ?n s) + 2) str 65535 0 (put ?n s) = Fault AssertionFailure"
    using assms(4) fits by (intro per_write_digits_wraps [OF assms(2,3)]) simp_all
  ultimately show ?thesis using len assms(2)
    by (simp del: per_write_digits.simps add: per_write_numeric_string_def Let_def bind_c_def)
qed

lemma per_write_digits_fuel:
  "wf_stream s \<Longrightarrow> room s + 1 < fuel \<Longrightarrow> per_write_digits fuel str len i s \<noteq> Fault NonTermination"
proof (induction fuel arbitrary: i s)
  case (Suc fuel)
  show ?case
  proof (cases "room s = 0")
    case True
    then have "Stream_Write_UINT8 v s = Fault AssertionFailure" for v
      using Suc.prems u8.write_scalar_full [of s] by (simp add: Stream_Write_UINT8_def)
    then show ?thesis by (simp add: bind_c_def Let_def fail_c_def return_c_def)
  next
    case False
    then have "Stream_Write_UINT8 v s = Success () (put [v] s)" for v
      using Suc.prems by (simp add: stream_exec Suc_le_eq)
    moreover have "per_write_digits fuel str len j (put [v] s) \<noteq> Fault NonTermination" for j v
      using Suc False by (intro Suc.IH) (auto simp: Suc_le_eq)
    ultimately show ?thesis by (simp add: bind_c_def Let_def fail_c_def return_c_def)
  qed
qed simp

section \<open>Properties\<close>

text \<open>
  C2: on every stream with valid fields, each reader of \<open>per.c\<close> computes the parser of its format on the
  unread bytes: it never asserts, never reads outside the valid data, moves only the cursor, and returns
  FALSE exactly when the parser rejects. The two readers that compare with an expected content are given
  an array of at least the number of bytes they compare, as their parameters declare.
\<close>

theorem per_readers_exact:
  assumes "6 \<le> length oid" "unat len \<le> length str"
  shows "reads per_read_length dec_per_length \<and> reads per_read_choice dec_byte \<and>
   reads per_read_selection dec_byte \<and> reads per_read_number_of_sets dec_byte \<and>
   reads (per_read_padding n) (skip_p (unat n)) \<and> reads per_read_integer dec_per_integer \<and>
   reads (per_read_integer16 mini) (dec_per_integer16 mini) \<and>
   reads (per_read_enumerated count) (dec_per_enumerated count) \<and>
   reads (per_read_object_identifier oid) (expect_p (take 6 oid) dec_per_oid) \<and>
   reads (per_read_octet_string str len mini) (dec_per_octet_string str len mini) \<and>
   reads (per_read_numeric_string mini) (dec_per_numeric_string mini)"
  by (intro conjI reads_per_length per_choice.rdm_reads per_selection.rdm_reads
      per_number_of_sets.rdm_reads reads_padding reads_per_integer reads_per_integer16
      reads_per_enumerated reads_per_oid reads_per_octet_string reads_per_numeric_string assms)

theorem per_readers_exact_witness:
  "(6 :: nat) \<le> length [0, 0, 20, 124, 0, 1 :: byte] \<and> unat (4 :: 16 word) \<le> length [68, 117, 99, 97 :: byte] \<and>
   per_read_octet_string [68, 117, 99, 97] 4 4 (Stream_StaticInit [0, 68, 117, 99, 97] (length [0, 68, 117, 99, 97 :: byte])) =
     Success () (advance 5 (Stream_StaticInit [0, 68, 117, 99, 97] (length [0, 68, 117, 99, 97 :: byte])))"
proof -
  let ?s = "Stream_StaticInit [0, 68, 117, 99, 97] (length [0, 68, 117, 99, 97 :: byte])"
  have r: "readable ?s" by (rule readable_static) simp
  have d: "dec_per_octet_string [68, 117, 99, 97] 4 4 (remaining ?s) = Some ((), [])"
    unfolding remaining_static by (simp add: dec_per_octet_string_def bind_p_def)
  have h: "(6 :: nat) \<le> length [0, 0, 20, 124, 0, 1 :: byte]" "unat (4 :: 16 word) \<le> length [68, 117, 99, 97 :: byte]"
    by simp_all
  then have "reads (per_read_octet_string [68, 117, 99, 97] 4 4) (dec_per_octet_string [68, 117, 99, 97] 4 4)"
    using per_readers_exact [OF h] by blast
  from reads_Some [OF this r d] obtain n where n: "n \<le> length (remaining ?s)" "[] = drop n (remaining ?s)"
    "per_read_octet_string [68, 117, 99, 97] 4 4 ?s = Success () (advance n ?s)" by metis
  then have "n = 5" unfolding remaining_static by simp
  with n(3) h show ?thesis by blast
qed

text \<open>
  C25: a PER length below \<open>0x8000\<close> written to a stream that can grow is appended to what was written
  before, and read back it is the same length with nothing left over.
\<close>

theorem per_length_round_trip:
  assumes "unat v < 0x8000" "growable 2 s" "memory_available malloc"
  shows "\<exists>t u w. per_write_length malloc v s = Success () t \<and> written t = written s @ enc_per_length v \<and>
    turn_around (s_pointer s) t = Success () u \<and> per_read_length u = Success v w \<and> remaining w = []"
proof -
  have "growable (length (enc_per_length v)) s"
    using assms(2) by (auto simp: growable_def enc_per_length_def)
  with per_length.emit_read assms show ?thesis by simp
qed

theorem per_length_round_trip_witness:
  "\<exists>t u w. per_write_length calloc 300 (blank 1) = Success () t \<and>
    written t = written (blank 1) @ enc_per_length 300 \<and>
    turn_around (s_pointer (blank 1)) t = Success () u \<and> per_read_length u = Success 300 w \<and>
    remaining w = []"
  by (rule per_length_round_trip) (simp_all add: growable_blank memory_available_calloc)

text \<open>
  C26: a PER integer below \<open>0x10000\<close> survives writing and reading.
\<close>

theorem per_integer_round_trip:
  assumes "unat v < 0x10000" "growable 3 s" "memory_available malloc"
  shows "\<exists>t u w. per_write_integer malloc v s = Success () t \<and>
    written t = written s @ enc_per_integer v \<and>
    turn_around (s_pointer s) t = Success () u \<and> per_read_integer u = Success v w \<and> remaining w = []"
proof -
  have "growable (length (enc_per_integer v)) s"
    using assms(1,2) by (auto simp: growable_def enc_per_integer_def)
  with per_integer.emit_read assms show ?thesis by simp
qed

theorem per_integer_round_trip_witness:
  "\<exists>t u w. per_write_integer calloc 0x1234 (blank 1) = Success () t \<and>
    written t = written (blank 1) @ enc_per_integer 0x1234 \<and>
    turn_around (s_pointer (blank 1)) t = Success () u \<and> per_read_integer u = Success 0x1234 w \<and>
    remaining w = []"
  by (rule per_integer_round_trip) (simp_all add: growable_blank memory_available_calloc)

text \<open>
  C29: \<open>per_write_integer\<close> accepts larger integers and writes them as the length 4 and four bytes, which
  \<open>per_read_integer\<close> rejects: no integer from \<open>0x10000\<close> on can be read back.
\<close>

theorem per_integer_wide_rejected:
  assumes "0x10000 \<le> unat v" "growable 5 s" "memory_available malloc"
  shows "\<exists>t u w. per_write_integer malloc v s = Success () t \<and> written t = written s @ 4 # be32 v \<and>
    turn_around (s_pointer s) t = Success () u \<and> per_read_integer u = Failure w"
proof (rule emit_rejected [OF _ reads_per_integer _ _ assms(3)])
  have v: "enc_per_integer v = 4 # be32 v" using assms(1) by (simp add: enc_per_integer_def)
  show "emits (\<lambda>m. per_write_integer m v) () (4 # be32 v)" using emits_per_integer [of v] by (simp add: v)
  show "dec_per_integer (4 # be32 v) = None" by (simp add: dec_per_integer_def dec_per_length_small bind_p_def)
  show "growable (length (4 # be32 v)) s" using assms(2) by simp
qed

theorem per_integer_wide_rejected_witness:
  "\<exists>t u w. per_write_integer calloc 0x10000 (blank 1) = Success () t \<and>
    written t = written (blank 1) @ 4 # be32 0x10000 \<and>
    turn_around (s_pointer (blank 1)) t = Success () u \<and> per_read_integer u = Failure w"
  by (rule per_integer_wide_rejected) (simp_all add: growable_blank memory_available_calloc)





end
