(* ===== verification/GccConference.thy ===== *)
theory GccConference
  imports GccBlocks Per
begin

text \<open>
  The conference PDUs of \<open>libfreerdp/core/gcc.c\<close>: the loops over the client and the server data blocks, the
  functions that write all blocks, and the Conference Create Request and Response around them.
\<close>

section \<open>The client data blocks\<close>

text \<open>The stream \<open>sub\<close> over one block; what a handler leaves unread there is only logged.\<close>

definition on_sub :: "('w, unit) mcs_fun \<Rightarrow> wStream \<Rightarrow> ('w, unit) mcs_fun" where
  "on_sub f sub = (\<lambda>(s, m). case f (sub, m) of
     Fault e \<Rightarrow> Fault e
   | Failure (_, m') \<Rightarrow> Failure (s, m')
   | Success _ (_, m') \<Rightarrow> Success () (s, m'))"

definition gcc_client_block :: "gcc_env \<Rightarrow> 16 word \<Rightarrow> ('w, unit) mcs_fun" where
  "gcc_client_block env type =
     (if type = CS_CORE then gcc_read_client_core_data env
      else if type = CS_SECURITY then gcc_read_client_security_data
      else if type = CS_NET then gcc_read_client_network_data
      else if type = CS_CLUSTER then gcc_read_client_cluster_data
      else if type = CS_MONITOR then gcc_read_client_monitor_data
      else if type = CS_MCS_MSGCHANNEL then gcc_read_client_message_channel_data
      else if type = CS_MONITOR_EX then gcc_read_client_monitor_extended_data
      else if type = CS_UNUSED1 then on_stream gcc_read_client_unused1_data
      else if type = 0xC009 \<or> type = CS_MULTITRANSPORT then gcc_read_client_multitransport_channel_data
      else return_c ())"

text \<open>One iteration of the loop: whether the block was a multitransport block, and the length that is left.\<close>

definition gcc_client_step :: "gcc_env \<Rightarrow> 16 word \<Rightarrow> ('w, bool \<times> 16 word) mcs_fun" where
  "gcc_client_step env len =
     bind_c (on_stream gcc_read_user_data_header) (\<lambda>(type, blockLength).
     bind_c (on_stream (Stream_CheckAndLogRequiredLength (unat (blockLength - 4)))) (\<lambda>_.
     bind_c (on_stream Stream_ConstPointer) (\<lambda>ptr.
     let sub = Stream_StaticConstInit (take (unat (blockLength - 4)) ptr) (unat (blockLength - 4)) in
     bind_c (on_stream (Stream_Seek (unat (blockLength - 4)))) (\<lambda>_.
     bind_c (on_sub (gcc_client_block env type) sub) (\<lambda>_.
     return_c (type = 0xC009 \<or> type = CS_MULTITRANSPORT, if blockLength > len then 0 else len - blockLength))))))"

partial_function (option) gcc_client_loop :: "gcc_env \<Rightarrow> bool \<Rightarrow> 16 word \<Rightarrow> wStream \<times> 'w rdpMcs \<Rightarrow>
    (wStream \<times> 'w rdpMcs, bool) outcome option" where
  "gcc_client_loop env got len x =
     (if len > 0 then
        case gcc_client_step env len x of
          Fault e \<Rightarrow> Some (Fault e)
        | Failure y \<Rightarrow> Some (Failure y)
        | Success (mt, rest) y \<Rightarrow> gcc_client_loop env (got \<or> mt) rest y
      else Some (Success got x))"

definition run_loop :: "('s, 'a) outcome option \<Rightarrow> ('s, 'a) outcome" where
  "run_loop r = (case r of None \<Rightarrow> Fault NonTermination | Some x \<Rightarrow> x)"

definition gcc_read_client_data_blocks :: "gcc_env \<Rightarrow> 16 word \<Rightarrow> ('w, unit) mcs_fun" where
  "gcc_read_client_data_blocks env len =
     bind_c (\<lambda>x. run_loop (gcc_client_loop env False len x)) (\<lambda>gotMultitransport.
     if \<not> gotMultitransport
     then change_settings (\<lambda>st. st\<lparr>st_SupportMultitransport := False, st_MultitransportFlags := 0\<rparr>)
     else return_c ())"

definition EXTENDED_CLIENT_DATA_SUPPORTED :: "32 word" where "EXTENDED_CLIENT_DATA_SUPPORTED = 1"

definition gcc_write_client_data_blocks :: "gcc_env \<Rightarrow> 'w rdpMcs \<Rightarrow> (wStream, unit) cfun" where
  "gcc_write_client_data_blocks env m =
     (let st = mc_settings m; mon = st_monitor st; malloc = ge_malloc env;
          write_monitors = bind_c (gcc_write_client_monitor_data malloc mon) (\<lambda>_.
            gcc_write_client_monitor_extended_data malloc mon) in
      bind_c (gcc_write_client_core_data env st) (\<lambda>_.
      bind_c (gcc_write_client_cluster_data malloc st) (\<lambda>_.
      bind_c (gcc_write_client_security_data malloc (st_security st)) (\<lambda>_.
      bind_c (gcc_write_client_network_data malloc m) (\<lambda>_.
      if st_NegFlags st AND EXTENDED_CLIENT_DATA_SUPPORTED \<noteq> 0 then
        bind_c (if ms_UseMultimon mon \<and> \<not> ms_SpanMonitors mon then write_monitors else return_c ()) (\<lambda>_.
        bind_c (gcc_write_client_message_channel_data malloc m) (\<lambda>_.
        gcc_write_client_multitransport_channel_data malloc st))
      else if ms_UseMultimon mon \<and> \<not> ms_SpanMonitors mon \<and> ms_ForceMultimon mon then write_monitors
      else return_c ())))))"

section \<open>The server data blocks\<close>

definition gcc_server_block :: "gcc_env \<Rightarrow> 16 word \<Rightarrow> ('w, unit) mcs_fun" where
  "gcc_server_block env type =
     (if type = SC_CORE then gcc_read_server_core_data
      else if type = SC_SECURITY then gcc_read_server_security_data env
      else if type = SC_NET then gcc_read_server_network_data
      else if type = SC_MCS_MSGCHANNEL then gcc_read_server_message_channel_data
      else if type = SC_MULTITRANSPORT then gcc_read_server_multitransport_channel_data
      else return_c ())"

definition gcc_server_step :: "gcc_env \<Rightarrow> ('w, 16 word) mcs_fun" where
  "gcc_server_step env =
     bind_c (on_stream gcc_read_user_data_header) (\<lambda>(type, blockLength).
     bind_c (on_stream Stream_ConstPointer) (\<lambda>holdp.
     let sub = Stream_StaticInit (take (unat (blockLength - 4)) holdp) (unat (blockLength - 4)) in
     bind_c (on_stream (Stream_SafeSeek (unat (blockLength - 4)))) (\<lambda>_.
     bind_c (on_sub (gcc_server_block env type) sub) (\<lambda>_. return_c blockLength))))"

text \<open>The \<open>UINT16\<close> offset wraps around.\<close>

partial_function (option) gcc_server_loop :: "gcc_env \<Rightarrow> 16 word \<Rightarrow> 16 word \<Rightarrow> wStream \<times> 'w rdpMcs \<Rightarrow>
    (wStream \<times> 'w rdpMcs, unit) outcome option" where
  "gcc_server_loop env len offset x =
     (if offset < len then
        case gcc_server_step env x of
          Fault e \<Rightarrow> Some (Fault e)
        | Failure y \<Rightarrow> Some (Failure y)
        | Success blockLength y \<Rightarrow> gcc_server_loop env len (offset + blockLength) y
      else Some (Success () x))"

definition gcc_read_server_data_blocks :: "gcc_env \<Rightarrow> 16 word \<Rightarrow> ('w, unit) mcs_fun" where
  "gcc_read_server_data_blocks env len x = run_loop (gcc_server_loop env len 0 x)"

definition gcc_write_server_data_blocks :: "gcc_env \<Rightarrow> ('w, unit) mcs_fun" where
  "gcc_write_server_data_blocks env =
     bind_c get_state (\<lambda>m.
     bind_c (on_stream (gcc_write_server_core_data (ge_malloc env) (mc_settings m))) (\<lambda>_.
     bind_c (on_stream (gcc_write_server_network_data (ge_malloc env) m)) (\<lambda>_.
     bind_c (gcc_write_server_security_data env) (\<lambda>_.
     bind_c get_state (\<lambda>m.
     bind_c (on_stream (gcc_write_server_message_channel_data (ge_malloc env) m)) (\<lambda>_.
     if st_SupportMultitransport (mc_settings m) \<and> st_MultitransportFlags (mc_settings m) \<noteq> 0
     then on_stream (gcc_write_server_multitransport_channel_data (ge_malloc env) (mc_settings m))
     else return_c ()))))))"

section \<open>Conference Create Request and Response\<close>

definition t124_02_98_oid :: "byte list" where "t124_02_98_oid = [0, 0, 20, 124, 0, 1]"
definition h221_cs_key :: "byte list" where "h221_cs_key = [0x44, 0x75, 0x63, 0x61]"
definition h221_sc_key :: "byte list" where "h221_sc_key = [0x4D, 0x63, 0x44, 0x6E]"

definition gcc_read_conference_create_request :: "gcc_env \<Rightarrow> ('w, unit) mcs_fun" where
  "gcc_read_conference_create_request env =
     bind_c (on_stream per_read_choice) (\<lambda>_.
     bind_c (on_stream (per_read_object_identifier t124_02_98_oid)) (\<lambda>_.
     bind_c (on_stream per_read_length) (\<lambda>_.
     bind_c (on_stream per_read_choice) (\<lambda>_.
     bind_c (on_stream per_read_selection) (\<lambda>_.
     bind_c (on_stream (per_read_numeric_string 1)) (\<lambda>_.
     bind_c (on_stream (per_read_padding 1)) (\<lambda>_.
     bind_c (on_stream per_read_number_of_sets) (\<lambda>number.
     if number \<noteq> 1 then fail_c
     else
       bind_c (on_stream per_read_choice) (\<lambda>choice.
       if choice \<noteq> 0xC0 then fail_c
       else
         bind_c (on_stream (per_read_octet_string h221_cs_key 4 4)) (\<lambda>_.
         bind_c (on_stream per_read_length) (\<lambda>len.
         bind_c (on_stream (Stream_CheckAndLogRequiredLength (unat len))) (\<lambda>_.
         gcc_read_client_data_blocks env len))))))))))))"

definition gcc_write_conference_create_request :: "malloc \<Rightarrow> byte list \<Rightarrow> (wStream, unit) cfun" where
  "gcc_write_conference_create_request malloc userData =
     bind_c (per_write_choice malloc 0) (\<lambda>_.
     bind_c (per_write_object_identifier malloc t124_02_98_oid) (\<lambda>_.
     bind_c (assert_c (length userData \<le> 0xFFFF - 14)) (\<lambda>_.
     bind_c (per_write_length malloc (word_of_nat (length userData) + 14)) (\<lambda>_.
     bind_c (per_write_choice malloc 0) (\<lambda>_.
     bind_c (per_write_selection malloc 0x08) (\<lambda>_.
     bind_c (per_write_numeric_string malloc [0x31] 1 1) (\<lambda>_.
     bind_c (per_write_padding malloc 1) (\<lambda>_.
     bind_c (per_write_number_of_sets malloc 1) (\<lambda>_.
     bind_c (per_write_choice malloc 0xC0) (\<lambda>_.
     bind_c (per_write_octet_string malloc h221_cs_key 4 4) (\<lambda>_.
     bind_c (assert_c (length userData \<le> 0xFFFF)) (\<lambda>_.
     per_write_octet_string malloc userData (word_of_nat (length userData)) 0))))))))))))"

definition gcc_read_conference_create_response :: "gcc_env \<Rightarrow> ('w, unit) mcs_fun" where
  "gcc_read_conference_create_response env =
     bind_c (on_stream per_read_choice) (\<lambda>_.
     bind_c (on_stream (per_read_object_identifier t124_02_98_oid)) (\<lambda>_.
     bind_c (on_stream per_read_length) (\<lambda>_.
     bind_c (on_stream per_read_choice) (\<lambda>_.
     bind_c (on_stream (per_read_integer16 1001)) (\<lambda>_.
     bind_c (on_stream per_read_integer) (\<lambda>_.
     bind_c (on_stream (per_read_enumerated MCS_Result_enum_length)) (\<lambda>_.
     bind_c (on_stream per_read_number_of_sets) (\<lambda>_.
     bind_c (on_stream per_read_choice) (\<lambda>_.
     bind_c (on_stream (per_read_octet_string h221_sc_key 4 4)) (\<lambda>_.
     bind_c (on_stream per_read_length) (\<lambda>len.
     gcc_read_server_data_blocks env len)))))))))))"

definition gcc_write_conference_create_response :: "malloc \<Rightarrow> byte list \<Rightarrow> (wStream, unit) cfun" where
  "gcc_write_conference_create_response malloc userData =
     bind_c (per_write_choice malloc 0) (\<lambda>_.
     bind_c (per_write_object_identifier malloc t124_02_98_oid) (\<lambda>_.
     bind_c (per_write_length malloc 0x2A) (\<lambda>_.
     bind_c (per_write_choice malloc 0x14) (\<lambda>_.
     bind_c (per_write_integer16 malloc 0x79F3 1001) (\<lambda>_.
     bind_c (per_write_integer malloc 1) (\<lambda>_.
     bind_c (per_write_enumerated malloc 0 MCS_Result_enum_length) (\<lambda>_.
     bind_c (per_write_number_of_sets malloc 1) (\<lambda>_.
     bind_c (per_write_choice malloc 0xC0) (\<lambda>_.
     bind_c (per_write_octet_string malloc h221_sc_key 4 4) (\<lambda>_.
     bind_c (assert_c (length userData \<le> 0xFFFF)) (\<lambda>_.
     per_write_octet_string malloc userData (word_of_nat (length userData)) 0)))))))))))"

section \<open>The loops end and keep the invariant\<close>

abbreviation block_stream :: "byte list \<Rightarrow> wStream" where
  "block_stream bs \<equiv> Stream_StaticInit bs (length bs)"

lemma block_stream:
  "length bs < SIZE_MOD \<Longrightarrow> readable (block_stream bs)" "remaining (block_stream bs) = bs"
  "s_length (block_stream bs) = s_capacity (block_stream bs)"
  by (simp_all add: Stream_StaticInit_def readable_def wf_stream_def remaining_def)

definition dec_block_header :: "(16 word \<times> 16 word) parser" where
  "dec_block_header bs = (let len = winpr_Data_Get_UINT16 (drop 2 bs) in
     if 4 \<le> length bs \<and> 4 \<le> unat len \<and> unat len \<le> length bs
     then Some ((winpr_Data_Get_UINT16 bs, len), drop 4 bs) else None)"

lemma reads_block_header: "reads gcc_read_user_data_header dec_block_header"
proof (rule reads_cong)
  show "reads gcc_read_user_data_header (check_p 4 (bind_p u16_le_p (\<lambda>type. bind_p u16_le_p (\<lambda>len.
      if len < 4 then fail_p else check_p (unat (len - 4)) (return_p (type, len))))))"
    unfolding gcc_read_user_data_header_def
    by (intro reads_when_intros reads_when_if reads_when_basic) simp_all
  show "check_p 4 (bind_p u16_le_p (\<lambda>type. bind_p u16_le_p (\<lambda>len.
      if len < 4 then fail_p else check_p (unat (len - 4)) (return_p (type, len))))) bs = dec_block_header bs" for bs
  proof -
    let ?len = "winpr_Data_Get_UINT16 (drop 2 bs)"
    have "unat (?len - 4) = unat ?len - 4" if "\<not> ?len < 4"
      using that by (simp add: unat_sub word_le_nat_alt word_less_nat_alt)
    then show ?thesis by (auto simp: dec_block_header_def parser_defs Let_def word_less_nat_alt)
  qed
qed

lemma header_block:
  assumes "readable s" "dec_block_header (remaining s) = Some ((type, len), rest)"
  shows "gcc_read_user_data_header s = Success (type, len) (advance 4 s)" "4 \<le> unat len"
    "unat len \<le> length (remaining s)" "unat (len - 4) = unat len - 4"
proof -
  have d: "4 \<le> length (remaining s)" "4 \<le> unat len" "unat len \<le> length (remaining s)" "rest = drop 4 (remaining s)"
    using assms(2) by (auto simp: dec_block_header_def Let_def split: if_splits)
  from reads_block_header assms obtain n where n: "n \<le> length (remaining s)"
    "gcc_read_user_data_header s = Success (type, len) (advance n s)" "rest = drop n (remaining s)" by (rule reads_Some)
  have "length (drop n (remaining s)) = length (drop 4 (remaining s))" using n(3) d(4) by simp
  then have "n = 4" using n(1) d(1) by simp
  then show "gcc_read_user_data_header s = Success (type, len) (advance 4 s)" using n(2) by simp
  show "4 \<le> unat len" "unat len \<le> length (remaining s)" by (fact d)+
  then show "unat (len - 4) = unat len - 4" by (simp add: unat_sub word_le_nat_alt)
qed

text \<open>What a block of the message is given to its handler as.\<close>

definition block_data :: "16 word \<Rightarrow> byte list \<Rightarrow> byte list" where
  "block_data len bs = take (unat len - 4) (drop 4 bs)"

lemma client_step_block:
  assumes s: "readable s" and d: "dec_block_header (remaining s) = Some ((type, bl), rest)"
  shows "gcc_client_step env len (s, m) =
    (case gcc_client_block env type (block_stream (block_data bl (remaining s)), m) of
       Fault e \<Rightarrow> Fault e
     | Failure (_, m') \<Rightarrow> Failure (advance (unat bl) s, m')
     | Success _ (_, m') \<Rightarrow> Success (type = 0xC009 \<or> type = CS_MULTITRANSPORT, if bl > len then 0 else len - bl)
         (advance (unat bl) s, m'))"
proof -
  note h = header_block [OF s d]
  let ?n = "unat bl - 4" and ?t = "advance 4 s"
  have t: "readable ?t" "remaining ?t = drop 4 (remaining s)" "?n \<le> length (remaining ?t)" using s h by auto
  have a: "advance ?n ?t = advance (unat bl) s" using h(2) by simp
  have p: "take ?n (drop (s_pointer ?t) (s_buffer ?t)) = block_data bl (remaining s)"
    using t take_remaining [of ?n ?t] by (simp add: block_data_def)
  have l: "length (block_data bl (remaining s)) = ?n" using h by (simp add: block_data_def)
  show ?thesis
    using t remaining_le_room [of ?t]
    by (simp add: gcc_client_step_def bind_c_def on_stream_def h stream_exec Stream_ConstPointer_def Let_def a
        Stream_StaticConstInit_def on_sub_def return_c_def p l split: outcome.split prod.split)
qed

lemma client_step_no_block:
  assumes s: "readable s" and d: "dec_block_header (remaining s) = None"
  shows "\<exists>t. gcc_client_step env len (s, m) = Failure (t, m) \<and> moved s t"
proof -
  from reads_block_header s d obtain n where "n \<le> length (remaining s)" "gcc_read_user_data_header s = Failure (advance n s)"
    by (rule reads_None)
  then show ?thesis by (auto simp: gcc_client_step_def bind_c_def on_stream_def)
qed

lemma safe_client_block: "safe True wf_mcs 0 (gcc_client_block env type) (\<lambda>_. wf_mcs)"
  by (simp add: gcc_client_block_def safe_client_core safe_client_security safe_client_network safe_cluster
      safe_client_monitor safe_message_channel safe_client_monitor_extended safe_unused1 safe_multitransport safe_last)

text \<open>What one block does to the state.\<close>

lemma client_block_cases:
  assumes "wf_mcs m" "length bs < SIZE_MOD"
  obtains (fails) t m' where "gcc_client_block env type (block_stream bs, m) = Failure (t, m')"
    | (works) t m' where "gcc_client_block env type (block_stream bs, m) = Success () (t, m')" "wf_mcs m'"
  using safeD [OF safe_client_block block_stream(1) [OF assms(2)], of m env type] assms(1) that
  by (fastforce simp: block_stream safely_def split: outcome.splits)

lemma remaining_bound: "readable s \<Longrightarrow> length (remaining s) < SIZE_MOD"
  by (auto simp: readable_def wf_stream_def remaining_def)

lemma client_loop_safe:
  assumes "readable s" "wf_mcs m"
  shows "\<exists>r. gcc_client_loop env got len (s, m) = Some r \<and> safely s (\<lambda>_. wf_mcs) r"
  using assms
proof (induction "length (remaining s)" arbitrary: s m got len rule: less_induct)
  case less
  note unfold = gcc_client_loop.simps [of env got len "(s, m)"]
  show ?case
  proof (cases "len > 0")
    case False
    with less.prems show ?thesis by (simp add: unfold)
  next
    case len: True
    show ?thesis
    proof (cases "dec_block_header (remaining s)")
      case None
      with client_step_no_block [OF less.prems(1), of env len m] len show ?thesis by (auto simp: unfold)
    next
      case (Some a)
      obtain type bl rest where "a = ((type, bl), rest)" by (metis surj_pair)
      with Some have d: "dec_block_header (remaining s) = Some ((type, bl), rest)" by simp
      note step = client_step_block [OF less.prems(1) d, of env len m] and h = header_block [OF less.prems(1) d]
      let ?t = "advance (unat bl) s"
      have t: "readable ?t" "moved s ?t" "length (remaining ?t) < length (remaining s)" using less.prems(1) h by auto
      have "length (block_data bl (remaining s)) < SIZE_MOD"
        using remaining_bound [OF less.prems(1)] by (simp add: block_data_def)
      with less.prems(2) show ?thesis
      proof (cases rule: client_block_cases [where env = env and type = type])
        case fails
        with t len show ?thesis by (auto simp: unfold step)
      next
        case (works _ m')
        obtain r where r: "gcc_client_loop env (got \<or> type = 0xC009 \<or> type = CS_MULTITRANSPORT)
            (if bl > len then 0 else len - bl) (?t, m') = Some r" "safely ?t (\<lambda>_. wf_mcs) r"
          using less.hyps [OF t(3,1) works(2)] by blast
        with safely_moved [OF t(2)] works(1) len show ?thesis by (simp add: unfold step)
      qed
    qed
  qed
qed

lemma safe_client_data_blocks: "safe False wf_mcs k (gcc_read_client_data_blocks env len) (\<lambda>_. wf_mcs)"
  unfolding gcc_read_client_data_blocks_def changes
proof (rule safe_bind [where Q = "\<lambda>_. wf_mcs"])
  show "safe False wf_mcs k (\<lambda>x. run_loop (gcc_client_loop env False len x)) (\<lambda>_. wf_mcs)"
    using client_loop_safe [of _ _ env False len] by (fastforce simp: safe_def run_loop_def)
qed (rule safe_intros | (simp add: wf_simps; fail))+

lemma server_step_block:
  assumes s: "readable s" and d: "dec_block_header (remaining s) = Some ((type, bl), rest)"
  shows "gcc_server_step env (s, m) =
    (case gcc_server_block env type (block_stream (block_data bl (remaining s)), m) of
       Fault e \<Rightarrow> Fault e
     | Failure (_, m') \<Rightarrow> Failure (advance (unat bl) s, m')
     | Success _ (_, m') \<Rightarrow> Success bl (advance (unat bl) s, m'))"
proof -
  note h = header_block [OF s d]
  let ?n = "unat bl - 4" and ?t = "advance 4 s"
  have t: "readable ?t" "remaining ?t = drop 4 (remaining s)" "?n \<le> length (remaining ?t)" using s h by auto
  have a: "advance ?n ?t = advance (unat bl) s" using h(2) by simp
  have p: "take ?n (drop (s_pointer ?t) (s_buffer ?t)) = block_data bl (remaining s)"
    using t take_remaining [of ?n ?t] by (simp add: block_data_def)
  have l: "length (block_data bl (remaining s)) = ?n" using h by (simp add: block_data_def)
  have k: "Stream_SafeSeek ?n ?t = Success () (advance (unat bl) s)"
    using t remaining_le_room [of ?t] a by (simp add: Stream_SafeSeek_def c_simps stream_exec)
  show ?thesis
    by (simp add: gcc_server_step_def bind_c_def on_stream_def h Stream_ConstPointer_def Let_def k
        on_sub_def return_c_def p l split: outcome.split prod.split)
qed

lemma server_step_no_block:
  assumes s: "readable s" and d: "dec_block_header (remaining s) = None"
  shows "\<exists>t. gcc_server_step env (s, m) = Failure (t, m) \<and> moved s t"
proof -
  from reads_block_header s d obtain n where "n \<le> length (remaining s)" "gcc_read_user_data_header s = Failure (advance n s)"
    by (rule reads_None)
  then show ?thesis by (auto simp: gcc_server_step_def bind_c_def on_stream_def)
qed

lemma safe_server_block: "safe True wf_mcs 0 (gcc_server_block env type) (\<lambda>_. wf_mcs)"
  by (simp add: gcc_server_block_def safe_server_core safe_server_security safe_server_network
      safe_message_channel safe_multitransport safe_last)

lemma server_block_cases:
  assumes "wf_mcs m" "length bs < SIZE_MOD"
  obtains (fails) t m' where "gcc_server_block env type (block_stream bs, m) = Failure (t, m')"
    | (works) t m' where "gcc_server_block env type (block_stream bs, m) = Success () (t, m')" "wf_mcs m'"
  using safeD [OF safe_server_block block_stream(1) [OF assms(2)], of m env type] assms(1) that
  by (fastforce simp: block_stream safely_def split: outcome.splits)

lemma server_loop_safe:
  assumes "readable s" "wf_mcs m"
  shows "\<exists>r. gcc_server_loop env len offset (s, m) = Some r \<and> safely s (\<lambda>_. wf_mcs) r"
  using assms
proof (induction "length (remaining s)" arbitrary: s m offset rule: less_induct)
  case less
  note unfold = gcc_server_loop.simps [of env len offset "(s, m)"]
  show ?case
  proof (cases "offset < len")
    case False
    with less.prems show ?thesis by (simp add: unfold)
  next
    case len: True
    show ?thesis
    proof (cases "dec_block_header (remaining s)")
      case None
      with server_step_no_block [OF less.prems(1), of env m] len show ?thesis by (auto simp: unfold)
    next
      case (Some a)
      obtain type bl rest where "a = ((type, bl), rest)" by (metis surj_pair)
      with Some have d: "dec_block_header (remaining s) = Some ((type, bl), rest)" by simp
      note step = server_step_block [OF less.prems(1) d, of env m] and h = header_block [OF less.prems(1) d]
      let ?t = "advance (unat bl) s"
      have t: "readable ?t" "moved s ?t" "length (remaining ?t) < length (remaining s)" using less.prems(1) h by auto
      have "length (block_data bl (remaining s)) < SIZE_MOD"
        using remaining_bound [OF less.prems(1)] by (simp add: block_data_def)
      with less.prems(2) show ?thesis
      proof (cases rule: server_block_cases [where env = env and type = type])
        case fails
        with t len show ?thesis by (auto simp: unfold step)
      next
        case (works _ m')
        obtain r where r: "gcc_server_loop env len (offset + bl) (?t, m') = Some r" "safely ?t (\<lambda>_. wf_mcs) r"
          using less.hyps [OF t(3,1) works(2)] by blast
        with safely_moved [OF t(2)] works(1) len show ?thesis by (simp add: unfold step)
      qed
    qed
  qed
qed

lemma safe_server_data_blocks: "safe False wf_mcs k (gcc_read_server_data_blocks env len) (\<lambda>_. wf_mcs)"
  using server_loop_safe [of _ _ env len 0] by (fastforce simp: safe_def run_loop_def gcc_read_server_data_blocks_def)

section \<open>The PER headers\<close>

lemma on_stream_seq: "on_stream (bind_c f g) = bind_c (on_stream f) (\<lambda>v. on_stream (g v))"
  by (rule ext) (auto simp: on_stream_def bind_c_def split: outcome.split)

lemma on_stream_basic: "on_stream (return_c v) = return_c v" "on_stream fail_c = fail_c"
  by (auto simp: on_stream_def return_c_def fail_c_def)

definition dec_create_request :: "16 word parser" where
  "dec_create_request =
     bind_p dec_byte (\<lambda>_. bind_p (expect_p t124_02_98_oid dec_per_oid) (\<lambda>_. bind_p dec_per_length (\<lambda>_.
     bind_p dec_byte (\<lambda>_. bind_p dec_byte (\<lambda>_. bind_p (dec_per_numeric_string 1) (\<lambda>_. bind_p (skip_p 1) (\<lambda>_.
     bind_p dec_byte (\<lambda>number. if number \<noteq> 1 then fail_p else
     bind_p dec_byte (\<lambda>choice. if choice \<noteq> 0xC0 then fail_p else
     bind_p (dec_per_octet_string h221_cs_key 4 4) (\<lambda>_. dec_per_length))))))))))"

definition request_header :: "(wStream, 16 word) cfun" where
  "request_header =
     bind_c per_read_choice (\<lambda>_. bind_c (per_read_object_identifier t124_02_98_oid) (\<lambda>_. bind_c per_read_length (\<lambda>_.
     bind_c per_read_choice (\<lambda>_. bind_c per_read_selection (\<lambda>_. bind_c (per_read_numeric_string 1) (\<lambda>_.
     bind_c (per_read_padding 1) (\<lambda>_. bind_c per_read_number_of_sets (\<lambda>number. if number \<noteq> 1 then fail_c else
     bind_c per_read_choice (\<lambda>choice. if choice \<noteq> 0xC0 then fail_c else
     bind_c (per_read_octet_string h221_cs_key 4 4) (\<lambda>_. per_read_length))))))))))"

lemma if_on_stream: "(if c then on_stream f else on_stream g) = on_stream (if c then f else g)"
  by simp

lemma bind_if_fail: "bind_c (if c then fail_c else f) g = (if c then fail_c else bind_c f g)"
  by (auto simp: bind_c_def fail_c_def)

lemma create_request_split:
  "gcc_read_conference_create_request env =
     bind_c (on_stream request_header) (\<lambda>len.
     bind_c (on_stream (Stream_CheckAndLogRequiredLength (unat len))) (\<lambda>_. gcc_read_client_data_blocks env len))"
  unfolding gcc_read_conference_create_request_def request_header_def on_stream_seq bind_c_assoc
    if_on_stream [symmetric] on_stream_basic bind_if_fail ..

lemma reads_oid: "reads (per_read_object_identifier t124_02_98_oid) (expect_p t124_02_98_oid dec_per_oid)"
  using reads_per_oid [of t124_02_98_oid] by (simp add: t124_02_98_oid_def)

lemma reads_keys: "reads (per_read_octet_string h221_cs_key 4 4) (dec_per_octet_string h221_cs_key 4 4)"
  "reads (per_read_octet_string h221_sc_key 4 4) (dec_per_octet_string h221_sc_key 4 4)"
  by (rule reads_per_octet_string, simp add: h221_cs_key_def h221_sc_key_def)+

lemmas reads_gcc = reads_bind reads_oid reads_per_length reads_per_numeric_string reads_padding [of 1, unfolded unsigned_1]
  reads_if reads_fail reads_keys reads_per_integer16 reads_per_integer reads_per_enumerated
  per_choice.rdm_reads per_selection.rdm_reads per_number_of_sets.rdm_reads

lemma reads_request_header: "reads request_header dec_create_request"
  unfolding request_header_def dec_create_request_def by (intro reads_gcc)

definition create_request_bytes :: "byte list \<Rightarrow> byte list" where
  "create_request_bytes ud = [0] @ enc_per_oid t124_02_98_oid @ enc_per_length (word_of_nat (length ud) + 14) @
     [0] @ [8] @ [0, 0x10] @ [0] @ [1] @ [0xC0] @ enc_per_octet_string h221_cs_key 4 @ enc_per_octet_string ud 0"

lemma emits_assert: "c \<Longrightarrow> emits f r bs \<Longrightarrow> emits (\<lambda>m. bind_c (assert_c c) (\<lambda>_. f m)) r bs"
  by (simp add: emits_def c_simps)

lemma emits_numeric_1: "emits (\<lambda>m. per_write_numeric_string m [0x31] 1 1) () [0, 0x10]"
proof -
  have "enc_digits [0x31] = [0x10]" by simp
  then have "writes (\<lambda>s. per_write_digits (room s + 2) [0x31] 1 0 s) () [0x10]"
    using writes_digits [of 1 "[0x31]" 0] unfolding writes_def by (simp del: per_write_digits.simps)
  then have "emits (\<lambda>m. bind_c (Stream_EnsureRemainingCapacity m 1) (\<lambda>_ s. per_write_digits (room s + 2) [0x31] 1 0 s)) () [0x10]"
    by (rule emits_ensure) simp
  from emits_bind [OF emits_per_length [of 0], where k = "\<lambda>m _. bind_c (Stream_EnsureRemainingCapacity m 1)
      (\<lambda>_ s. per_write_digits (room s + 2) [0x31] 1 0 s)", OF this]
  show ?thesis by (simp add: per_write_numeric_string_def enc_per_length_def del: per_write_digits.simps)
qed

lemma emits_oid: "emits (\<lambda>m. per_write_object_identifier m t124_02_98_oid) () (enc_per_oid t124_02_98_oid)"
  using emits_per_oid(1) [of t124_02_98_oid] by (simp add: oid_ok_def t124_02_98_oid_def)

lemma keys_ok: "octet_string_ok h221_cs_key 4" "octet_string_ok h221_sc_key 4" "length h221_cs_key = 4" "length h221_sc_key = 4"
  by (simp_all add: octet_string_ok_def h221_cs_key_def h221_sc_key_def)

lemma user_data_ok: "length ud < 32768 \<Longrightarrow> octet_string_ok ud 0"
  by (simp add: octet_string_ok_def)

lemmas emits_key = per_octet_string.wrm_emits [of h221_cs_key 4, OF keys_ok(1), unfolded keys_ok, simplified]
  per_octet_string.wrm_emits [of h221_sc_key 4, OF keys_ok(2), unfolded keys_ok, simplified]

lemmas emits_per = emits_assert emits_bind emits_oid emits_numeric_1 emits_per_length emits_key
  per_choice.wrm_emits [OF TrueI, unfolded enc_byte_def] per_selection.wrm_emits [OF TrueI, unfolded enc_byte_def]
  per_number_of_sets.wrm_emits [OF TrueI, unfolded enc_byte_def]
  per_padding.wrm_emits [OF TrueI, of 1, unfolded unsigned_1 replicate.simps One_nat_def]
  per_octet_string.wrm_emits [where mini = 0, OF user_data_ok]

lemma emits_create_request:
  assumes "length ud < 32768 - 14"
  shows "emits (\<lambda>m. gcc_write_conference_create_request m ud) () (create_request_bytes ud)"
  unfolding gcc_write_conference_create_request_def create_request_bytes_def
  by (rule emits_per | (use assms in simp; fail))+

lemma dec_key: "dec_per_octet_string h221_cs_key 4 4 (enc_per_octet_string h221_cs_key 4 @ r) = Some ((), r)"
  "dec_per_octet_string h221_sc_key 4 4 (enc_per_octet_string h221_sc_key 4 @ r) = Some ((), r)"
  using per_octet_string.dec_enc [OF keys_ok(1), of r] per_octet_string.dec_enc [OF keys_ok(2), of r]
  by (simp_all add: keys_ok)

lemma dec_oid: "expect_p t124_02_98_oid dec_per_oid (enc_per_oid t124_02_98_oid @ r) = Some ((), r)"
  using dec_expected_oid [of t124_02_98_oid r] by (simp add: oid_ok_def t124_02_98_oid_def)

lemma dec_numeric_1: "dec_per_numeric_string 1 (0 # 0x10 # r) = Some ((), r)"
  using dec_per_numeric_string_enc [of "[0x31]" 1 r]
  by (simp add: enc_per_numeric_string_def octet_string_ok_def enc_per_length_def)

lemma unat_length: "length ud < 65536 \<Longrightarrow> unat (word_of_nat (length ud) :: 16 word) = length ud"
  by (simp add: unat_of_nat)

lemma dec_create_request_bytes:
  assumes "length ud < 32768 - 14"
  shows "dec_create_request (create_request_bytes ud @ rest) = Some (word_of_nat (length ud), ud @ rest)"
proof -
  have "(word_of_nat (length ud) :: 16 word) + 14 = word_of_nat (length ud + 14)" by simp
  then have "unat ((word_of_nat (length ud) :: 16 word) + 14) = length ud + 14"
    using assms by (simp only: unat_of_nat) simp
  then have l: "dec_per_length (enc_per_length (word_of_nat (length ud) + 14) @ r) = Some (word_of_nat (length ud) + 14, r)" for r
    using assms by (intro dec_per_length_enc) simp
  have u: "dec_per_length (enc_per_length (word_of_nat (length ud)) @ r) = Some (word_of_nat (length ud), r)" for r
    using assms by (intro dec_per_length_enc) (simp add: unat_length)
  show ?thesis unfolding dec_create_request_def create_request_bytes_def enc_per_octet_string_def [of ud]
    by (simp add: dec_oid l dec_numeric_1 skip_p_def dec_key u)
qed

definition dec_create_response :: "16 word parser" where
  "dec_create_response =
     bind_p dec_byte (\<lambda>_. bind_p (expect_p t124_02_98_oid dec_per_oid) (\<lambda>_. bind_p dec_per_length (\<lambda>_.
     bind_p dec_byte (\<lambda>_. bind_p (dec_per_integer16 1001) (\<lambda>_. bind_p dec_per_integer (\<lambda>_.
     bind_p (dec_per_enumerated MCS_Result_enum_length) (\<lambda>_. bind_p dec_byte (\<lambda>_. bind_p dec_byte (\<lambda>_.
     bind_p (dec_per_octet_string h221_sc_key 4 4) (\<lambda>_. dec_per_length))))))))))"

definition response_header :: "(wStream, 16 word) cfun" where
  "response_header =
     bind_c per_read_choice (\<lambda>_. bind_c (per_read_object_identifier t124_02_98_oid) (\<lambda>_. bind_c per_read_length (\<lambda>_.
     bind_c per_read_choice (\<lambda>_. bind_c (per_read_integer16 1001) (\<lambda>_. bind_c per_read_integer (\<lambda>_.
     bind_c (per_read_enumerated MCS_Result_enum_length) (\<lambda>_. bind_c per_read_number_of_sets (\<lambda>_.
     bind_c per_read_choice (\<lambda>_. bind_c (per_read_octet_string h221_sc_key 4 4) (\<lambda>_. per_read_length))))))))))"

lemma create_response_split:
  "gcc_read_conference_create_response env = bind_c (on_stream response_header) (gcc_read_server_data_blocks env)"
  unfolding gcc_read_conference_create_response_def response_header_def on_stream_seq bind_c_assoc ..

lemma reads_response_header: "reads response_header dec_create_response"
  unfolding response_header_def dec_create_response_def by (intro reads_gcc)

definition create_response_bytes :: "byte list \<Rightarrow> byte list" where
  "create_response_bytes ud = [0] @ enc_per_oid t124_02_98_oid @ enc_per_length 0x2A @ [0x14] @
     enc_per_integer16 1001 0x79F3 @ enc_per_integer 1 @ [0] @ [1] @ [0xC0] @
     enc_per_octet_string h221_sc_key 4 @ enc_per_octet_string ud 0"

lemma emits_create_response:
  assumes "length ud < 32768"
  shows "emits (\<lambda>m. gcc_write_conference_create_response m ud) () (create_response_bytes ud)"
  unfolding gcc_write_conference_create_response_def create_response_bytes_def
  by (rule emits_per per_integer16.wrm_emits emits_per_integer per_enumerated.wrm_emits [unfolded enc_byte_def]
      | (use assms in \<open>simp add: mcs_constants\<close>; fail))+

lemma dec_create_response_bytes:
  assumes "length ud < 32768"
  shows "dec_create_response (create_response_bytes ud @ rest) = Some (word_of_nat (length ud), ud @ rest)"
proof -
  have u: "dec_per_length (enc_per_length (word_of_nat (length ud)) @ r) = Some (word_of_nat (length ud), r)" for r
    using assms by (intro dec_per_length_enc) (simp add: unat_length)
  have l: "dec_per_length (enc_per_length 0x2A @ r) = Some (0x2A, r)" for r by (rule dec_per_length_enc) simp
  have i: "dec_per_integer16 1001 (enc_per_integer16 1001 0x79F3 @ r) = Some (0x79F3, r)"
    "dec_per_integer (enc_per_integer 1 @ r) = Some (1, r)"
    "dec_per_enumerated MCS_Result_enum_length (0 # r) = Some (0, r)" for r
    using per_enumerated.dec_enc [of 0 MCS_Result_enum_length r]
    by (simp_all add: dec_per_integer16_enc dec_per_integer_enc mcs_constants enc_byte_def)
  show ?thesis unfolding dec_create_response_def create_response_bytes_def enc_per_octet_string_def [of ud]
    by (simp add: dec_oid l i dec_key u)
qed

lemma safe_create_request: "safe False wf_mcs k (gcc_read_conference_create_request env) (\<lambda>_. wf_mcs)"
  unfolding create_request_split
  by (rule safe_bind [where Q = "\<lambda>_. wf_mcs", OF safe_reads [OF reads_request_header]])
    (simp_all add: safe_check safe_client_data_blocks)

lemma safe_create_response: "safe False wf_mcs k (gcc_read_conference_create_response env) (\<lambda>_. wf_mcs)"
  unfolding create_response_split
  by (rule safe_bind [where Q = "\<lambda>_. wf_mcs", OF safe_reads [OF reads_response_header]])
    (simp_all add: safe_server_data_blocks)

section \<open>Messages of whole blocks\<close>

type_synonym block = "16 word \<times> byte list"

definition enc_block :: "block \<Rightarrow> byte list" where
  "enc_block = (\<lambda>(type, bs). le16 type @ le16 (word_of_nat (length bs + 4)) @ bs)"

definition enc_blocks :: "block list \<Rightarrow> byte list" where
  "enc_blocks blocks = concat (map enc_block blocks)"

lemma length_enc_block: "length (enc_block (type, bs)) = length bs + 4"
  by (simp add: enc_block_def)

lemma dec_enc_block:
  assumes "length bs + 4 < 65536"
  shows "dec_block_header (enc_block (type, bs) @ rest) = Some ((type, word_of_nat (length bs + 4)), bs @ rest)"
    "block_data (word_of_nat (length bs + 4)) (enc_block (type, bs) @ rest) = bs"
    "unat (word_of_nat (length bs + 4) :: 16 word) = length bs + 4"
proof -
  show u: "unat (word_of_nat (length bs + 4) :: 16 word) = length bs + 4"
    unfolding unat_of_nat using assms by simp
  have d: "drop 2 (le16 type @ r) = r" "drop 4 (le16 type @ le16 v @ r) = r" for r and v :: "16 word"
    by (simp_all add: numeral_eq_Suc)
  show "dec_block_header (enc_block (type, bs) @ rest) = Some ((type, word_of_nat (length bs + 4)), bs @ rest)"
    using u by (simp add: dec_block_header_def enc_block_def d Let_def u16le.fetch_encode del: of_nat_add)
  show "block_data (word_of_nat (length bs + 4)) (enc_block (type, bs) @ rest) = bs"
    using u by (simp add: block_data_def enc_block_def d del: of_nat_add)
qed

text \<open>The blocks are given to their handlers in the order of the message.\<close>

fun client_handles :: "gcc_env \<Rightarrow> block list \<Rightarrow> 'w rdpMcs \<Rightarrow> 'w rdpMcs option" where
  "client_handles env [] m = Some m"
| "client_handles env ((type, bs) # blocks) m =
     (case gcc_client_block env type (block_stream bs, m) of
        Success _ (_, m') \<Rightarrow> client_handles env blocks m'
      | _ \<Rightarrow> None)"

fun server_handles :: "gcc_env \<Rightarrow> block list \<Rightarrow> 'w rdpMcs \<Rightarrow> 'w rdpMcs option" where
  "server_handles env [] m = Some m"
| "server_handles env ((type, bs) # blocks) m =
     (case gcc_server_block env type (block_stream bs, m) of
        Success _ (_, m') \<Rightarrow> server_handles env blocks m'
      | _ \<Rightarrow> None)"

definition multitransport :: "block list \<Rightarrow> bool" where
  "multitransport blocks \<longleftrightarrow> (\<exists>b \<in> set blocks. fst b = 0xC009 \<or> fst b = CS_MULTITRANSPORT)"

lemma client_loop_blocks:
  assumes "readable s" "remaining s = enc_blocks blocks @ rest" "length (enc_blocks blocks) < 65536"
    "client_handles env blocks m = Some m'"
  shows "gcc_client_loop env got (word_of_nat (length (enc_blocks blocks))) (s, m) =
    Some (Success (got \<or> multitransport blocks) (advance (length (enc_blocks blocks)) s, m'))"
  using assms
proof (induction blocks arbitrary: s m got)
  case Nil
  then show ?case by (simp add: gcc_client_loop.simps enc_blocks_def multitransport_def)
next
  case (Cons b blocks)
  obtain type bs where b: "b = (type, bs)" by (cases b)
  let ?all = "word_of_nat (length (enc_blocks (b # blocks))) :: 16 word" and ?bl = "word_of_nat (length bs + 4) :: 16 word"
  have len: "length (enc_blocks (b # blocks)) = length bs + 4 + length (enc_blocks blocks)"
    by (simp add: enc_blocks_def b length_enc_block)
  with Cons.prems(3) have bs: "length bs + 4 < 65536" by simp
  have r: "remaining s = enc_block (type, bs) @ enc_blocks blocks @ rest" using Cons.prems(2) by (simp add: enc_blocks_def b)
  note d = dec_enc_block(1,2) [OF bs, of type "enc_blocks blocks @ rest"] dec_enc_block(3) [OF bs]
  obtain t m1 where h: "gcc_client_block env type (block_stream bs, m) = Success () (t, m1)"
    "client_handles env blocks m1 = Some m'"
    using Cons.prems(4) by (auto simp: b split: outcome.splits)
  have u: "unat ?all = length bs + 4 + length (enc_blocks blocks)"
    using Cons.prems(3) unfolding len unat_of_nat by simp
  have l: "0 < ?all" "\<not> ?bl > ?all" using u d(3) by (simp_all add: word_less_nat_alt word_neq_0_conv [symmetric])
  have a: "?all - ?bl = word_of_nat (length (enc_blocks blocks))" unfolding len by simp
  let ?s = "advance (length bs + 4) s"
  have s: "readable ?s" "remaining ?s = enc_blocks blocks @ rest" "length (enc_blocks blocks) < 65536"
    using Cons.prems(1,3) r len by (simp_all add: length_enc_block enc_block_def)
  have hd: "dec_block_header (remaining s) = Some ((type, ?bl), bs @ enc_blocks blocks @ rest)" using d(1) r by simp
  have st: "gcc_client_step env ?all (s, m) = Success (type = 0xC009 \<or> type = CS_MULTITRANSPORT,
      word_of_nat (length (enc_blocks blocks))) (?s, m1)"
    unfolding client_step_block [OF Cons.prems(1) hd, of env ?all m] r d(2,3) h(1) if_not_P [OF l(2)] a by simp
  have "gcc_client_loop env got ?all (s, m) = gcc_client_loop env
      (got \<or> (type = 0xC009 \<or> type = CS_MULTITRANSPORT)) (word_of_nat (length (enc_blocks blocks))) (?s, m1)"
    using l(1) st by (subst gcc_client_loop.simps) simp
  also note Cons.IH [OF s h(2)]
  finally show ?case using len Cons.prems(1) by (simp add: multitransport_def b disj_assoc add.commute)
qed

lemma server_loop_blocks:
  assumes "readable s" "remaining s = enc_blocks blocks @ rest" "unat offset + length (enc_blocks blocks) = unat len"
    "server_handles env blocks m = Some m'"
  shows "gcc_server_loop env len offset (s, m) = Some (Success () (advance (length (enc_blocks blocks)) s, m'))"
  using assms
proof (induction blocks arbitrary: s m offset)
  case Nil
  then show ?case by (simp add: gcc_server_loop.simps enc_blocks_def word_less_nat_alt)
next
  case (Cons b blocks)
  obtain type bs where b: "b = (type, bs)" by (cases b)
  let ?bl = "word_of_nat (length bs + 4) :: 16 word" and ?s = "advance (length bs + 4) s"
  have len: "length (enc_blocks (b # blocks)) = length bs + 4 + length (enc_blocks blocks)"
    by (simp add: enc_blocks_def b length_enc_block)
  have "unat len < 65536" using unsigned_less [where 'a = nat, of len] by simp
  with Cons.prems(3) len have bs: "length bs + 4 < 65536" "unat offset + (length bs + 4) < 65536" by simp_all
  have r: "remaining s = enc_block (type, bs) @ enc_blocks blocks @ rest" using Cons.prems(2) by (simp add: enc_blocks_def b)
  note d = dec_enc_block(1,2) [OF bs(1), of type "enc_blocks blocks @ rest"] dec_enc_block(3) [OF bs(1)]
  obtain t m1 where h: "gcc_server_block env type (block_stream bs, m) = Success () (t, m1)"
    "server_handles env blocks m1 = Some m'"
    using Cons.prems(4) by (auto simp: b split: outcome.splits)
  have o: "unat (offset + ?bl) = unat offset + (length bs + 4)"
    using bs(2) d(3) by (simp add: unat_word_ariths del: of_nat_add)
  have s: "readable ?s" "remaining ?s = enc_blocks blocks @ rest"
    "unat (offset + ?bl) + length (enc_blocks blocks) = unat len"
    using Cons.prems(1,3) r len o by (simp_all add: length_enc_block enc_block_def del: of_nat_add)
  have hd: "dec_block_header (remaining s) = Some ((type, ?bl), bs @ enc_blocks blocks @ rest)" using d(1) r by simp
  have st: "gcc_server_step env (s, m) = Success ?bl (?s, m1)"
    unfolding server_step_block [OF Cons.prems(1) hd, of env m] r d(2,3) h(1) by simp
  have l: "offset < len" using Cons.prems(3) len by (simp add: word_less_nat_alt)
  have "gcc_server_loop env len offset (s, m) = gcc_server_loop env len (offset + ?bl) (?s, m1)"
    using l st by (subst gcc_server_loop.simps) simp
  also note Cons.IH [OF s h(2)]
  finally show ?case using len Cons.prems(1) by (simp add: add.commute)
qed

text \<open>What the settings are after the last block: without a multitransport block there is no multitransport.\<close>

definition finish_client :: "block list \<Rightarrow> 'w rdpMcs \<Rightarrow> 'w rdpMcs" where
  "finish_client blocks m = (if multitransport blocks then m else
     m\<lparr>mc_settings := (mc_settings m)\<lparr>st_SupportMultitransport := False, st_MultitransportFlags := 0\<rparr>\<rparr>)"

lemma read_client_blocks:
  assumes "readable s" "remaining s = enc_blocks blocks @ rest" "length (enc_blocks blocks) < 65536"
    "client_handles env blocks m = Some m'"
  shows "gcc_read_client_data_blocks env (word_of_nat (length (enc_blocks blocks))) (s, m) =
    Success () (advance (length (enc_blocks blocks)) s, finish_client blocks m')"
  using client_loop_blocks [OF assms, of False]
  by (simp add: gcc_read_client_data_blocks_def bind_c_def run_loop_def changes change_state_def return_c_def finish_client_def)

lemma read_create_request:
  assumes s: "readable s" and r: "remaining s = create_request_bytes (enc_blocks blocks) @ rest"
    and l: "length (enc_blocks blocks) < 32768 - 14" and h: "client_handles env blocks m = Some m'"
  shows "gcc_read_conference_create_request env (s, m) =
    Success () (advance (length (create_request_bytes (enc_blocks blocks))) s, finish_client blocks m')"
proof -
  let ?ud = "enc_blocks blocks" and ?n = "word_of_nat (length (enc_blocks blocks)) :: 16 word"
  have "dec_create_request (remaining s) = Some (?n, ?ud @ rest)" using dec_create_request_bytes [OF l] r by simp
  with reads_request_header s obtain n where n: "n \<le> length (remaining s)"
    "request_header s = Success ?n (advance n s)" "?ud @ rest = drop n (remaining s)" by (rule reads_Some)
  have t: "readable (advance n s)" "remaining (advance n s) = ?ud @ rest" using s n by simp_all
  have u: "unat ?n = length ?ud" using l by (simp add: unat_length)
  have "length (?ud @ rest) = length (remaining s) - n" using n(3) by simp
  then have "n + length ?ud = length (create_request_bytes ?ud)" using r n(1) by simp
  then show ?thesis unfolding create_request_split on_stream_bind [where f = request_header, OF n(2)]
    using read_client_blocks [OF t _ h] t l u
    by (simp add: bind_c_def on_stream_def stream_exec)
qed

lemma read_create_response:
  assumes s: "readable s" and r: "remaining s = create_response_bytes (enc_blocks blocks) @ rest"
    and l: "length (enc_blocks blocks) < 32768" and h: "server_handles env blocks m = Some m'"
  shows "gcc_read_conference_create_response env (s, m) =
    Success () (advance (length (create_response_bytes (enc_blocks blocks))) s, m')"
proof -
  let ?ud = "enc_blocks blocks" and ?n = "word_of_nat (length (enc_blocks blocks)) :: 16 word"
  have "dec_create_response (remaining s) = Some (?n, ?ud @ rest)" using dec_create_response_bytes [OF l] r by simp
  with reads_response_header s obtain n where n: "n \<le> length (remaining s)"
    "response_header s = Success ?n (advance n s)" "?ud @ rest = drop n (remaining s)" by (rule reads_Some)
  have t: "readable (advance n s)" "remaining (advance n s) = ?ud @ rest" using s n by simp_all
  have u: "unat ?n = length ?ud" using l by (simp add: unat_length)
  have "length (?ud @ rest) = length (remaining s) - n" using n(3) by simp
  then have "n + length ?ud = length (create_response_bytes ?ud)" using r n(1) by simp
  then show ?thesis unfolding create_response_split on_stream_bind [where f = response_header, OF n(2)]
    using server_loop_blocks [OF t, of 0 ?n env m m'] u h
    by (simp add: gcc_read_server_data_blocks_def run_loop_def)
qed

end
