(* ===== verification/Ber.thy ===== *)
theory Ber
  imports Codec
begin

text \<open>
  Basic encoding rules, \<open>libfreerdp/crypto/ber.c\<close>.

  The functions of the file keep their names. The writers assert that the stream has room and return
  the number of bytes they write; output parameters of the readers are results. The formats are tag,
  length and contents on byte lists; every reader computes the parser of its format and every writer
  appends the encoding. The functions that convert between UTF-8 and UTF-16 are not modelled.
\<close>

section \<open>Tags\<close>

definition BER_CLASS_UNIV :: byte where "BER_CLASS_UNIV = 0x00"
definition BER_CLASS_APPL :: byte where "BER_CLASS_APPL = 0x40"
definition BER_CLASS_CTXT :: byte where "BER_CLASS_CTXT = 0x80"
definition BER_PRIMITIVE :: byte where "BER_PRIMITIVE = 0x00"
definition BER_CONSTRUCT :: byte where "BER_CONSTRUCT = 0x20"
definition BER_TAG_MASK :: byte where "BER_TAG_MASK = 0x1F"
definition BER_TAG_BOOLEAN :: byte where "BER_TAG_BOOLEAN = 0x01"
definition BER_TAG_INTEGER :: byte where "BER_TAG_INTEGER = 0x02"
definition BER_TAG_BIT_STRING :: byte where "BER_TAG_BIT_STRING = 0x03"
definition BER_TAG_OCTET_STRING :: byte where "BER_TAG_OCTET_STRING = 0x04"
definition BER_TAG_ENUMERATED :: byte where "BER_TAG_ENUMERATED = 0x0A"
definition BER_TAG_SEQUENCE :: byte where "BER_TAG_SEQUENCE = 0x10"
definition BER_TAG_SEQUENCE_OF :: byte where "BER_TAG_SEQUENCE_OF = 0x10"

definition BER_PC :: "bool \<Rightarrow> byte" where
  "BER_PC pc = (if pc then BER_CONSTRUCT else BER_PRIMITIVE)"

lemmas ber_constants = BER_CLASS_UNIV_def BER_CLASS_APPL_def BER_CLASS_CTXT_def BER_PRIMITIVE_def
  BER_CONSTRUCT_def BER_TAG_MASK_def BER_TAG_BOOLEAN_def BER_TAG_INTEGER_def BER_TAG_BIT_STRING_def
  BER_TAG_OCTET_STRING_def BER_TAG_ENUMERATED_def BER_TAG_SEQUENCE_def BER_TAG_SEQUENCE_OF_def BER_PC_def

section \<open>The functions of ber.c\<close>

definition ber_read_length :: "(wStream, nat) cfun" where
  "ber_read_length =
     bind_c (Stream_CheckAndLogRequiredLength 1) (\<lambda>_.
     bind_c Stream_Read_UINT8 (\<lambda>byte.
     if byte AND 0x80 \<noteq> 0 then
       let byte = byte AND NOT 0x80 in
       bind_c (Stream_CheckAndLogRequiredLength (unat byte)) (\<lambda>_.
       if byte = 1 then bind_c Stream_Read_UINT8 (\<lambda>v. return_c (unat v))
       else if byte = 2 then bind_c Stream_Read_UINT16_BE (\<lambda>v. return_c (unat v))
       else fail_c)
     else return_c (unat byte)))"

definition ber_write_length :: "nat \<Rightarrow> (wStream, nat) cfun" where
  "ber_write_length len =
     (if len > 0xFF then
        bind_c (assert_c (len \<le> 65535)) (\<lambda>_.
        bind_c (assert_capacity 3) (\<lambda>_.
        bind_c (Stream_Write_UINT8 (0x80 XOR 2)) (\<lambda>_.
        bind_c (Stream_Write_UINT16_BE (word_of_nat len)) (\<lambda>_. return_c 3))))
      else
        bind_c (assert_c (len \<le> 255)) (\<lambda>_.
        if len > 0x7F then
          bind_c (assert_capacity 2) (\<lambda>_.
          bind_c (Stream_Write_UINT8 (0x80 XOR 1)) (\<lambda>_.
          bind_c (Stream_Write_UINT8 (word_of_nat len)) (\<lambda>_. return_c 2)))
        else
          bind_c (assert_capacity 1) (\<lambda>_.
          bind_c (Stream_Write_UINT8 (word_of_nat len)) (\<lambda>_. return_c 1))))"

definition ber_sizeof_length :: "nat \<Rightarrow> nat" where
  "ber_sizeof_length len = (if len > 0xFF then 3 else if len > 0x7F then 2 else 1)"

definition ber_read_universal_tag :: "byte \<Rightarrow> bool \<Rightarrow> (wStream, unit) cfun" where
  "ber_read_universal_tag tag pc =
     (let expect = BER_CLASS_UNIV OR BER_PC pc OR (BER_TAG_MASK AND tag) in
      bind_c (Stream_CheckAndLogRequiredLength 1) (\<lambda>_.
      bind_c Stream_Read_UINT8 (\<lambda>byte.
      if byte \<noteq> expect then fail_c else return_c ())))"

definition ber_write_universal_tag :: "byte \<Rightarrow> bool \<Rightarrow> (wStream, nat) cfun" where
  "ber_write_universal_tag tag pc =
     bind_c (Stream_Write_UINT8 ((BER_CLASS_UNIV OR BER_PC pc) OR (BER_TAG_MASK AND tag)))
       (\<lambda>_. return_c 1)"

definition ber_read_application_tag :: "byte \<Rightarrow> (wStream, nat) cfun" where
  "ber_read_application_tag tag =
     (if tag > 30 then
        let expect = (BER_CLASS_APPL OR BER_CONSTRUCT) OR BER_TAG_MASK in
        bind_c (Stream_CheckAndLogRequiredLength 2) (\<lambda>_.
        bind_c Stream_Read_UINT8 (\<lambda>byte.
        if byte \<noteq> expect then fail_c
        else
          bind_c Stream_Read_UINT8 (\<lambda>byte.
          if byte \<noteq> tag then fail_c else ber_read_length)))
      else
        let expect = (BER_CLASS_APPL OR BER_CONSTRUCT) OR (BER_TAG_MASK AND tag) in
        bind_c (Stream_CheckAndLogRequiredLength 1) (\<lambda>_.
        bind_c Stream_Read_UINT8 (\<lambda>byte.
        if byte \<noteq> expect then fail_c else ber_read_length)))"

definition ber_write_application_tag :: "byte \<Rightarrow> nat \<Rightarrow> (wStream, unit) cfun" where
  "ber_write_application_tag tag len =
     (if tag > 30 then
        bind_c (assert_capacity 2) (\<lambda>_.
        bind_c (Stream_Write_UINT8 ((BER_CLASS_APPL OR BER_CONSTRUCT) OR BER_TAG_MASK)) (\<lambda>_.
        bind_c (Stream_Write_UINT8 tag) (\<lambda>_.
        bind_c (ber_write_length len) (\<lambda>_. return_c ()))))
      else
        bind_c (assert_capacity 1) (\<lambda>_.
        bind_c (Stream_Write_UINT8 ((BER_CLASS_APPL OR BER_CONSTRUCT) OR (BER_TAG_MASK AND tag))) (\<lambda>_.
        bind_c (ber_write_length len) (\<lambda>_. return_c ()))))"

definition ber_read_contextual_tag :: "byte \<Rightarrow> bool \<Rightarrow> (wStream, nat) cfun" where
  "ber_read_contextual_tag tag pc =
     (let expect = (BER_CLASS_CTXT OR BER_PC pc) OR (BER_TAG_MASK AND tag) in
      bind_c Stream_GetRemainingLength (\<lambda>rem.
      if rem < 1 then fail_c
      else
        bind_c Stream_Read_UINT8 (\<lambda>byte.
        if byte \<noteq> expect then bind_c (Stream_Rewind 1) (\<lambda>_. fail_c) else ber_read_length)))"

definition ber_write_contextual_tag :: "byte \<Rightarrow> nat \<Rightarrow> bool \<Rightarrow> (wStream, nat) cfun" where
  "ber_write_contextual_tag tag len pc =
     bind_c (assert_capacity 1) (\<lambda>_.
     bind_c (Stream_Write_UINT8 ((BER_CLASS_CTXT OR BER_PC pc) OR (BER_TAG_MASK AND tag))) (\<lambda>_.
     bind_c (ber_write_length len) (\<lambda>n. return_c (1 + n))))"

definition ber_sizeof_contextual_tag :: "nat \<Rightarrow> nat" where
  "ber_sizeof_contextual_tag len = 1 + ber_sizeof_length len"

definition ber_read_sequence_tag :: "(wStream, nat) cfun" where
  "ber_read_sequence_tag =
     (let expect = (BER_CLASS_UNIV OR BER_CONSTRUCT) OR BER_TAG_SEQUENCE_OF in
      bind_c (Stream_CheckAndLogRequiredLength 1) (\<lambda>_.
      bind_c Stream_Read_UINT8 (\<lambda>byte.
      if byte \<noteq> expect then fail_c else ber_read_length)))"

definition ber_write_sequence_tag :: "nat \<Rightarrow> (wStream, nat) cfun" where
  "ber_write_sequence_tag len =
     bind_c (Stream_Write_UINT8 ((BER_CLASS_UNIV OR BER_CONSTRUCT) OR (BER_TAG_MASK AND BER_TAG_SEQUENCE)))
     (\<lambda>_. bind_c (ber_write_length len) (\<lambda>n. return_c (1 + n)))"

definition ber_sizeof_sequence :: "nat \<Rightarrow> nat" where
  "ber_sizeof_sequence len = (1 + ber_sizeof_length len + len) mod SIZE_MOD"

definition ber_sizeof_sequence_tag :: "nat \<Rightarrow> nat" where
  "ber_sizeof_sequence_tag len = 1 + ber_sizeof_length len"

definition ber_read_enumerated :: "byte \<Rightarrow> (wStream, byte) cfun" where
  "ber_read_enumerated count =
     bind_c (ber_read_universal_tag BER_TAG_ENUMERATED False) (\<lambda>_.
     bind_c ber_read_length (\<lambda>len.
     if len \<noteq> 1 then fail_c
     else
       bind_c (Stream_CheckAndLogRequiredLength 1) (\<lambda>_.
       bind_c Stream_Read_UINT8 (\<lambda>enumerated.
       if unat enumerated + 1 > unat count then fail_c else return_c enumerated))))"

definition ber_write_enumerated :: "byte \<Rightarrow> byte \<Rightarrow> (wStream, unit) cfun" where
  "ber_write_enumerated enumerated count =
     bind_c (ber_write_universal_tag BER_TAG_ENUMERATED False) (\<lambda>_.
     bind_c (ber_write_length 1) (\<lambda>_. Stream_Write_UINT8 enumerated))"

definition ber_read_bit_string :: "(wStream, nat \<times> byte) cfun" where
  "ber_read_bit_string =
     bind_c (ber_read_universal_tag BER_TAG_BIT_STRING False) (\<lambda>_.
     bind_c ber_read_length (\<lambda>len.
     bind_c (Stream_CheckAndLogRequiredLength 1) (\<lambda>_.
     bind_c Stream_Read_UINT8 (\<lambda>padding. return_c (len, padding)))))"

definition ber_write_octet_string :: "byte list \<Rightarrow> (wStream, nat) cfun" where
  "ber_write_octet_string oct_str =
     bind_c (ber_write_universal_tag BER_TAG_OCTET_STRING False) (\<lambda>a.
     bind_c (ber_write_length (length oct_str)) (\<lambda>b.
     bind_c (Stream_Write oct_str) (\<lambda>_. return_c (a + b + length oct_str))))"

definition ber_sizeof_octet_string :: "nat \<Rightarrow> nat" where
  "ber_sizeof_octet_string len = (1 + ber_sizeof_length len + len) mod SIZE_MOD"

definition ber_write_contextual_octet_string :: "byte \<Rightarrow> byte list \<Rightarrow> (wStream, nat) cfun" where
  "ber_write_contextual_octet_string tag oct_str =
     (let inner = ber_sizeof_octet_string (length oct_str) in
      bind_c (ber_write_contextual_tag tag inner True) (\<lambda>ret.
      if ret = 0 then return_c 0
      else
        bind_c (ber_write_octet_string oct_str) (\<lambda>r.
        if r = 0 then return_c 0 else return_c (ret + r))))"

text \<open>\<open>_wcslen\<close> counts the code units before the terminator; the string is written without it.\<close>

definition ber_write_contextual_unicode_octet_string :: "byte \<Rightarrow> 16 word list \<Rightarrow> (wStream, nat) cfun" where
  "ber_write_contextual_unicode_octet_string tag str =
     (let units = takeWhile (\<lambda>c. c \<noteq> 0) str;
          len = length units * 2;
          inner_len = ber_sizeof_octet_string len in
      bind_c (ber_write_contextual_tag tag inner_len True) (\<lambda>ret.
      bind_c (ber_write_octet_string (concat (map le16 units))) (\<lambda>r. return_c (ret + r))))"

definition ber_read_octet_string_tag :: "(wStream, nat) cfun" where
  "ber_read_octet_string_tag =
     bind_c (ber_read_universal_tag BER_TAG_OCTET_STRING False) (\<lambda>_. ber_read_length)"

text \<open>The bytes of the returned array, which ends in a zero code unit.\<close>

definition ber_read_unicode_octet_string :: "malloc \<Rightarrow> (wStream, byte list) cfun" where
  "ber_read_unicode_octet_string malloc =
     bind_c ber_read_octet_string_tag (\<lambda>len.
     bind_c (Stream_CheckAndLogRequiredLength len) (\<lambda>_.
     case malloc (len + 2) of
       None \<Rightarrow> fail_c
     | Some _ \<Rightarrow>
         bind_c Stream_ConstPointer (\<lambda>p.
         bind_c (Stream_Seek len) (\<lambda>_.
         return_c (overwrite (take len p @ [0, 0]) (2 * (len div 2)) [0, 0])))))"

definition ber_read_octet_string :: "malloc \<Rightarrow> (wStream, byte list) cfun" where
  "ber_read_octet_string malloc =
     bind_c ber_read_octet_string_tag (\<lambda>len.
     bind_c (Stream_CheckAndLogRequiredLength len) (\<lambda>_.
     case malloc len of None \<Rightarrow> fail_c | Some _ \<Rightarrow> Stream_Read len))"

definition ber_write_octet_string_tag :: "nat \<Rightarrow> (wStream, nat) cfun" where
  "ber_write_octet_string_tag len =
     bind_c (ber_write_universal_tag BER_TAG_OCTET_STRING False) (\<lambda>_.
     bind_c (ber_write_length len) (\<lambda>_. return_c (1 + ber_sizeof_length len)))"

definition ber_sizeof_contextual_octet_string :: "nat \<Rightarrow> nat" where
  "ber_sizeof_contextual_octet_string len =
     (let ret = ber_sizeof_octet_string len in (ber_sizeof_contextual_tag ret + ret) mod SIZE_MOD)"

definition ber_read_BOOL :: "(wStream, bool) cfun" where
  "ber_read_BOOL =
     bind_c (ber_read_universal_tag BER_TAG_BOOLEAN False) (\<lambda>_.
     bind_c ber_read_length (\<lambda>len.
     if len \<noteq> 1 then fail_c
     else
       bind_c (Stream_CheckAndLogRequiredLength 1) (\<lambda>_.
       bind_c Stream_Read_UINT8 (\<lambda>v. return_c (v \<noteq> 0)))))"

definition ber_write_BOOL :: "bool \<Rightarrow> (wStream, unit) cfun" where
  "ber_write_BOOL value =
     bind_c (ber_write_universal_tag BER_TAG_BOOLEAN False) (\<lambda>_.
     bind_c (ber_write_length 1) (\<lambda>_. Stream_Write_UINT8 (if value then 0xFF else 0)))"

text \<open>\<open>want\<close> is whether the output pointer is given; without it the integer is skipped.\<close>

definition ber_read_integer :: "bool \<Rightarrow> (wStream, 32 word option) cfun" where
  "ber_read_integer want =
     bind_c (ber_read_universal_tag BER_TAG_INTEGER False) (\<lambda>_.
     bind_c ber_read_length (\<lambda>len.
     bind_c (Stream_CheckAndLogRequiredLength len) (\<lambda>_.
     if \<not> want then bind_c (Stream_SafeSeek len) (\<lambda>_. return_c None)
     else if len = 1 then bind_c Stream_Read_UINT8 (\<lambda>v. return_c (Some (ucast v)))
     else if len = 2 then bind_c Stream_Read_UINT16_BE (\<lambda>v. return_c (Some (ucast v)))
     else if len = 3 then
       bind_c Stream_Read_UINT8 (\<lambda>byte.
       bind_c Stream_Read_UINT16_BE (\<lambda>v.
       return_c (Some (ucast v + (push_bit 16 (ucast byte) AND 0xFF0000)))))
     else if len = 4 then bind_c Stream_Read_UINT32_BE (\<lambda>v. return_c (Some v))
     else fail_c)))"

definition ber_write_integer :: "32 word \<Rightarrow> (wStream, nat) cfun" where
  "ber_write_integer value =
     (if value < 0x80 then
        bind_c (ber_write_universal_tag BER_TAG_INTEGER False) (\<lambda>_.
        bind_c (ber_write_length 1) (\<lambda>_.
        bind_c (asserting_int_cast value) (\<lambda>v.
        bind_c (Stream_Write_UINT8 v) (\<lambda>_. return_c 3))))
      else if value < 0x8000 then
        bind_c (ber_write_universal_tag BER_TAG_INTEGER False) (\<lambda>_.
        bind_c (ber_write_length 2) (\<lambda>_.
        bind_c (asserting_int_cast value) (\<lambda>v.
        bind_c (Stream_Write_UINT16_BE v) (\<lambda>_. return_c 4))))
      else if value < 0x800000 then
        bind_c (ber_write_universal_tag BER_TAG_INTEGER False) (\<lambda>_.
        bind_c (ber_write_length 3) (\<lambda>_.
        bind_c (asserting_int_cast (drop_bit 16 value)) (\<lambda>v.
        bind_c (Stream_Write_UINT8 v) (\<lambda>_.
        bind_c (asserting_int_cast value) (\<lambda>v.
        bind_c (Stream_Write_UINT16_BE v) (\<lambda>_. return_c 5))))))
      else if value < 0x80000000 then
        bind_c (ber_write_universal_tag BER_TAG_INTEGER False) (\<lambda>_.
        bind_c (ber_write_length 4) (\<lambda>_.
        bind_c (Stream_Write_UINT32_BE value) (\<lambda>_. return_c 6)))
      else
        bind_c (ber_write_universal_tag BER_TAG_INTEGER False) (\<lambda>_.
        bind_c (ber_write_length 4) (\<lambda>_.
        bind_c (Stream_Write_UINT32_BE value) (\<lambda>_. return_c 6))))"

definition ber_sizeof_integer :: "32 word \<Rightarrow> nat" where
  "ber_sizeof_integer value =
     (if value < 0x80 then 3 else if value < 0x8000 then 4 else if value < 0x800000 then 5
      else if value < 0x80000000 then 6 else 6)"

text \<open>The room is made inside an assertion, so a refused allocation is an assertion failure.\<close>

definition ber_write_contextual_integer :: "malloc \<Rightarrow> byte \<Rightarrow> 32 word \<Rightarrow> (wStream, nat) cfun" where
  "ber_write_contextual_integer malloc tag value =
     (let len = ber_sizeof_integer value in
      bind_c (\<lambda>s. case Stream_EnsureRemainingCapacity malloc (len + 5) s of
          Failure _ \<Rightarrow> Fault AssertionFailure | x \<Rightarrow> x) (\<lambda>_.
      bind_c (ber_write_contextual_tag tag len True) (\<lambda>n.
      bind_c (ber_write_integer value) (\<lambda>_. return_c (len + n)))))"

definition ber_sizeof_contextual_integer :: "32 word \<Rightarrow> nat" where
  "ber_sizeof_contextual_integer value =
     (let intSize = ber_sizeof_integer value in ber_sizeof_contextual_tag intSize + intSize)"

definition ber_read_integer_length :: "(wStream, nat) cfun" where
  "ber_read_integer_length =
     bind_c (ber_read_universal_tag BER_TAG_INTEGER False) (\<lambda>_. ber_read_length)"

section \<open>Formats\<close>

definition enc_ber_length :: "nat \<Rightarrow> byte list" where
  "enc_ber_length n =
     (if n < 128 then [word_of_nat n] else if n < 256 then [0x81, word_of_nat n]
      else 0x82 # be16 (word_of_nat n))"

fun dec_ber_length :: "nat parser" where
  "dec_ber_length [] = None"
| "dec_ber_length (b # bs) =
     (if unat b < 128 then Some (unat b, bs)
      else let k = unat b - 128 in
        if k \<in> {1, 2} \<and> k \<le> length bs then Some (be_nat (take k bs), drop k bs) else None)"

definition tag_p :: "byte \<Rightarrow> unit parser" where
  "tag_p t bs = (case bs of [] \<Rightarrow> None | b # r \<Rightarrow> if b = t then Some ((), r) else None)"

lemma tag_p_Cons [simp]: "tag_p t (b # r) = (if b = t then Some ((), r) else None)"
  "tag_p t [] = None"
  by (simp_all add: tag_p_def)

definition univ_tag :: "byte \<Rightarrow> bool \<Rightarrow> byte" where
  "univ_tag tag pc = (if pc then 0x20 else 0) OR (0x1F AND tag)"

definition ctxt_tag :: "byte \<Rightarrow> bool \<Rightarrow> byte" where
  "ctxt_tag tag pc = (if pc then 0xA0 else 0x80) OR (0x1F AND tag)"

definition enc_appl_tag :: "byte \<Rightarrow> byte list" where
  "enc_appl_tag tag = (if unat tag > 30 then [0x7F, tag] else [0x60 OR (0x1F AND tag)])"

lemma dec_ber_length_enc:
  assumes "n < 65536"
  shows "dec_ber_length (enc_ber_length n @ rest) = Some (n, rest)"
proof -
  have "be_nat (be16 (word_of_nat n)) = n" using assms by (simp add: be_nat_word_be unat_of_nat)
  then show ?thesis using assms by (auto simp: enc_ber_length_def unat_of_nat be_nat_Cons)
qed


section \<open>Writers\<close>

lemma length_enc_ber_length [simp]: "length (enc_ber_length n) = ber_sizeof_length n"
  by (simp add: enc_ber_length_def ber_sizeof_length_def)

lemma writes_ber_length:
  "n < 65536 \<Longrightarrow> writes (ber_write_length n) (ber_sizeof_length n) (enc_ber_length n)"
  unfolding ber_write_length_def
  by (rule writes_cong, (rule writes_steps | (simp add: enc_ber_length_def ber_sizeof_length_def; fail))+)

lemma writes_length_then:
  "n < 65536 \<Longrightarrow> writes (k (ber_sizeof_length n)) r bs \<Longrightarrow>
     writes (bind_c (ber_write_length n) k) r (enc_ber_length n @ bs)"
  by (rule writes_bind [OF writes_ber_length])

lemma univ_tag_bits: "(BER_CLASS_UNIV OR BER_PC pc) OR (BER_TAG_MASK AND tag) = univ_tag tag pc"
  by (simp add: ber_constants univ_tag_def)

lemma ctxt_tag_bits: "(BER_CLASS_CTXT OR BER_PC pc) OR (BER_TAG_MASK AND tag) = ctxt_tag tag pc"
  by (simp add: ber_constants ctxt_tag_def)

lemma seq_tag_bits:
  "(BER_CLASS_UNIV OR BER_CONSTRUCT) OR (BER_TAG_MASK AND BER_TAG_SEQUENCE) = univ_tag 0x10 True"
  "(BER_CLASS_UNIV OR BER_CONSTRUCT) OR BER_TAG_SEQUENCE_OF = univ_tag 0x10 True"
  by (simp_all add: ber_constants univ_tag_def)

lemma writes_univ_then:
  "writes (k 1) r bs \<Longrightarrow> writes (bind_c (ber_write_universal_tag tag pc) k) r (univ_tag tag pc # bs)"
  unfolding ber_write_universal_tag_def univ_tag_bits bind_c_assoc bind_c_return
  by (rule writes_u8_then)

lemmas ber_writes = writes_steps writes_length_then [rotated] writes_univ_then

lemma writes_ctxt_tag:
  "n < 65536 \<Longrightarrow> writes (ber_write_contextual_tag tag n pc) (1 + ber_sizeof_length n)
     (ctxt_tag tag pc # enc_ber_length n)"
  unfolding ber_write_contextual_tag_def ctxt_tag_bits
  by (rule writes_cong, (rule ber_writes)+) simp_all

lemma writes_appl_tag:
  "n < 65536 \<Longrightarrow> writes (ber_write_application_tag tag n) () (enc_appl_tag tag @ enc_ber_length n)"
  unfolding ber_write_application_tag_def
  by (rule writes_cong, (rule ber_writes | (simp add: enc_appl_tag_def word_less_nat_alt ber_constants; fail))+)

lemma writes_seq_tag:
  "n < 65536 \<Longrightarrow> writes (ber_write_sequence_tag n) (1 + ber_sizeof_length n)
     (univ_tag 0x10 True # enc_ber_length n)"
  unfolding ber_write_sequence_tag_def seq_tag_bits
  by (rule writes_cong, (rule ber_writes)+) simp_all

definition enc_octet_string :: "byte list \<Rightarrow> byte list" where
  "enc_octet_string v = 0x04 # enc_ber_length (length v) @ v"

lemma tag_values: "univ_tag BER_TAG_OCTET_STRING False = 4" "univ_tag BER_TAG_INTEGER False = 2"
  "univ_tag BER_TAG_BOOLEAN False = 1" "univ_tag BER_TAG_ENUMERATED False = 10"
  "univ_tag BER_TAG_BIT_STRING False = 3"
  by (simp_all add: univ_tag_def ber_constants)

lemma writes_octet_string:
  "length v < 65536 \<Longrightarrow> writes (ber_write_octet_string v) (length (enc_octet_string v)) (enc_octet_string v)"
  unfolding ber_write_octet_string_def
  by (rule writes_cong, (rule ber_writes)+) (simp_all add: enc_octet_string_def tag_values)

lemma sizeof_octet_string:
  "length v < 65536 \<Longrightarrow> ber_sizeof_octet_string (length v) = length (enc_octet_string v)"
  by (simp add: ber_sizeof_octet_string_def enc_octet_string_def ber_sizeof_length_def)

definition enc_ctxt_octet_string :: "byte \<Rightarrow> byte list \<Rightarrow> byte list" where
  "enc_ctxt_octet_string tag v =
     ctxt_tag tag True # enc_ber_length (length (enc_octet_string v)) @ enc_octet_string v"

lemma writes_ctxt_octet_string:
  assumes "length (enc_octet_string v) < 65536"
  shows "writes (ber_write_contextual_octet_string tag v) (length (enc_ctxt_octet_string tag v))
    (enc_ctxt_octet_string tag v)"
proof -
  have v: "length v < 65536" using assms by (simp add: enc_octet_string_def)
  have nz: "length (enc_octet_string v) \<noteq> 0" by (simp add: enc_octet_string_def)
  have "writes (bind_c (ber_write_octet_string v) (\<lambda>r. if r = 0 then return_c 0
        else return_c (1 + ber_sizeof_length (length (enc_octet_string v)) + r)))
      (length (enc_ctxt_octet_string tag v)) (enc_octet_string v @ [])"
    by (rule writes_bind [OF writes_octet_string [OF v]])
      (use nz in \<open>simp add: writes_def return_c_def enc_ctxt_octet_string_def\<close>)
  then show ?thesis
    using writes_bind [OF writes_ctxt_tag [OF assms, of tag True],
        where k = "\<lambda>ret. if ret = 0 then return_c 0 else
          bind_c (ber_write_octet_string v) (\<lambda>r. if r = 0 then return_c 0 else return_c (ret + r))"]
    by (simp add: ber_write_contextual_octet_string_def sizeof_octet_string [OF v]
        enc_ctxt_octet_string_def)
qed


text \<open>
  Integers are written with the least number of bytes whose leading bit is clear, but negative numbers
  (the last case, error codes) with four.
\<close>

definition enc_ber_integer :: "32 word \<Rightarrow> byte list" where
  "enc_ber_integer v =
     (if unat v < 0x80 then [2, 1, ucast v]
      else if unat v < 0x8000 then 2 # 2 # be16 (ucast v)
      else if unat v < 0x800000 then 2 # 3 # ucast (drop_bit 16 v) # be16 (ucast v)
      else 2 # 4 # be32 v)"

definition ber_int_ok :: "32 word \<Rightarrow> bool" where
  "ber_int_ok v \<longleftrightarrow> unat v < 0x10000 \<or> 0x800000 \<le> unat v"

lemma length_enc_ber_integer: "length (enc_ber_integer v) = ber_sizeof_integer v"
  by (simp add: enc_ber_integer_def ber_sizeof_integer_def word_less_nat_alt)

lemma enc_small: "enc_ber_length (Suc 0) = [1]" "enc_ber_length 2 = [2]" "enc_ber_length 3 = [3]"
  "enc_ber_length 4 = [4]"
  by (simp_all add: enc_ber_length_def)

lemma writes_ber_integer:
  "ber_int_ok v \<Longrightarrow> writes (ber_write_integer v) (ber_sizeof_integer v) (enc_ber_integer v)"
  unfolding ber_write_integer_def
  by (rule writes_cong, (rule ber_writes | (simp add: enc_ber_integer_def ber_sizeof_integer_def tag_values
      word_less_nat_alt enc_small ucast_ucast_id ber_int_ok_def unat_drop_bit; fail))+)

lemma writes_enumerated:
  "writes (ber_write_enumerated v count) () [10, 1, v]"
  unfolding ber_write_enumerated_def
  by (rule writes_cong, (rule ber_writes | (simp add: tag_values enc_small; fail))+)

lemma writes_BOOL:
  "writes (ber_write_BOOL b) () [1, 1, if b then 0xFF else 0]"
  unfolding ber_write_BOOL_def
  by (rule writes_cong, (rule ber_writes | (simp add: tag_values enc_small; fail))+)


lemma writes_octet_string_tag:
  "n < 65536 \<Longrightarrow> writes (ber_write_octet_string_tag n) (1 + ber_sizeof_length n) (4 # enc_ber_length n)"
  unfolding ber_write_octet_string_tag_def
  by (rule writes_cong, (rule ber_writes | (simp add: tag_values; fail))+)

lemma writes_ctxt_unicode:
  assumes "length (enc_octet_string (concat (map le16 (takeWhile (\<lambda>c. c \<noteq> 0) str)))) < 65536"
  shows "writes (ber_write_contextual_unicode_octet_string tag str)
    (length (enc_ctxt_octet_string tag (concat (map le16 (takeWhile (\<lambda>c. c \<noteq> 0) str)))))
    (enc_ctxt_octet_string tag (concat (map le16 (takeWhile (\<lambda>c. c \<noteq> 0) str))))"
proof -
  define v where "v = concat (map le16 (takeWhile (\<lambda>c. c \<noteq> 0) str))"
  have l: "length (takeWhile (\<lambda>c. c \<noteq> 0) str) * 2 = length v"
    by (simp add: v_def length_concat comp_def sum_list_triv)
  have v: "length (enc_octet_string v) < 65536" "length v < 65536"
    using assms by (simp_all add: v_def [symmetric] enc_octet_string_def)
  have "writes (bind_c (ber_write_octet_string v) (\<lambda>r.
        return_c (1 + ber_sizeof_length (length (enc_octet_string v)) + r)))
      (length (enc_ctxt_octet_string tag v)) (enc_octet_string v @ [])"
    by (rule writes_bind [OF writes_octet_string [OF v(2)]])
      (simp add: writes_def return_c_def enc_ctxt_octet_string_def)
  then show ?thesis
    using writes_bind [OF writes_ctxt_tag [OF v(1), of tag True],
        where k = "\<lambda>ret. bind_c (ber_write_octet_string v) (\<lambda>r. return_c (ret + r))"]
    by (simp add: ber_write_contextual_unicode_octet_string_def l sizeof_octet_string [OF v(2)]
        enc_ctxt_octet_string_def v_def [symmetric] Let_def)
qed

text \<open>The contextual integer asks for more room than it needs; with that room it does not allocate.\<close>

lemma ber_write_contextual_integer_ok:
  assumes "wf_stream s" "ber_sizeof_integer v + 5 \<le> room s" "ber_int_ok v"
  shows "ber_write_contextual_integer malloc tag v s = Success (ber_sizeof_contextual_integer v)
    (put (ctxt_tag tag True # enc_ber_length (ber_sizeof_integer v) @ enc_ber_integer v) s)"
proof -
  have n: "ber_sizeof_integer v < 65536" by (simp add: ber_sizeof_integer_def)
  have "writes (bind_c (ber_write_contextual_tag tag (ber_sizeof_integer v) True) (\<lambda>n.
      bind_c (ber_write_integer v) (\<lambda>_. return_c (ber_sizeof_integer v + n))))
      (ber_sizeof_contextual_integer v)
      ((ctxt_tag tag True # enc_ber_length (ber_sizeof_integer v)) @ enc_ber_integer v @ [])"
    by (rule writes_bind [OF writes_ctxt_tag [OF n]], rule writes_bind [OF writes_ber_integer [OF assms(3)]])
      (simp add: writes_def return_c_def ber_sizeof_contextual_integer_def ber_sizeof_contextual_tag_def Let_def)
  from writesD [OF this assms(1)] assms(2)
  have "bind_c (ber_write_contextual_tag tag (ber_sizeof_integer v) True) (\<lambda>n.
      bind_c (ber_write_integer v) (\<lambda>_. return_c (ber_sizeof_integer v + n))) s =
    Success (ber_sizeof_contextual_integer v)
      (put (ctxt_tag tag True # enc_ber_length (ber_sizeof_integer v) @ enc_ber_integer v) s)"
    by (simp add: length_enc_ber_integer ber_sizeof_length_def)
  with EnsureRemainingCapacity_room [OF assms(1,2)] show ?thesis
    by (simp add: ber_write_contextual_integer_def Let_def bind_c_def)
qed

section \<open>Readers\<close>

lemma ber_length_bytes:
  "check_p k (if k = 1 then bind_p u8_p (\<lambda>v. return_p (unat v))
     else if k = 2 then bind_p u16_be_p (\<lambda>v. return_p (unat v)) else fail_p) r =
   (if k \<in> {1, 2} \<and> k \<le> length r then Some (be_nat (take k r), drop k r) else None)"
proof -
  have "unat (winpr_Data_Get_UINT16_BE r) = be_nat (take 2 r)" if "2 \<le> length r"
    using that be_nat_less [of "take 2 r"]
    by (simp add: winpr_Data_Get_UINT16_BE_def data_get_be_nat unat_of_nat)
  then show ?thesis by (cases r) (auto simp: parser_defs be_nat_Cons)
qed

lemma reads_ber_length: "reads ber_read_length dec_ber_length"
proof (rule reads_cong)
  let ?q = "check_p 1 (bind_p u8_p (\<lambda>b.
      if b AND 0x80 \<noteq> 0 then check_p (unat (b AND NOT 0x80)) (
        if b AND NOT 0x80 = 1 then bind_p u8_p (\<lambda>v. return_p (unat v))
        else if b AND NOT 0x80 = 2 then bind_p u16_be_p (\<lambda>v. return_p (unat v)) else fail_p)
      else return_p (unat b)))"
  show "reads ber_read_length ?q"
    unfolding ber_read_length_def Let_def by (intro reads_when_intros) simp_all
  fix bs :: "byte list"
  show "?q bs = dec_ber_length bs"
  proof (cases bs)
    case Nil
    then show ?thesis by (simp add: parser_defs)
  next
    case (Cons b r)
    show ?thesis
    proof (cases "128 \<le> unat b")
      case True
      then obtain k where b: "unat b = 128 + k" using le_Suc_ex by blast
      then have k: "unat (b AND NOT 0x80) = k"
        using unat_byte_less [of b] unfolding and_not_80 by simp
      have e: "b AND NOT 0x80 = 1 \<longleftrightarrow> k = 1" "b AND NOT 0x80 = 2 \<longleftrightarrow> k = 2"
        unfolding word_unat_eq_iff k by simp_all
      show ?thesis unfolding Cons check_u8 and_80 if_P [OF True] k e ber_length_bytes
        by (simp add: b Let_def)
    next
      case False
      then show ?thesis unfolding Cons check_u8 and_80 by (simp add: return_p_def)
    qed
  qed
qed

lemma reads_tag_then:
  assumes "reads f p"
  shows "reads (bind_c (Stream_CheckAndLogRequiredLength 1) (\<lambda>_. bind_c Stream_Read_UINT8 (\<lambda>byte.
      if byte \<noteq> t then fail_c else f))) (bind_p (tag_p t) (\<lambda>_. p))"
proof (rule reads_cong)
  show "reads (bind_c (Stream_CheckAndLogRequiredLength 1) (\<lambda>_. bind_c Stream_Read_UINT8 (\<lambda>byte.
      if byte \<noteq> t then fail_c else f))) (check_p 1 (bind_p u8_p (\<lambda>b. if b \<noteq> t then fail_p else p)))"
    using assms by (intro reads_when_intros reads_reads_when) simp_all
  show "check_p 1 (bind_p u8_p (\<lambda>b. if b \<noteq> t then fail_p else p)) bs = bind_p (tag_p t) (\<lambda>_. p) bs" for bs
    by (cases bs) (simp_all add: parser_defs)
qed

lemma reads_univ_tag: "reads (ber_read_universal_tag tag pc) (tag_p (univ_tag tag pc))"
proof -
  have "reads (ber_read_universal_tag tag pc) (bind_p (tag_p (univ_tag tag pc)) (\<lambda>_. return_p ()))"
    unfolding ber_read_universal_tag_def Let_def or.assoc [symmetric] univ_tag_bits
    by (rule reads_tag_then [OF reads_return])
  then show ?thesis by (rule reads_cong) (simp add: bind_p_def return_p_def split: option.split)
qed

definition dec_ber_tagged :: "byte \<Rightarrow> nat parser" where
  "dec_ber_tagged t = bind_p (tag_p t) (\<lambda>_. dec_ber_length)"

lemma reads_seq_tag: "reads ber_read_sequence_tag (dec_ber_tagged (univ_tag 0x10 True))"
  unfolding ber_read_sequence_tag_def Let_def seq_tag_bits dec_ber_tagged_def
  by (rule reads_tag_then [OF reads_ber_length])

lemma reads_octet_string_tag: "reads ber_read_octet_string_tag (dec_ber_tagged 4)"
  unfolding ber_read_octet_string_tag_def dec_ber_tagged_def tag_values(1) [symmetric]
  by (intro reads_bind reads_univ_tag reads_ber_length)

lemma reads_integer_length: "reads ber_read_integer_length (dec_ber_tagged 2)"
  unfolding ber_read_integer_length_def dec_ber_tagged_def tag_values(2) [symmetric]
  by (intro reads_bind reads_univ_tag reads_ber_length)

text \<open>A contextual tag that is not there is no error of the message: the reader then does not move.\<close>

lemma ber_read_contextual_tag_absent:
  assumes "readable s" "tag_p (ctxt_tag tag pc) (remaining s) = None"
  shows "ber_read_contextual_tag tag pc s = Failure s"
proof (cases "remaining s")
  case Nil
  with assms(1) show ?thesis by (simp add: ber_read_contextual_tag_def c_simps stream_exec Let_def)
next
  case (Cons b r)
  with assms(2) have "b \<noteq> ctxt_tag tag pc" by (auto split: if_splits)
  with Cons assms(1) show ?thesis
    unfolding ber_read_contextual_tag_def ctxt_tag_bits
    by (simp add: c_simps stream_exec Let_def Stream_Rewind_def advance_def)
qed

lemma reads_ctxt_tag: "reads (ber_read_contextual_tag tag pc) (dec_ber_tagged (ctxt_tag tag pc))"
  unfolding reads_def
proof (intro allI impI)
  fix s assume s: "readable s"
  show "agrees s (dec_ber_tagged (ctxt_tag tag pc) (remaining s)) (ber_read_contextual_tag tag pc s)"
  proof (cases "tag_p (ctxt_tag tag pc) (remaining s)")
    case None
    with ber_read_contextual_tag_absent [OF s None] show ?thesis
      by (simp add: dec_ber_tagged_def agrees_here(1) del: agrees_None)
  next
    case (Some a)
    then obtain r where r: "remaining s = ctxt_tag tag pc # r" "a = ((), r)"
      by (cases "remaining s") (auto split: if_splits)
    then have one: "1 \<le> length (remaining s)" by simp
    with s have "readable (advance 1 s)" by (rule readable_advance)
    with reads_ber_length have "agrees (advance 1 s) (dec_ber_length (remaining (advance 1 s)))
        (ber_read_length (advance 1 s))" by (simp only: reads_def)
    then have "agrees s (dec_ber_length r) (ber_read_length (advance 1 s))"
      using agrees_advance [OF one] r by simp
    then show ?thesis using r s unfolding ber_read_contextual_tag_def ctxt_tag_bits
      by (simp add: dec_ber_tagged_def bind_p_def c_simps stream_exec Let_def)
  qed
qed

definition dec_appl_tag :: "byte \<Rightarrow> nat parser" where
  "dec_appl_tag tag = (if unat tag > 30 then bind_p (tag_p 0x7F) (\<lambda>_. bind_p (tag_p tag) (\<lambda>_. dec_ber_length))
     else dec_ber_tagged (0x60 OR (0x1F AND tag)))"

lemma reads_appl_tag: "reads (ber_read_application_tag tag) (dec_appl_tag tag)"
proof (cases "tag > 30")
  case False
  then have t: "\<not> unat tag > 30" by (simp add: word_less_nat_alt)
  have e: "BER_CLASS_APPL OR BER_CONSTRUCT = 0x60" by (simp add: ber_constants)
  show ?thesis using False t
    unfolding ber_read_application_tag_def dec_appl_tag_def Let_def e BER_TAG_MASK_def
    by (simp only: if_False dec_ber_tagged_def) (rule reads_tag_then [OF reads_ber_length])
next
  case True
  then have t: "unat tag > 30" by (simp add: word_less_nat_alt)
  have e: "(BER_CLASS_APPL OR BER_CONSTRUCT) OR BER_TAG_MASK = 0x7F" by (simp add: ber_constants)
  let ?q = "check_p 2 (bind_p u8_p (\<lambda>b. if b \<noteq> 0x7F then fail_p
      else bind_p u8_p (\<lambda>c. if c \<noteq> tag then fail_p else dec_ber_length)))"
  have "reads (ber_read_application_tag tag) ?q"
    unfolding ber_read_application_tag_def Let_def e if_P [OF True]
    by (intro reads_when_intros reads_reads_when reads_ber_length) simp_all
  moreover have "?q bs = dec_appl_tag tag bs" for bs
  proof -
    consider "bs = []" | b where "bs = [b]" | b c r where "bs = b # c # r" by (metis list.exhaust)
    then show ?thesis by cases (use t in \<open>auto simp: parser_defs dec_appl_tag_def\<close>)
  qed
  ultimately show ?thesis by (rule reads_cong)
qed


definition dec_ber_integer :: "32 word parser" where
  "dec_ber_integer = bind_p (dec_ber_tagged 2) (\<lambda>n bs.
     if n \<le> length bs \<and> n \<in> {1..4}
     then Some (word_of_nat (be_nat (take n bs)), drop n bs) else None)"

definition skip_ber_integer :: "unit parser" where
  "skip_ber_integer = bind_p (dec_ber_tagged 2) skip_p"

lemma list_of_3: "3 \<le> length xs \<Longrightarrow> \<exists>a b c r. xs = a # b # c # r"
  by (auto simp: numeral_eq_Suc Suc_le_length_iff)

lemma ber_int3:
  "ucast (winpr_Data_Get_UINT16_BE (c # d # r)) + (push_bit 16 (ucast b) AND 0xFF0000) =
    (word_of_nat (be_nat [b, c, d]) :: 32 word)" for b c d :: byte
proof -
  have m: "(0xFF0000 :: 32 word) = push_bit 16 (mask 8)"
    by (simp add: mask_eq_exp_minus_1 push_bit_eq_mult)
  have "push_bit 16 (ucast b) AND 0xFF0000 = (push_bit 16 (ucast b) :: 32 word)"
    unfolding m by (rule bit_word_eqI) (auto simp: bit_simps dest: bit_imp_le_length)
  also have "(push_bit 16 (ucast b) :: 32 word) = word_of_nat (65536 * unat b)"
    by (simp add: push_bit_eq_mult)
  finally show ?thesis
    by (simp add: ucast_get_u16_be be_nat_Cons algebra_simps)
qed

lemma reads_ber_integer: "reads (ber_read_integer True) (map_p Some dec_ber_integer)"
proof (rule reads_cong)
  let ?q = "\<lambda>n. check_p n (if n = 1 then bind_p u8_p (\<lambda>v. return_p (Some (ucast v)))
      else if n = 2 then bind_p u16_be_p (\<lambda>v. return_p (Some (ucast v)))
      else if n = 3 then bind_p u8_p (\<lambda>b. bind_p u16_be_p (\<lambda>v.
        return_p (Some (ucast v + (push_bit 16 (ucast b) AND 0xFF0000)))))
      else if n = 4 then bind_p u32_be_p (\<lambda>v. return_p (Some v)) else fail_p)"
  show "reads (ber_read_integer True) (bind_p (tag_p 2) (\<lambda>_. bind_p dec_ber_length ?q))"
    unfolding ber_read_integer_def tag_values(2) [symmetric] simp_thms if_False
    by (intro reads_bind reads_univ_tag reads_ber_length reads_when_intros) simp_all
  fix bs
  have "?q n xs = (if n \<le> length xs \<and> n \<in> {1..4}
     then Some (Some (word_of_nat (be_nat (take n xs))), drop n xs) else None)" for n xs
  proof -
    consider "n = 1" | "n = 2" | "n = 3" | "n = 4" | "n \<notin> {1..4}" by (fastforce simp: atLeastAtMost_iff)
    then show ?thesis
    proof cases
      case 1
      then show ?thesis by (cases xs) (simp_all add: parser_defs be_nat_Cons)
    next
      case 2
      then show ?thesis by (simp add: parser_defs ucast_get_u16_be)
    next
      case 3
      show ?thesis
      proof (cases "3 \<le> length xs")
        case True
        then obtain b c d r where xs: "xs = b # c # d # r" using list_of_3 by blast
        then show ?thesis using 3 ber_int3 [of c d r b] by (simp add: parser_defs)
      qed (simp add: 3 parser_defs)
    next
      case 4
      then show ?thesis by (simp add: parser_defs winpr_Data_Get_UINT32_BE_def data_get_be_nat)
    next
      case 5
      then show ?thesis by (auto simp: parser_defs)
    qed
  qed
  then show "bind_p (tag_p 2) (\<lambda>_. bind_p dec_ber_length ?q) bs = map_p Some dec_ber_integer bs"
    by (auto simp: map_p_def dec_ber_integer_def dec_ber_tagged_def bind_p_def return_p_def split: option.split)
qed

lemma skip_check: "check_p n (skip_p n) = skip_p n"
  by (rule ext) (simp add: check_p_def skip_p_def)

lemma reads_skip_integer: "reads (ber_read_integer False) (map_p (\<lambda>_. None) skip_ber_integer)"
proof (rule reads_cong)
  show "reads (ber_read_integer False) (bind_p (tag_p 2) (\<lambda>_. bind_p dec_ber_length (\<lambda>n.
      check_p n (bind_p (skip_p n) (\<lambda>_. return_p None)))))"
    unfolding ber_read_integer_def tag_values(2) [symmetric] simp_thms if_True
    by (intro reads_bind reads_univ_tag reads_ber_length reads_check reads_reads_when reads_SafeSeek reads_return)
  show "bind_p (tag_p 2) (\<lambda>_. bind_p dec_ber_length (\<lambda>n. check_p n (bind_p (skip_p n) (\<lambda>_. return_p None)))) bs =
      map_p (\<lambda>_. None) skip_ber_integer bs" for bs
    by (auto simp: map_p_def skip_ber_integer_def dec_ber_tagged_def parser_defs skip_p_def split: option.split)
qed

definition dec_octet_string :: "malloc \<Rightarrow> byte list parser" where
  "dec_octet_string malloc = bind_p (dec_ber_tagged 4) (\<lambda>n bs.
     if n \<le> length bs \<and> malloc n \<noteq> None then Some (take n bs, drop n bs) else None)"

lemma reads_octet_string: "reads (ber_read_octet_string malloc) (dec_octet_string malloc)"
  unfolding ber_read_octet_string_def dec_octet_string_def
proof (intro reads_bind reads_octet_string_tag)
  fix n
  have "reads_when n (case malloc n of None \<Rightarrow> fail_c | Some _ \<Rightarrow> Stream_Read n)
      (if malloc n = None then fail_p else bytes_p n)"
    using reads_when_bytes_last [of n] reads_fail [THEN reads_reads_when, of n]
    by (auto split: option.split)
  from reads_check [OF this]
  show "reads (bind_c (Stream_CheckAndLogRequiredLength n) (\<lambda>_.
      case malloc n of None \<Rightarrow> fail_c | Some _ \<Rightarrow> Stream_Read n))
    (\<lambda>bs. if n \<le> length bs \<and> malloc n \<noteq> None then Some (take n bs, drop n bs) else None)"
    by (rule reads_cong) (simp add: parser_defs)
qed

definition dec_unicode_string :: "malloc \<Rightarrow> byte list parser" where
  "dec_unicode_string malloc = bind_p (dec_ber_tagged 4) (\<lambda>n bs.
     if n \<le> length bs \<and> malloc (n + 2) \<noteq> None
     then Some (take (2 * (n div 2)) bs @ replicate (2 + n mod 2) 0, drop n bs) else None)"


lemma terminated_string:
  assumes "n \<le> length bs"
  shows "overwrite (take n bs @ [0, 0]) (2 * (n div 2)) [0, 0] =
    take (2 * (n div 2)) bs @ replicate (2 + n mod 2) 0"
proof (cases "even n")
  case True
  then obtain m where "n = 2 * m" by (auto elim: evenE)
  with assms show ?thesis by (simp add: overwrite_def)
next
  case False
  then obtain m where "n = 2 * m + 1" by (auto elim: oddE)
  with assms show ?thesis by (simp add: overwrite_def)
qed

lemma reads_unicode_octet_string:
  "reads (ber_read_unicode_octet_string malloc) (dec_unicode_string malloc)"
  unfolding ber_read_unicode_octet_string_def dec_unicode_string_def
proof (intro reads_bind reads_octet_string_tag)
  fix n
  let ?k = "\<lambda>v. return_c (overwrite (v @ [0, 0]) (2 * (n div 2)) [0, 0])"
  let ?p = "bind_p (bytes_p n) (\<lambda>v. return_p (overwrite (v @ [0, 0]) (2 * (n div 2)) [0, 0]))"
  have "reads_when n (bind_c Stream_ConstPointer (\<lambda>p. bind_c (Stream_Seek n) (\<lambda>_. ?k (take n p)))) ?p"
    by (rule reads_when_pointer) (simp_all add: reads_when_basic)
  then have "reads_when n (case malloc (n + 2) of None \<Rightarrow> fail_c | Some _ \<Rightarrow>
      bind_c Stream_ConstPointer (\<lambda>p. bind_c (Stream_Seek n) (\<lambda>_. ?k (take n p))))
      (if malloc (n + 2) = None then fail_p else ?p)"
    using reads_fail [THEN reads_reads_when, of n] by (auto split: option.split)
  from reads_check [OF this]
  show "reads (bind_c (Stream_CheckAndLogRequiredLength n) (\<lambda>_. case malloc (n + 2) of None \<Rightarrow> fail_c
      | Some _ \<Rightarrow> bind_c Stream_ConstPointer (\<lambda>p. bind_c (Stream_Seek n) (\<lambda>_. ?k (take n p)))))
    (\<lambda>bs. if n \<le> length bs \<and> malloc (n + 2) \<noteq> None
      then Some (take (2 * (n div 2)) bs @ replicate (2 + n mod 2) 0, drop n bs) else None)"
    by (rule reads_cong) (simp add: parser_defs terminated_string)
qed

definition dec_one_byte :: "byte \<Rightarrow> byte parser" where
  "dec_one_byte t = bind_p (dec_ber_tagged t) (\<lambda>n bs.
     case bs of [] \<Rightarrow> None | b # r \<Rightarrow> if n = 1 then Some (b, r) else None)"

lemma reads_one_byte:
  assumes "\<And>v. reads (k v) (q v)"
  shows "reads (bind_c (ber_read_universal_tag tag False) (\<lambda>_. bind_c ber_read_length (\<lambda>n.
     if n \<noteq> 1 then fail_c else bind_c (Stream_CheckAndLogRequiredLength 1) (\<lambda>_.
       bind_c Stream_Read_UINT8 k)))) (bind_p (dec_one_byte (univ_tag tag False)) q)"
proof (rule reads_cong)
  let ?q = "\<lambda>n. if n \<noteq> 1 then fail_p else check_p 1 (bind_p u8_p q)"
  show "reads (bind_c (ber_read_universal_tag tag False) (\<lambda>_. bind_c ber_read_length (\<lambda>n.
     if n \<noteq> 1 then fail_c else bind_c (Stream_CheckAndLogRequiredLength 1) (\<lambda>_.
       bind_c Stream_Read_UINT8 k)))) (bind_p (tag_p (univ_tag tag False)) (\<lambda>_. bind_p dec_ber_length ?q))"
    by (intro reads_bind reads_univ_tag reads_ber_length reads_when_intros reads_reads_when assms) simp_all
  fix bs
  have "?q n xs = bind_p (\<lambda>bs. case bs of [] \<Rightarrow> None | b # r \<Rightarrow> if n = 1 then Some (b, r) else None) q xs" for n xs
    by (cases xs) (simp_all add: parser_defs)
  then show "bind_p (tag_p (univ_tag tag False)) (\<lambda>_. bind_p dec_ber_length ?q) bs =
      bind_p (dec_one_byte (univ_tag tag False)) q bs"
    unfolding dec_one_byte_def dec_ber_tagged_def bind_p_assoc by (intro bind_p_cong)
qed

definition dec_ber_bool :: "bool parser" where
  "dec_ber_bool = map_p (\<lambda>v. v \<noteq> 0) (dec_one_byte 1)"

lemma reads_BOOL: "reads ber_read_BOOL dec_ber_bool"
  unfolding ber_read_BOOL_def dec_ber_bool_def map_p_def tag_values(3) [symmetric]
  by (rule reads_one_byte [OF reads_return])

definition dec_ber_enumerated :: "byte \<Rightarrow> byte parser" where
  "dec_ber_enumerated count = bind_p (dec_one_byte 10) (\<lambda>v. if unat v < unat count then return_p v else fail_p)"

lemma reads_enumerated: "reads (ber_read_enumerated count) (dec_ber_enumerated count)"
proof -
  have "reads (if unat v + 1 > unat count then fail_c else return_c v)
      (if unat v < unat count then return_p v else fail_p)" for v :: byte
    using reads_fail reads_return by auto
  from reads_one_byte [OF this] show ?thesis
    unfolding ber_read_enumerated_def dec_ber_enumerated_def tag_values(4) [symmetric] .
qed

definition dec_bit_string :: "(nat \<times> byte) parser" where
  "dec_bit_string = bind_p (dec_ber_tagged 3) (\<lambda>n bs.
     case bs of [] \<Rightarrow> None | b # r \<Rightarrow> Some ((n, b), r))"

lemma reads_bit_string: "reads ber_read_bit_string dec_bit_string"
proof (rule reads_cong)
  let ?q = "\<lambda>n. check_p 1 (bind_p u8_p (\<lambda>b. return_p (n, b)))"
  show "reads ber_read_bit_string (bind_p (tag_p 3) (\<lambda>_. bind_p dec_ber_length ?q))"
    unfolding ber_read_bit_string_def tag_values(5) [symmetric]
    by (intro reads_bind reads_univ_tag reads_ber_length reads_when_intros) simp_all
  have "?q n xs = (case xs of [] \<Rightarrow> None | b # r \<Rightarrow> Some ((n, b), r))" for n xs
    by (cases xs) (simp_all add: parser_defs)
  then show "bind_p (tag_p 3) (\<lambda>_. bind_p dec_ber_length ?q) bs = dec_bit_string bs" for bs
    unfolding dec_bit_string_def dec_ber_tagged_def bind_p_assoc by (intro bind_p_cong)
qed


section \<open>The formats as stream codecs\<close>

interpretation ber_length: stream_codec enc_ber_length dec_ber_length "\<lambda>n. n < 65536"
  ber_write_length ber_sizeof_length ber_read_length
  by unfold_locales (simp_all add: dec_ber_length_enc writes_ber_length reads_ber_length)

lemma dec_ber_tagged_enc:
  "n < 65536 \<Longrightarrow> dec_ber_tagged t ((t # enc_ber_length n) @ rest) = Some (n, rest)"
  by (simp add: dec_ber_tagged_def dec_ber_length_enc)

interpretation ber_contextual_tag: stream_codec "\<lambda>n. ctxt_tag tag pc # enc_ber_length n"
  "dec_ber_tagged (ctxt_tag tag pc)" "\<lambda>n. n < 65536" "\<lambda>n. ber_write_contextual_tag tag n pc"
  "\<lambda>n. 1 + ber_sizeof_length n" "ber_read_contextual_tag tag pc" for tag pc
  by unfold_locales (rule dec_ber_tagged_enc writes_ctxt_tag reads_ctxt_tag, assumption?)+

interpretation ber_sequence_tag: stream_codec "\<lambda>n. univ_tag 0x10 True # enc_ber_length n"
  "dec_ber_tagged (univ_tag 0x10 True)" "\<lambda>n. n < 65536" ber_write_sequence_tag
  "\<lambda>n. 1 + ber_sizeof_length n" ber_read_sequence_tag
  by unfold_locales (rule dec_ber_tagged_enc writes_seq_tag reads_seq_tag, assumption?)+

lemma dec_appl_tag_enc:
  "n < 65536 \<Longrightarrow> dec_appl_tag tag ((enc_appl_tag tag @ enc_ber_length n) @ rest) = Some (n, rest)"
  by (simp add: dec_appl_tag_def enc_appl_tag_def dec_ber_tagged_def dec_ber_length_enc)

interpretation ber_application_tag: stream_codec "\<lambda>n. enc_appl_tag tag @ enc_ber_length n"
  "dec_appl_tag tag" "\<lambda>n. n < 65536" "ber_write_application_tag tag" "\<lambda>_. ()"
  "ber_read_application_tag tag" for tag
  by unfold_locales (rule dec_appl_tag_enc writes_appl_tag reads_appl_tag, assumption?)+

lemma dec_ber_integer_enc: "dec_ber_integer (enc_ber_integer v @ rest) = Some (v, rest)"
proof -
  have b: "be_nat (be16 (ucast v)) = unat v mod 65536" by (simp add: be_nat_word_be unat_ucast)
  have m: "unat v mod 4294967296 = unat v" using unsigned_less [where 'a = nat, of v] by simp
  have d: "dec_ber_integer (2 # word_of_nat n # xs @ rest) = Some (word_of_nat (be_nat xs), rest)"
    if "length xs = n" "n \<in> {1..4}" for n xs
    using that by (auto simp: dec_ber_integer_def dec_ber_tagged_def unat_of_nat)
  have "be_nat (ucast (drop_bit 16 v) # be16 (ucast v)) = unat v" if "unat v < 0x800000"
    using that by (simp add: be_nat_Cons b unat_ucast unat_drop_bit)
  with d [of "[ucast v]" 1] d [of "be16 (ucast v)" 2] d [of "be32 v" 4]
    d [of "ucast (drop_bit 16 v) # be16 (ucast v)" 3]
  show ?thesis
    by (simp add: enc_ber_integer_def b be_nat_word_be) (simp add: be_nat_Cons unat_ucast m)
qed

interpretation ber_integer: stream_codec "\<lambda>v. enc_ber_integer (the v)" "map_p Some dec_ber_integer"
  "\<lambda>v. v \<noteq> None \<and> ber_int_ok (the v)" "\<lambda>v. ber_write_integer (the v)"
  "\<lambda>v. ber_sizeof_integer (the v)" "ber_read_integer True"
proof unfold_locales
  show "map_p Some dec_ber_integer (enc_ber_integer (the v) @ rest) = Some (v, rest)"
    if "v \<noteq> None \<and> ber_int_ok (the v)" for v rest
    using that by (auto simp: map_p_def dec_ber_integer_enc return_p_def)
qed (simp_all add: writes_ber_integer reads_ber_integer)

lemma dec_octet_string_enc:
  "length v < 65536 \<Longrightarrow> malloc (length v) \<noteq> None \<Longrightarrow>
     dec_octet_string malloc (enc_octet_string v @ rest) = Some (v, rest)"
  using dec_ber_tagged_enc [of "length v" 4 "v @ rest"]
  by (auto simp: dec_octet_string_def enc_octet_string_def)

interpretation ber_octet_string: stream_codec enc_octet_string "dec_octet_string malloc"
  "\<lambda>v. length v < 65536 \<and> malloc (length v) \<noteq> None" ber_write_octet_string
  "\<lambda>v. length (enc_octet_string v)" "ber_read_octet_string malloc" for malloc
  by unfold_locales (simp_all add: dec_octet_string_enc writes_octet_string reads_octet_string)

text \<open>A contextual field around an octet string, as it is written and as it is read.\<close>

interpretation ber_contextual_octet_string: stream_codec "enc_ctxt_octet_string tag"
  "bind_p (dec_ber_tagged (ctxt_tag tag True)) (\<lambda>_. dec_octet_string malloc)"
  "\<lambda>v. length (enc_octet_string v) < 65536 \<and> malloc (length v) \<noteq> None"
  "ber_write_contextual_octet_string tag" "\<lambda>v. length (enc_ctxt_octet_string tag v)"
  "bind_c (ber_read_contextual_tag tag True) (\<lambda>_. ber_read_octet_string malloc)" for tag malloc
proof unfold_locales
  fix v rest
  assume v: "length (enc_octet_string v) < 65536 \<and> malloc (length v) \<noteq> None"
  then have "length v < 65536" by (simp add: enc_octet_string_def)
  with v dec_ber_tagged_enc [of "length (enc_octet_string v)" "ctxt_tag tag True" "enc_octet_string v @ rest"]
  show "bind_p (dec_ber_tagged (ctxt_tag tag True)) (\<lambda>_. dec_octet_string malloc)
      (enc_ctxt_octet_string tag v @ rest) = Some (v, rest)"
    by (simp add: enc_ctxt_octet_string_def dec_octet_string_enc)
qed (simp_all add: writes_ctxt_octet_string reads_bind reads_ctxt_tag reads_octet_string)

interpretation ber_BOOL: stream_codec "\<lambda>b. [1, 1, if b then 0xFF else 0]" dec_ber_bool "\<lambda>_. True"
  ber_write_BOOL "\<lambda>_. ()" ber_read_BOOL
proof unfold_locales
  show "dec_ber_bool ([1, 1, if b then 0xFF else 0] @ rest) = Some (b, rest)" for b rest
    by (simp add: dec_ber_bool_def map_p_def dec_one_byte_def dec_ber_tagged_def return_p_def)
qed (simp_all add: writes_BOOL reads_BOOL)

interpretation ber_enumerated: stream_codec "\<lambda>v. [10, 1, v]" "dec_ber_enumerated count"
  "\<lambda>v. unat v < unat count" "\<lambda>v. ber_write_enumerated v count" "\<lambda>_. ()"
  "ber_read_enumerated count" for count
proof unfold_locales
  show "dec_ber_enumerated count ([10, 1, v] @ rest) = Some (v, rest)" if "unat v < unat count" for v rest
    using that by (simp add: dec_ber_enumerated_def dec_one_byte_def dec_ber_tagged_def return_p_def)
qed (simp_all add: writes_enumerated reads_enumerated)


lemma sizeof_ctxt_octet_string:
  assumes "length (enc_octet_string v) < 65536"
  shows "length (enc_ctxt_octet_string tag v) = ber_sizeof_contextual_octet_string (length v)"
proof -
  have "length v < 65536" using assms by (simp add: enc_octet_string_def)
  then show ?thesis using assms
    by (simp add: ber_sizeof_contextual_octet_string_def sizeof_octet_string enc_ctxt_octet_string_def
        ber_sizeof_contextual_tag_def ber_sizeof_length_def Let_def)
qed

section \<open>Properties\<close>

lemma seq_tag_value: "univ_tag 0x10 True = 0x30"
  by (simp add: univ_tag_def)

text \<open>
  C30: every reader of ber.c computes the parser of its format on the unread bytes: it returns \<open>TRUE\<close>
  with the parsed value and the cursor behind it exactly when the bytes are well-formed, and never fails
  an assertion or reads outside the data. A contextual tag that is not the next one leaves the cursor
  where it was, so that the caller can go on with the next optional field.
\<close>

theorem ber_readers_exact:
  "reads ber_read_length dec_ber_length \<and>
   reads (ber_read_universal_tag tag pc) (tag_p (univ_tag tag pc)) \<and>
   reads (ber_read_application_tag tag) (dec_appl_tag tag) \<and>
   reads (ber_read_contextual_tag tag pc) (dec_ber_tagged (ctxt_tag tag pc)) \<and>
   reads ber_read_sequence_tag (dec_ber_tagged 0x30) \<and>
   reads (ber_read_enumerated count) (dec_ber_enumerated count) \<and>
   reads ber_read_bit_string dec_bit_string \<and>
   reads ber_read_octet_string_tag (dec_ber_tagged 0x04) \<and>
   reads (ber_read_octet_string malloc) (dec_octet_string malloc) \<and>
   reads (ber_read_unicode_octet_string malloc) (dec_unicode_string malloc) \<and>
   reads ber_read_BOOL dec_ber_bool \<and>
   reads (ber_read_integer True) (map_p Some dec_ber_integer) \<and>
   reads (ber_read_integer False) (map_p (\<lambda>_. None) skip_ber_integer) \<and>
   reads ber_read_integer_length (dec_ber_tagged 0x02) \<and>
   (readable s \<longrightarrow> tag_p (ctxt_tag tag pc) (remaining s) = None \<longrightarrow>
     ber_read_contextual_tag tag pc s = Failure s)"
  using reads_seq_tag [unfolded seq_tag_value]
  by (simp add: reads_ber_length reads_univ_tag reads_appl_tag reads_ctxt_tag reads_enumerated
      reads_bit_string reads_octet_string_tag reads_octet_string reads_unicode_octet_string reads_BOOL
      reads_ber_integer reads_skip_integer reads_integer_length ber_read_contextual_tag_absent)

theorem ber_readers_exact_witness:
  "ber_read_contextual_tag 1 True (Stream_StaticInit [0xA0, 3] (length [0xA0, 3 :: byte])) =
     Failure (Stream_StaticInit [0xA0, 3] (length [0xA0, 3 :: byte]))"
proof -
  have "readable (Stream_StaticInit [0xA0, 3] (length [0xA0, 3 :: byte]))" by (rule readable_static) simp
  moreover have "tag_p (ctxt_tag 1 True) (remaining (Stream_StaticInit [0xA0, 3] (length [0xA0, 3 :: byte]))) = None"
    unfolding remaining_static by (simp add: ctxt_tag_def)
  ultimately show ?thesis using ber_readers_exact by blast
qed

text \<open>
  C31: the writers of ber.c, without the two that convert from UTF-8, append the encoding of their argument
  when the stream has room for it, and both the size they return and the size announced by the matching
  \<open>ber_sizeof\<close> function are the number of bytes written. Lengths are those of two bytes, below \<open>0x10000\<close>;
  the integers are those outside \<open>0x10000\<close> to \<open>0x7FFFFF\<close>, for which the writers abort. The writer of
  contextual integers asks for five bytes more than the integer takes.
\<close>

theorem ber_writers_exact:
  assumes "n < 65536" "length (enc_octet_string v) < 65536" "ber_int_ok i"
    "units = takeWhile (\<lambda>c. c \<noteq> 0) str" "length (enc_octet_string (concat (map le16 units))) < 65536"
  shows "writes (ber_write_length n) (ber_sizeof_length n) (enc_ber_length n) \<and>
    writes (ber_write_universal_tag tag pc) 1 [univ_tag tag pc] \<and>
    writes (ber_write_application_tag tag n) () (enc_appl_tag tag @ enc_ber_length n) \<and>
    writes (ber_write_contextual_tag tag n pc) (ber_sizeof_contextual_tag n)
      (ctxt_tag tag pc # enc_ber_length n) \<and>
    writes (ber_write_sequence_tag n) (ber_sizeof_sequence_tag n) (0x30 # enc_ber_length n) \<and>
    writes (ber_write_enumerated e count) () [10, 1, e] \<and>
    writes (ber_write_BOOL b) () [1, 1, if b then 0xFF else 0] \<and>
    writes (ber_write_octet_string v) (ber_sizeof_octet_string (length v)) (enc_octet_string v) \<and>
    writes (ber_write_contextual_octet_string tag v) (ber_sizeof_contextual_octet_string (length v))
      (enc_ctxt_octet_string tag v) \<and>
    writes (ber_write_contextual_unicode_octet_string tag str) (ber_sizeof_contextual_octet_string (2 * length units))
      (enc_ctxt_octet_string tag (concat (map le16 units))) \<and>
    writes (ber_write_octet_string_tag n) (1 + ber_sizeof_length n) (0x04 # enc_ber_length n) \<and>
    writes (ber_write_integer i) (ber_sizeof_integer i) (enc_ber_integer i) \<and>
    (\<forall>s. wf_stream s \<and> ber_sizeof_integer i + 5 \<le> room s \<longrightarrow>
       ber_write_contextual_integer malloc tag i s = Success (ber_sizeof_contextual_integer i)
         (put (ctxt_tag tag True # enc_ber_length (ber_sizeof_integer i) @ enc_ber_integer i) s)) \<and>
    length (enc_ber_length n) = ber_sizeof_length n \<and>
    length (enc_octet_string v) = ber_sizeof_octet_string (length v) \<and>
    length (enc_ctxt_octet_string tag v) = ber_sizeof_contextual_octet_string (length v) \<and>
    length (enc_ber_integer i) = ber_sizeof_integer i"
proof -
  have v: "length v < 65536" using assms(2) by (simp add: enc_octet_string_def)
  have u: "length (concat (map le16 units)) = 2 * length units"
    by (simp add: length_concat comp_def sum_list_triv)
  note sizes = sizeof_ctxt_octet_string [OF assms(2), of tag] sizeof_ctxt_octet_string [OF assms(5), of tag, unfolded u]
  show ?thesis
  proof (intro conjI allI impI)
    show "writes (ber_write_universal_tag tag pc) 1 [univ_tag tag pc]"
      unfolding ber_write_universal_tag_def univ_tag_bits by (rule writes_u8_then, rule writes_return)
    show "writes (ber_write_sequence_tag n) (ber_sizeof_sequence_tag n) (0x30 # enc_ber_length n)"
      using writes_seq_tag [OF assms(1)] unfolding seq_tag_value by (simp add: ber_sizeof_sequence_tag_def)
    show "writes (ber_write_contextual_unicode_octet_string tag str)
        (ber_sizeof_contextual_octet_string (2 * length units)) (enc_ctxt_octet_string tag (concat (map le16 units)))"
      using writes_ctxt_unicode [of str tag] assms(4,5) sizes by simp
  qed (use writes_ber_length [OF assms(1)] writes_appl_tag [OF assms(1), of tag]
      writes_ctxt_tag [OF assms(1), of tag pc] writes_octet_string [OF v]
      writes_ctxt_octet_string [OF assms(2), of tag] writes_ber_integer [OF assms(3)]
      writes_enumerated [of e count] writes_BOOL [of b] writes_octet_string_tag [OF assms(1)] sizes
      ber_write_contextual_integer_ok [OF _ _ assms(3)] in
      \<open>simp_all add: ber_sizeof_contextual_tag_def sizeof_octet_string [OF v] length_enc_ber_integer\<close>)
qed

theorem ber_writers_exact_witness:
  "writes (ber_write_octet_string [7, 8]) 4 [4, 2, 7, 8] \<and> writes (ber_write_integer 100) 3 [2, 1, 100] \<and>
   ber_write_contextual_integer calloc 1 100 (blank 8) =
     Success 5 (put [0xA1, 3, 2, 1, 100] (blank 8))"
  using ber_writers_exact [of 5 "[7, 8]" 100 "[]" "[]"]
  by (simp add: enc_octet_string_def ber_int_ok_def ber_sizeof_octet_string_def ber_sizeof_length_def
      ber_sizeof_integer_def enc_ber_integer_def enc_ber_length_def word_be_2 ber_sizeof_contextual_integer_def
      ber_sizeof_contextual_tag_def ctxt_tag_def wf_blank room_blank)

text \<open>
  C32: BER integers (except those between \<open>0x10000\<close> and \<open>0x7FFFFF\<close>), octet strings and contextual octet
  strings are read back as they were written, and the reader consumes exactly the bytes written.
\<close>

theorem ber_round_trip:
  assumes "wf_stream s" "length (enc_ctxt_octet_string tag v) \<le> room s" "6 \<le> room s"
    "length (enc_octet_string v) < 65536" "malloc (length v) \<noteq> None" "ber_int_ok i"
  shows "(\<exists>t u w. ber_write_integer i s = Success (ber_sizeof_integer i) t \<and>
      turn_around (s_pointer s) t = Success () u \<and> ber_read_integer True u = Success (Some i) w \<and>
      remaining w = []) \<and>
    (\<exists>t u w. ber_write_octet_string v s = Success (length (enc_octet_string v)) t \<and>
      turn_around (s_pointer s) t = Success () u \<and> ber_read_octet_string malloc u = Success v w \<and>
      remaining w = []) \<and>
    (\<exists>t u w. ber_write_contextual_octet_string tag v s = Success (length (enc_ctxt_octet_string tag v)) t \<and>
      turn_around (s_pointer s) t = Success () u \<and>
      bind_c (ber_read_contextual_tag tag True) (\<lambda>_. ber_read_octet_string malloc) u = Success v w \<and>
      remaining w = [])"
proof (intro conjI)
  have "length (enc_ber_integer i) \<le> room s"
    using assms(3) by (simp add: length_enc_ber_integer ber_sizeof_integer_def)
  then show "\<exists>t u w. ber_write_integer i s = Success (ber_sizeof_integer i) t \<and>
      turn_around (s_pointer s) t = Success () u \<and> ber_read_integer True u = Success (Some i) w \<and>
      remaining w = []"
    using ber_integer.write_read [of "Some i" s] assms by simp
  have "length v < 65536" "length (enc_octet_string v) \<le> room s"
    using assms(2,4) by (simp_all add: enc_octet_string_def enc_ctxt_octet_string_def)
  then show "\<exists>t u w. ber_write_octet_string v s = Success (length (enc_octet_string v)) t \<and>
      turn_around (s_pointer s) t = Success () u \<and> ber_read_octet_string malloc u = Success v w \<and>
      remaining w = []"
    using ber_octet_string.write_read [of v malloc s] assms by simp
  show "\<exists>t u w. ber_write_contextual_octet_string tag v s = Success (length (enc_ctxt_octet_string tag v)) t \<and>
      turn_around (s_pointer s) t = Success () u \<and>
      bind_c (ber_read_contextual_tag tag True) (\<lambda>_. ber_read_octet_string malloc) u = Success v w \<and>
      remaining w = []"
    using ber_contextual_octet_string.write_read [of v malloc s tag] assms by simp
qed

theorem ber_round_trip_witness:
  "\<exists>t u w. ber_write_integer 300 (Stream_StaticInit (replicate 16 0) 16) = Success 4 t \<and>
     turn_around 0 t = Success () u \<and> ber_read_integer True u = Success (Some 300) w \<and> remaining w = []"
proof -
  let ?s = "Stream_StaticInit (replicate 16 0) 16"
  have "wf_stream ?s" by (rule wf_blank) simp_all
  from ber_round_trip [OF this, of 1 "[7, 8]" calloc 300] show ?thesis
    by (simp add: room_blank enc_ctxt_octet_string_def enc_octet_string_def ber_sizeof_length_def
        ber_int_ok_def ber_sizeof_integer_def) (simp add: Stream_StaticInit_def)
qed

text \<open>
  C33: an integer from \<open>0x10000\<close> to \<open>0x7FFFFF\<close>, for which the reader has a three-byte case, cannot be
  written: the low half is taken by a checked cast of the whole value, which aborts.
\<close>

theorem ber_write_integer_aborts:
  assumes "wf_stream s" "5 \<le> room s" "0x10000 \<le> unat v" "unat v < 0x800000"
  shows "ber_write_integer v s = Fault AssertionFailure"
proof -
  have "\<not> v < 0x80" "\<not> v < 0x8000" "v < 0x800000" using assms by (simp_all add: word_less_nat_alt)
  moreover have "(ucast (ucast (drop_bit 16 v) :: byte) :: 32 word) = drop_bit 16 v"
    using assms(4) by (intro ucast_ucast_id) (simp add: unat_drop_bit)
  moreover have "(ucast (ucast v :: 16 word) :: 32 word) \<noteq> v"
  proof
    assume "(ucast (ucast v :: 16 word) :: 32 word) = v"
    from arg_cong [OF this, of unat] show False using assms(3) by (simp add: unat_ucast)
  qed
  moreover have "ber_write_length 3 t = Success 1 (put [3] t)" if "wf_stream t" "1 \<le> room t" for t
    using writesD [OF writes_ber_length, of 3 t] that by (simp add: ber_sizeof_length_def enc_small)
  ultimately show ?thesis using assms(1,2)
    by (simp add: ber_write_integer_def ber_write_universal_tag_def asserting_int_cast_def c_simps stream_exec)
qed

theorem ber_write_integer_aborts_witness:
  "ber_write_integer 0x10000 (Stream_StaticInit (replicate 16 0) 16) = Fault AssertionFailure"
  by (rule ber_write_integer_aborts) (simp_all add: wf_blank room_blank)

end
