(* ===== verification/Mcs.thy ===== *)
theory Mcs
  imports GccConference Ber Tpkt
begin

text \<open>
  The T.125 Multipoint Communication Service of \<open>libfreerdp/core/mcs.c\<close>: the domain parameters and their
  negotiation, the Connect Initial and Connect Response PDUs around the GCC conference PDUs, and the domain
  PDUs (erect domain, attach user, channel join, disconnect).
\<close>

section \<open>Constants\<close>

definition MCS_TYPE_CONNECT_INITIAL :: byte where "MCS_TYPE_CONNECT_INITIAL = 0x65"
definition MCS_TYPE_CONNECT_RESPONSE :: byte where "MCS_TYPE_CONNECT_RESPONSE = 0x66"
definition DomainMCSPDU_ErectDomainRequest :: byte where "DomainMCSPDU_ErectDomainRequest = 1"
definition DomainMCSPDU_DisconnectProviderUltimatum :: byte where "DomainMCSPDU_DisconnectProviderUltimatum = 8"
definition DomainMCSPDU_AttachUserRequest :: byte where "DomainMCSPDU_AttachUserRequest = 10"
definition DomainMCSPDU_AttachUserConfirm :: byte where "DomainMCSPDU_AttachUserConfirm = 11"
definition DomainMCSPDU_ChannelJoinRequest :: byte where "DomainMCSPDU_ChannelJoinRequest = 14"
definition DomainMCSPDU_ChannelJoinConfirm :: byte where "DomainMCSPDU_ChannelJoinConfirm = 15"
definition callingDomainSelector :: "byte list" where "callingDomainSelector = [1]"
definition calledDomainSelector :: "byte list" where "calledDomainSelector = [1]"

lemmas pdu_types = MCS_TYPE_CONNECT_INITIAL_def MCS_TYPE_CONNECT_RESPONSE_def DomainMCSPDU_ErectDomainRequest_def
  DomainMCSPDU_DisconnectProviderUltimatum_def DomainMCSPDU_AttachUserRequest_def DomainMCSPDU_AttachUserConfirm_def
  DomainMCSPDU_ChannelJoinRequest_def DomainMCSPDU_ChannelJoinConfirm_def

text \<open>The environment of the module: that of gcc.c, \<open>transport_write\<close>, and the error of the context.\<close>

record 'w mcs_ops =
  mo_env :: gcc_env
  mo_transport_write :: "wStream \<Rightarrow> 'w \<Rightarrow> bool \<times> 'w"
  mo_set_last_error_if_not :: "'w \<Rightarrow> 'w"

abbreviation mo_malloc :: "'w mcs_ops \<Rightarrow> malloc" where
  "mo_malloc ops \<equiv> ge_malloc (mo_env ops)"

section \<open>Channels\<close>

primrec mcs_copy_channels :: "CHANNEL_DEF list \<Rightarrow> nat \<Rightarrow> nat \<Rightarrow> ('w rdpMcs, unit) cfun" where
  "mcs_copy_channels defs 0 i = return_c ()"
| "mcs_copy_channels defs (Suc n) i =
     bind_c (assert_c (i < length defs)) (\<lambda>_.
     bind_c (\<lambda>m. if i < length (mc_channels m)
       then Success () (m\<lparr>mc_channels := (mc_channels m)[i := (mc_channels m ! i)\<lparr>
         ch_Name := overwrite (ch_Name (mc_channels m ! i)) 0 (take CHANNEL_NAME_LEN (cd_name (defs ! i))),
         ch_options := cd_options (defs ! i)\<rparr>]\<rparr>)
       else Fault OutOfBoundsAccess) (\<lambda>_.
     mcs_copy_channels defs n (Suc i)))"

definition zero_channel :: rdpMcsChannel where
  "zero_channel = \<lparr>ch_Name = replicate (CHANNEL_NAME_LEN + 1) 0, ch_options = 0, ch_ChannelId = 0, ch_joined = False\<rparr>"

definition mcs_initialize_client_channels :: "rdpSettings \<Rightarrow> ('w rdpMcs, unit) cfun" where
  "mcs_initialize_client_channels st m =
     (let count = min (st_ChannelCount st) (mc_channelMaxCount m) in
      mcs_copy_channels (st_ChannelDefArray st) (unat count) 0
        (m\<lparr>mc_channelCount := count, mc_channels := replicate (unat (mc_channelMaxCount m)) zero_channel\<rparr>))"

primrec mcs_apply_channels :: "'w rdpMcs \<Rightarrow> nat \<Rightarrow> nat \<Rightarrow> (rdpSettings, unit) cfun" where
  "mcs_apply_channels m 0 x = return_c ()"
| "mcs_apply_channels m (Suc n) x =
     bind_c (channel m x) (\<lambda>c.
     bind_c (\<lambda>st. if x < length (st_ChannelDefArray st)
       then Success () (st\<lparr>st_ChannelDefArray := (st_ChannelDefArray st)[x := \<lparr>cd_name = ch_Name c, cd_options = ch_options c\<rparr>]\<rparr>)
       else Failure st) (\<lambda>_.
     mcs_apply_channels m n (Suc x)))"

definition mcs_server_apply_to_settings :: "'w rdpMcs \<Rightarrow> (rdpSettings, unit) cfun" where
  "mcs_server_apply_to_settings m st =
     mcs_apply_channels m (unat (mc_channelCount m)) 0 (st\<lparr>st_ChannelCount := mc_channelCount m\<rparr>)"

definition set_c :: "('s \<Rightarrow> 's) \<Rightarrow> ('s, unit) cfun" where
  "set_c g s = Success () (g s)"

section \<open>Headers of the domain PDUs\<close>

definition mcs_read_domain_mcspdu_header :: "byte \<Rightarrow> (wStream, 16 word) cfun" where
  "mcs_read_domain_mcspdu_header pdu =
     bind_c (assert_c (pdu \<noteq> 0)) (\<lambda>_.
     bind_c tpkt_read_header (\<lambda>len.
     bind_c (tpdu_read_data len) (\<lambda>_.
     bind_c per_read_choice (\<lambda>choice.
     if pdu \<noteq> drop_bit 2 choice then fail_c else return_c len))))"

definition mcs_write_domain_mcspdu_header :: "malloc \<Rightarrow> byte \<Rightarrow> 16 word \<Rightarrow> byte \<Rightarrow> (wStream, unit) cfun" where
  "mcs_write_domain_mcspdu_header malloc pdu len options =
     bind_c (assert_c (options AND NOT 3 = 0)) (\<lambda>_.
     bind_c (assert_c (pdu AND NOT 0x3F = 0)) (\<lambda>_.
     bind_c (tpkt_write_header (unat len)) (\<lambda>_.
     bind_c tpdu_write_data (\<lambda>_.
     per_write_choice malloc (push_bit 2 pdu OR options)))))"

section \<open>Domain parameters\<close>

definition mcs_init_domain_parameters :: "32 word \<Rightarrow> 32 word \<Rightarrow> 32 word \<Rightarrow> 32 word \<Rightarrow> DomainParameters" where
  "mcs_init_domain_parameters channelIds userIds tokenIds pduSize =
     \<lparr>maxChannelIds = channelIds, maxUserIds = userIds, maxTokenIds = tokenIds, numPriorities = 1,
      minThroughput = 0, maxHeight = 1, maxMCSPDUsize = pduSize, protocolVersion = 2\<rparr>"

text \<open>
  The fields are stored one by one as they are read; \<open>upd\<close> is the update of the structure that the function
  was given.
\<close>

definition mcs_read_domain_parameters ::
    "((DomainParameters \<Rightarrow> DomainParameters) \<Rightarrow> 'w rdpMcs \<Rightarrow> 'w rdpMcs) \<Rightarrow> ('w, unit) mcs_fun" where
  "mcs_read_domain_parameters upd =
     bind_c (on_stream ber_read_sequence_tag) (\<lambda>_.
     bind_c (on_stream (ber_read_integer True)) (\<lambda>v. bind_c (change_state (upd (\<lambda>d. d\<lparr>maxChannelIds := the v\<rparr>))) (\<lambda>_.
     bind_c (on_stream (ber_read_integer True)) (\<lambda>v. bind_c (change_state (upd (\<lambda>d. d\<lparr>maxUserIds := the v\<rparr>))) (\<lambda>_.
     bind_c (on_stream (ber_read_integer True)) (\<lambda>v. bind_c (change_state (upd (\<lambda>d. d\<lparr>maxTokenIds := the v\<rparr>))) (\<lambda>_.
     bind_c (on_stream (ber_read_integer True)) (\<lambda>v. bind_c (change_state (upd (\<lambda>d. d\<lparr>numPriorities := the v\<rparr>))) (\<lambda>_.
     bind_c (on_stream (ber_read_integer True)) (\<lambda>v. bind_c (change_state (upd (\<lambda>d. d\<lparr>minThroughput := the v\<rparr>))) (\<lambda>_.
     bind_c (on_stream (ber_read_integer True)) (\<lambda>v. bind_c (change_state (upd (\<lambda>d. d\<lparr>maxHeight := the v\<rparr>))) (\<lambda>_.
     bind_c (on_stream (ber_read_integer True)) (\<lambda>v. bind_c (change_state (upd (\<lambda>d. d\<lparr>maxMCSPDUsize := the v\<rparr>))) (\<lambda>_.
     bind_c (on_stream (ber_read_integer True)) (\<lambda>v. change_state (upd (\<lambda>d. d\<lparr>protocolVersion := the v\<rparr>))))))))))))))))))"

text \<open>A writer whose number of bytes is ignored.\<close>

definition void :: "('s, 'a) cfun \<Rightarrow> ('s, unit) cfun" where
  "void f = bind_c f (\<lambda>_. return_c ())"

definition mcs_write_domain_parameters :: "malloc \<Rightarrow> DomainParameters \<Rightarrow> (wStream, unit) cfun" where
  "mcs_write_domain_parameters malloc d =
     in_temp malloc
       (bind_c (void (ber_write_integer (maxChannelIds d))) (\<lambda>_.
        bind_c (void (ber_write_integer (maxUserIds d))) (\<lambda>_.
        bind_c (void (ber_write_integer (maxTokenIds d))) (\<lambda>_.
        bind_c (void (ber_write_integer (numPriorities d))) (\<lambda>_.
        bind_c (void (ber_write_integer (minThroughput d))) (\<lambda>_.
        bind_c (void (ber_write_integer (maxHeight d))) (\<lambda>_.
        bind_c (void (ber_write_integer (maxMCSPDUsize d))) (\<lambda>_.
        void (ber_write_integer (protocolVersion d))))))))))
       (\<lambda>tmps. bind_c (void (ber_write_sequence_tag (length tmps))) (\<lambda>_. Stream_Write tmps))"

definition mcs_merge_domain_parameters ::
    "DomainParameters \<Rightarrow> DomainParameters \<Rightarrow> DomainParameters \<Rightarrow> (DomainParameters, unit) cfun" where
  "mcs_merge_domain_parameters target minimum maximum =
     bind_c (if maxChannelIds target \<ge> 4 then set_c (\<lambda>d. d\<lparr>maxChannelIds := maxChannelIds target\<rparr>)
             else if maxChannelIds maximum \<ge> 4 then set_c (\<lambda>d. d\<lparr>maxChannelIds := 4\<rparr>)
             else fail_c) (\<lambda>_.
     bind_c (if maxUserIds target \<ge> 3 then set_c (\<lambda>d. d\<lparr>maxUserIds := maxUserIds target\<rparr>)
             else if maxUserIds maximum \<ge> 3 then set_c (\<lambda>d. d\<lparr>maxUserIds := 3\<rparr>)
             else fail_c) (\<lambda>_.
     bind_c (set_c (\<lambda>d. d\<lparr>maxTokenIds := maxTokenIds target\<rparr>)) (\<lambda>_.
     bind_c (if numPriorities minimum \<le> 1 then set_c (\<lambda>d. d\<lparr>numPriorities := 1\<rparr>) else fail_c) (\<lambda>_.
     bind_c (set_c (\<lambda>d. d\<lparr>minThroughput := minThroughput target\<rparr>)) (\<lambda>_.
     bind_c (if maxHeight target = 1 \<or> maxHeight minimum \<le> 1 then set_c (\<lambda>d. d\<lparr>maxHeight := 1\<rparr>) else fail_c) (\<lambda>_.
     bind_c (if maxMCSPDUsize target \<ge> 1024 then
               if maxMCSPDUsize target \<le> 65528 then set_c (\<lambda>d. d\<lparr>maxMCSPDUsize := maxMCSPDUsize target\<rparr>)
               else if maxMCSPDUsize minimum \<ge> 124 \<and> maxMCSPDUsize minimum \<le> 65528
               then set_c (\<lambda>d. d\<lparr>maxMCSPDUsize := 65528\<rparr>) else fail_c
             else if maxMCSPDUsize maximum \<ge> 124 then set_c (\<lambda>d. d\<lparr>maxMCSPDUsize := maxMCSPDUsize maximum\<rparr>)
             else fail_c) (\<lambda>_.
     if protocolVersion target = 2 \<or> (protocolVersion minimum \<le> 2 \<and> protocolVersion maximum \<ge> 2)
     then set_c (\<lambda>d. d\<lparr>protocolVersion := 2\<rparr>) else fail_c)))))))"

section \<open>Connect Initial and Connect Response\<close>

text \<open>A function that runs on one of the structures of the module.\<close>

definition on_domain :: "(DomainParameters, unit) cfun \<Rightarrow> ('w, unit) mcs_fun" where
  "on_domain f = (\<lambda>(s, m). case f (mc_domainParameters m) of
     Fault e \<Rightarrow> Fault e
   | Failure d \<Rightarrow> Failure (s, m\<lparr>mc_domainParameters := d\<rparr>)
   | Success v d \<Rightarrow> Success v (s, m\<lparr>mc_domainParameters := d\<rparr>))"

definition mcs_recv_connect_initial :: "gcc_env \<Rightarrow> ('w, unit) mcs_fun" where
  "mcs_recv_connect_initial env =
     bind_c (on_stream tpkt_read_header) (\<lambda>tlength.
     bind_c (on_stream (tpdu_read_data tlength)) (\<lambda>_.
     bind_c (on_stream (ber_read_application_tag MCS_TYPE_CONNECT_INITIAL)) (\<lambda>_.
     bind_c (on_stream ber_read_octet_string_tag) (\<lambda>len.
     bind_c (on_stream (Stream_CheckAndLogRequiredLength len)) (\<lambda>_.
     bind_c (on_stream (Stream_Seek len)) (\<lambda>_.
     bind_c (on_stream ber_read_octet_string_tag) (\<lambda>len.
     bind_c (on_stream (Stream_CheckAndLogRequiredLength len)) (\<lambda>_.
     bind_c (on_stream (Stream_Seek len)) (\<lambda>_.
     bind_c (on_stream ber_read_BOOL) (\<lambda>_.
     bind_c (mcs_read_domain_parameters mc_targetParameters_update) (\<lambda>_.
     bind_c (mcs_read_domain_parameters mc_minimumParameters_update) (\<lambda>_.
     bind_c (mcs_read_domain_parameters mc_maximumParameters_update) (\<lambda>_.
     bind_c (on_stream ber_read_octet_string_tag) (\<lambda>len.
     bind_c (on_stream (Stream_CheckAndLogRequiredLength len)) (\<lambda>_.
     bind_c (gcc_read_conference_create_request env) (\<lambda>_.
     bind_c get_state (\<lambda>m.
     bind_c (on_domain (mcs_merge_domain_parameters (mc_targetParameters m) (mc_minimumParameters m)
       (mc_maximumParameters m))) (\<lambda>_.
     on_stream (tpkt_ensure_stream_consumed (unat tlength))))))))))))))))))))"

definition mcs_write_connect_initial :: "malloc \<Rightarrow> 'w rdpMcs \<Rightarrow> byte list \<Rightarrow> (wStream, unit) cfun" where
  "mcs_write_connect_initial malloc m userData =
     in_temp malloc
       (bind_c (void (ber_write_octet_string callingDomainSelector)) (\<lambda>_.
        bind_c (void (ber_write_octet_string calledDomainSelector)) (\<lambda>_.
        bind_c (ber_write_BOOL True) (\<lambda>_.
        bind_c (mcs_write_domain_parameters malloc (mc_targetParameters m)) (\<lambda>_.
        bind_c (mcs_write_domain_parameters malloc (mc_minimumParameters m)) (\<lambda>_.
        bind_c (mcs_write_domain_parameters malloc (mc_maximumParameters m)) (\<lambda>_.
        void (ber_write_octet_string userData))))))))
       (\<lambda>tmps. bind_c (ber_write_application_tag MCS_TYPE_CONNECT_INITIAL (length tmps)) (\<lambda>_. Stream_Write tmps))"

definition mcs_write_connect_response :: "malloc \<Rightarrow> 'w rdpMcs \<Rightarrow> byte list \<Rightarrow> (wStream, unit) cfun" where
  "mcs_write_connect_response malloc m userData =
     in_temp malloc
       (bind_c (ber_write_enumerated 0 MCS_Result_enum_length) (\<lambda>_.
        bind_c (void (ber_write_integer 0)) (\<lambda>_.
        bind_c (mcs_write_domain_parameters malloc (mc_domainParameters m)) (\<lambda>_.
        void (ber_write_octet_string userData)))))
       (\<lambda>tmps. bind_c (ber_write_application_tag MCS_TYPE_CONNECT_RESPONSE (length tmps)) (\<lambda>_. Stream_Write tmps))"

text \<open>A stream of the given size that a function fills; it is freed on every path.\<close>

definition fresh :: "malloc \<Rightarrow> nat \<Rightarrow> (wStream, unit) cfun \<Rightarrow> ('m, wStream) cfun" where
  "fresh malloc sz f m =
     (case Stream_New malloc None sz of
        None \<Rightarrow> Failure m
      | Some s \<Rightarrow> (case f s of Fault e \<Rightarrow> Fault e | Failure _ \<Rightarrow> Failure m | Success _ t \<Rightarrow> Success t m))"

definition mcs_transport_write :: "'w mcs_ops \<Rightarrow> wStream \<Rightarrow> ('w rdpMcs, unit) cfun" where
  "mcs_transport_write ops s m =
     (case mo_transport_write ops s (mc_transport m) of
        (ok, w) \<Rightarrow> if ok then Success () (m\<lparr>mc_transport := w\<rparr>) else Failure (m\<lparr>mc_transport := w\<rparr>))"

text \<open>A body after seven bytes for the TPKT and TPDU headers, which are written last.\<close>

definition framed :: "(wStream, unit) cfun \<Rightarrow> (wStream, unit) cfun" where
  "framed body =
     bind_c get_position (\<lambda>bm.
     bind_c (Stream_Seek 7) (\<lambda>_.
     bind_c body (\<lambda>_.
     bind_c get_position (\<lambda>em.
     if em - bm > 0xFFFF then fail_c
     else
       bind_c (ignoring (Stream_SetPosition bm)) (\<lambda>_.
       bind_c (tpkt_write_header (em - bm)) (\<lambda>_.
       bind_c tpdu_write_data (\<lambda>_.
       bind_c (ignoring (Stream_SetPosition em)) (\<lambda>_.
       Stream_SealLength))))))))"

definition mcs_send_connect_initial :: "'w mcs_ops \<Rightarrow> ('w rdpMcs, unit) cfun" where
  "mcs_send_connect_initial ops =
     bind_c (ignoring (\<lambda>m. mcs_initialize_client_channels (mc_settings m) m)) (\<lambda>_.
     bind_c (\<lambda>m. fresh (mo_malloc ops) 512 (gcc_write_client_data_blocks (mo_env ops) m) m) (\<lambda>client_data.
     bind_c (fresh (mo_malloc ops) 1024 (gcc_write_conference_create_request (mo_malloc ops) (written client_data))) (\<lambda>gcc_CCrq.
     bind_c (\<lambda>m. fresh (mo_malloc ops) (1024 + (length (written gcc_CCrq) + 7))
       (framed (mcs_write_connect_initial (mo_malloc ops) m (written gcc_CCrq))) m) (\<lambda>s.
     mcs_transport_write ops s))))"

definition mcs_recv_connect_response :: "gcc_env \<Rightarrow> ('w, unit) mcs_fun" where
  "mcs_recv_connect_response env =
     bind_c (on_stream tpkt_read_header) (\<lambda>tlength.
     bind_c (on_stream (tpdu_read_data tlength)) (\<lambda>_.
     bind_c (on_stream (ber_read_application_tag MCS_TYPE_CONNECT_RESPONSE)) (\<lambda>_.
     bind_c (on_stream (ber_read_enumerated MCS_Result_enum_length)) (\<lambda>_.
     bind_c (on_stream (ber_read_integer True)) (\<lambda>_.
     bind_c (mcs_read_domain_parameters mc_domainParameters_update) (\<lambda>_.
     bind_c (on_stream ber_read_octet_string_tag) (\<lambda>_.
     bind_c (gcc_read_conference_create_response env) (\<lambda>_.
     on_stream (tpkt_ensure_stream_consumed (unat tlength))))))))))"

text \<open>\<open>gcc_write_server_data_blocks\<close> changes the settings while it writes.\<close>

definition mcs_server_data :: "'w mcs_ops \<Rightarrow> ('w rdpMcs, wStream) cfun" where
  "mcs_server_data ops m =
     (case Stream_New (mo_malloc ops) None 512 of
        None \<Rightarrow> Failure m
      | Some s \<Rightarrow>
          (case gcc_write_server_data_blocks (mo_env ops) (s, m) of
             Fault e \<Rightarrow> Fault e | Failure (_, m') \<Rightarrow> Failure m' | Success _ (t, m') \<Rightarrow> Success t m'))"

definition mcs_send_connect_response :: "'w mcs_ops \<Rightarrow> ('w rdpMcs, unit) cfun" where
  "mcs_send_connect_response ops =
     bind_c (mcs_server_data ops) (\<lambda>server_data.
     bind_c (fresh (mo_malloc ops) (512 + Stream_Capacity server_data)
       (gcc_write_conference_create_response (mo_malloc ops) (written server_data))) (\<lambda>gcc_CCrsp.
     bind_c (\<lambda>m. fresh (mo_malloc ops) (length (written gcc_CCrsp) + 7 + 1024)
       (framed (mcs_write_connect_response (mo_malloc ops) m (written gcc_CCrsp))) m) (\<lambda>s.
     mcs_transport_write ops s)))"

section \<open>Domain PDUs\<close>

definition mcs_recv_erect_domain_request :: "(wStream, unit) cfun" where
  "mcs_recv_erect_domain_request =
     bind_c (mcs_read_domain_mcspdu_header DomainMCSPDU_ErectDomainRequest) (\<lambda>len.
     bind_c per_read_integer (\<lambda>_.
     bind_c per_read_integer (\<lambda>_.
     tpkt_ensure_stream_consumed (unat len))))"

definition mcs_send_erect_domain_request :: "'w mcs_ops \<Rightarrow> ('w rdpMcs, unit) cfun" where
  "mcs_send_erect_domain_request ops = (let malloc = mo_malloc ops in
     bind_c (fresh malloc 12
       (bind_c (ignoring (mcs_write_domain_mcspdu_header malloc DomainMCSPDU_ErectDomainRequest 12 0)) (\<lambda>_.
        bind_c (ignoring (per_write_integer malloc 0)) (\<lambda>_.
        bind_c (ignoring (per_write_integer malloc 0)) (\<lambda>_. Stream_SealLength)))))
     (mcs_transport_write ops))"

definition mcs_recv_attach_user_request :: "(wStream, unit) cfun" where
  "mcs_recv_attach_user_request =
     bind_c (mcs_read_domain_mcspdu_header DomainMCSPDU_AttachUserRequest) (\<lambda>len.
     tpkt_ensure_stream_consumed (unat len))"

definition mcs_send_attach_user_request :: "'w mcs_ops \<Rightarrow> ('w rdpMcs, unit) cfun" where
  "mcs_send_attach_user_request ops =
     bind_c (fresh (mo_malloc ops) 8
       (bind_c (ignoring (mcs_write_domain_mcspdu_header (mo_malloc ops) DomainMCSPDU_AttachUserRequest 8 0)) (\<lambda>_.
        Stream_SealLength)))
     (mcs_transport_write ops)"

definition mcs_recv_attach_user_confirm :: "('w, unit) mcs_fun" where
  "mcs_recv_attach_user_confirm =
     bind_c (on_stream (mcs_read_domain_mcspdu_header DomainMCSPDU_AttachUserConfirm)) (\<lambda>len.
     bind_c (on_stream (per_read_enumerated MCS_Result_enum_length)) (\<lambda>_.
     bind_c (on_stream (per_read_integer16 MCS_BASE_CHANNEL_ID)) (\<lambda>v.
     bind_c (change_state (\<lambda>m. m\<lparr>mc_userId := v\<rparr>)) (\<lambda>_.
     on_stream (tpkt_ensure_stream_consumed (unat len))))))"

definition mcs_send_attach_user_confirm :: "'w mcs_ops \<Rightarrow> ('w rdpMcs, unit) cfun" where
  "mcs_send_attach_user_confirm ops m =
     (case Stream_New (mo_malloc ops) None 11 of
        None \<Rightarrow> Failure m
      | Some s \<Rightarrow>
          let m = m\<lparr>mc_userId := mc_baseChannelId m, mc_baseChannelId := mc_baseChannelId m + 1\<rparr>; malloc = mo_malloc ops in
          case (bind_c (ignoring (mcs_write_domain_mcspdu_header malloc DomainMCSPDU_AttachUserConfirm 11 2)) (\<lambda>_.
                bind_c (ignoring (per_write_enumerated malloc 0 MCS_Result_enum_length)) (\<lambda>_.
                bind_c (ignoring (per_write_integer16 malloc (mc_userId m) MCS_BASE_CHANNEL_ID)) (\<lambda>_.
                Stream_SealLength)))) s of
            Fault e \<Rightarrow> Fault e
          | Failure _ \<Rightarrow> Failure m
          | Success _ t \<Rightarrow> mcs_transport_write ops t m)"

definition mcs_recv_channel_join_request :: "rdpSettings \<Rightarrow> ('w, 16 word) mcs_fun" where
  "mcs_recv_channel_join_request st =
     bind_c (on_stream (mcs_read_domain_mcspdu_header DomainMCSPDU_ChannelJoinRequest)) (\<lambda>len.
     bind_c (on_stream (per_read_integer16 MCS_BASE_CHANNEL_ID)) (\<lambda>userId.
     bind_c get_state (\<lambda>m.
     bind_c (if userId \<noteq> mc_userId m then
               if cs_TransportDumpReplay (st_core st) then change_state (\<lambda>m. m\<lparr>mc_userId := userId\<rparr>) else fail_c
             else return_c ()) (\<lambda>_.
     bind_c (on_stream (per_read_integer16 0)) (\<lambda>channelId.
     bind_c (on_stream (tpkt_ensure_stream_consumed (unat len))) (\<lambda>_. return_c channelId))))))"

definition mcs_send_channel_join_request :: "'w mcs_ops \<Rightarrow> 16 word \<Rightarrow> ('w rdpMcs, unit) cfun" where
  "mcs_send_channel_join_request ops channelId = (let malloc = mo_malloc ops in
     bind_c (\<lambda>m. fresh malloc 12
       (bind_c (ignoring (mcs_write_domain_mcspdu_header malloc DomainMCSPDU_ChannelJoinRequest 12 0)) (\<lambda>_.
        bind_c (ignoring (per_write_integer16 malloc (mc_userId m) MCS_BASE_CHANNEL_ID)) (\<lambda>_.
        bind_c (ignoring (per_write_integer16 malloc channelId 0)) (\<lambda>_. Stream_SealLength)))) m)
     (mcs_transport_write ops))"

definition mcs_recv_channel_join_confirm :: "(wStream, 16 word) cfun" where
  "mcs_recv_channel_join_confirm =
     bind_c (mcs_read_domain_mcspdu_header DomainMCSPDU_ChannelJoinConfirm) (\<lambda>len.
     bind_c (per_read_enumerated MCS_Result_enum_length) (\<lambda>_.
     bind_c (per_read_integer16 MCS_BASE_CHANNEL_ID) (\<lambda>_.
     bind_c (per_read_integer16 0) (\<lambda>_.
     bind_c (per_read_integer16 0) (\<lambda>channelId.
     bind_c (tpkt_ensure_stream_consumed (unat len)) (\<lambda>_. return_c channelId))))))"

definition mcs_send_channel_join_confirm :: "'w mcs_ops \<Rightarrow> 16 word \<Rightarrow> ('w rdpMcs, unit) cfun" where
  "mcs_send_channel_join_confirm ops channelId = (let malloc = mo_malloc ops in
     bind_c (\<lambda>m. fresh malloc 15
       (bind_c (mcs_write_domain_mcspdu_header malloc DomainMCSPDU_ChannelJoinConfirm 15 2) (\<lambda>_.
        bind_c (per_write_enumerated malloc 0 MCS_Result_enum_length) (\<lambda>_.
        bind_c (per_write_integer16 malloc (mc_userId m) MCS_BASE_CHANNEL_ID) (\<lambda>_.
        bind_c (per_write_integer16 malloc channelId 0) (\<lambda>_.
        bind_c (per_write_integer16 malloc channelId 0) (\<lambda>_. Stream_SealLength)))))) m)
     (mcs_transport_write ops))"

definition mcs_recv_disconnect_provider_ultimatum :: "(wStream, nat) cfun" where
  "mcs_recv_disconnect_provider_ultimatum =
     bind_c (Stream_CheckAndLogRequiredLength 1) (\<lambda>_.
     bind_c (Stream_Rewind 1) (\<lambda>_.
     bind_c Stream_Read_UINT8 (\<lambda>b1.
     bind_c Stream_Read_UINT8 (\<lambda>b2.
     return_c (unat (push_bit 1 (b1 AND 1) OR drop_bit 7 b2))))))"

definition mcs_send_disconnect_provider_ultimatum :: "'w mcs_ops \<Rightarrow> nat \<Rightarrow> ('w rdpMcs, unit) cfun" where
  "mcs_send_disconnect_provider_ultimatum ops reason = (let malloc = mo_malloc ops in
     bind_c (fresh malloc 9
       (bind_c (mcs_write_domain_mcspdu_header malloc DomainMCSPDU_DisconnectProviderUltimatum 9 1) (\<lambda>_.
        bind_c (assert_c (reason \<le> 0xFF)) (\<lambda>_.
        per_write_enumerated malloc 0x80 (word_of_nat reason)))))
     (mcs_transport_write ops))"

definition mcs_client_begin :: "'w mcs_ops \<Rightarrow> ('w rdpMcs, unit) cfun" where
  "mcs_client_begin ops m =
     (case mcs_send_connect_initial ops m of
        Failure m' \<Rightarrow> Failure (m'\<lparr>mc_transport := mo_set_last_error_if_not ops (mc_transport m')\<rparr>)
      | r \<Rightarrow> r)"

text \<open>The sizes of the two structures depend on the compiler and are arguments of the model.\<close>

definition mcs_new :: "malloc \<Rightarrow> nat \<Rightarrow> nat \<Rightarrow> 'w \<Rightarrow> rdpSettings \<Rightarrow> 'w rdpMcs option" where
  "mcs_new malloc sizeof_rdpMcs sizeof_rdpMcsChannel transport st =
     (if malloc sizeof_rdpMcs = None \<or> malloc (CHANNEL_MAX_COUNT * sizeof_rdpMcsChannel) = None then None
      else Some \<lparr>
          mc_transport = transport, mc_settings = st, mc_userId = 0, mc_baseChannelId = MCS_GLOBAL_CHANNEL_ID + 1,
          mc_IOChannelId = 0, mc_messageChannelId = 0, mc_flags = 0,
          mc_domainParameters = mcs_init_domain_parameters 0 0 0 0xFFFF,
          mc_targetParameters = mcs_init_domain_parameters 34 2 0 0xFFFF,
          mc_minimumParameters = mcs_init_domain_parameters 1 1 1 0x420,
          mc_maximumParameters = mcs_init_domain_parameters 0xFFFF 0xFC17 0xFFFF 0xFFFF,
          mc_userChannelJoined = False, mc_globalChannelJoined = False, mc_messageChannelJoined = False,
          mc_channelCount = 0, mc_channelMaxCount = word_of_nat CHANNEL_MAX_COUNT,
          mc_channels = replicate CHANNEL_MAX_COUNT zero_channel\<rparr>)"

end
