(* ===== verification/Containers.thy ===== *)
theory Containers
  imports Codec
begin

text \<open>
  What the collections of \<open>winpr/libwinpr/utils/collections\<close> share: the callbacks of \<open>wObject\<close>, the
  interfaces a collection offers its clients (first-in first-out, last-in first-out), and the
  arithmetic of a circular array and of its growth. A \<open>void*\<close> is an option, NULL is \<open>None\<close>.
\<close>

section \<open>Objects\<close>

record 'a wObject =
  fnObjectNew :: "('a option \<Rightarrow> 'a option) option"
  fnObjectFree :: bool
  fnObjectEquals :: "'a option \<Rightarrow> 'a option \<Rightarrow> bool"

text \<open>The object as a collection stores it, and that \<open>fnObjectNew\<close> does not fail on it.\<close>

definition stored :: "'a wObject \<Rightarrow> 'a option \<Rightarrow> 'a option" where
  "stored ob obj = (case fnObjectNew ob of None \<Rightarrow> obj | Some new \<Rightarrow> new obj)"

definition copies :: "'a wObject \<Rightarrow> 'a option \<Rightarrow> bool" where
  "copies ob obj \<longleftrightarrow> (obj \<noteq> None \<longrightarrow> stored ob obj \<noteq> None)"

text \<open>\<open>sizeof(void*)\<close>, and whether \<open>realloc\<close> can provide a number of bytes.\<close>

abbreviation PTR_SIZE :: nat where
  "PTR_SIZE \<equiv> 8"

type_synonym realloc = "nat \<Rightarrow> bool"

text \<open>The block \<open>realloc\<close> returns: the old entries as far as they fit, then fresh ones.\<close>

definition realloc_block :: "'a list \<Rightarrow> nat \<Rightarrow> 'a \<Rightarrow> 'a list" where
  "realloc_block arr n fresh = take n arr @ replicate (n - length arr) fresh"

lemma length_realloc_block [simp]: "length (realloc_block arr n fresh) = n"
  by (simp add: realloc_block_def)

lemma realloc_block_zeroed:
  "length arr \<le> n \<Longrightarrow> overwrite (realloc_block arr n fresh) (length arr) (replicate (n - length arr) z) =
     arr @ replicate (n - length arr) z"
  by (simp add: realloc_block_def overwrite_def)

section \<open>The interface of a queue\<close>

datatype 'a fifo_op = Enq 'a | Deq

fun fifo_run :: "('a \<Rightarrow> 's \<Rightarrow> 's option) \<Rightarrow> ('s \<Rightarrow> ('a \<times> 's) option) \<Rightarrow> 'a fifo_op list \<Rightarrow> 's \<Rightarrow>
  ('a list \<times> 's) option" where
  "fifo_run enq deq [] s = Some ([], s)"
| "fifo_run enq deq (Enq x # ops) s =
     (case enq x s of None \<Rightarrow> None | Some t \<Rightarrow> fifo_run enq deq ops t)"
| "fifo_run enq deq (Deq # ops) s =
     (case deq s of None \<Rightarrow> None
      | Some (x, t) \<Rightarrow>
          (case fifo_run enq deq ops t of None \<Rightarrow> None | Some (xs, u) \<Rightarrow> Some (x # xs, u)))"

fun enqueued :: "'a fifo_op list \<Rightarrow> 'a list" where
  "enqueued [] = []"
| "enqueued (Enq x # ops) = x # enqueued ops"
| "enqueued (Deq # ops) = enqueued ops"

fun deqs :: "'a fifo_op list \<Rightarrow> nat" where
  "deqs [] = 0"
| "deqs (Enq x # ops) = deqs ops"
| "deqs (Deq # ops) = Suc (deqs ops)"

locale fifo =
  fixes contents :: "'s \<Rightarrow> 'a list" and inv :: "'s \<Rightarrow> bool"
    and enq :: "'a \<Rightarrow> 's \<Rightarrow> 's option" and deq :: "'s \<Rightarrow> ('a \<times> 's) option"
  assumes enq_Some: "inv s \<Longrightarrow> enq x s = Some t \<Longrightarrow> inv t \<and> contents t = contents s @ [x]"
    and deq_None: "inv s \<Longrightarrow> deq s = None \<longleftrightarrow> contents s = []"
    and deq_Some: "inv s \<Longrightarrow> deq s = Some (x, t) \<Longrightarrow> inv t \<and> contents s = x # contents t"
begin

text \<open>
  Conservation and order: what was in the queue and what was put in is what was taken out, in the
  same order, followed by what is still there.
\<close>

lemma fifo_order:
  "fifo_run enq deq ops s = Some (outs, t) \<Longrightarrow> inv s \<Longrightarrow>
     inv t \<and> length outs = deqs ops \<and> contents s @ enqueued ops = outs @ contents t"
proof (induction ops arbitrary: s outs rule: enqueued.induct)
  case (2 x ops)
  then obtain u where "enq x s = Some u" "fifo_run enq deq ops u = Some (outs, t)"
    by (auto split: option.splits)
  moreover from this 2 enq_Some [of s x u] have "inv u" "contents u = contents s @ [x]" by auto
  ultimately show ?case using "2.IH" [of u outs] by simp
next
  case (3 ops)
  then obtain x u xs where "deq s = Some (x, u)" "fifo_run enq deq ops u = Some (xs, t)" "outs = x # xs"
    by (auto split: option.splits)
  with 3 deq_Some [of s x u] show ?case by auto
qed simp

end

section \<open>The interface of a sequence\<close>

datatype 'a seq_op = Add 'a | InsertAt nat 'a | DeleteAt nat

fun seq_step :: "('a \<Rightarrow> 's \<Rightarrow> 's option) \<Rightarrow> (nat \<Rightarrow> 'a \<Rightarrow> 's \<Rightarrow> 's option) \<Rightarrow> (nat \<Rightarrow> 's \<Rightarrow> 's option) \<Rightarrow>
  'a seq_op \<Rightarrow> 's \<Rightarrow> 's option" where
  "seq_step add ins del (Add x) s = add x s"
| "seq_step add ins del (InsertAt i x) s = ins i x s"
| "seq_step add ins del (DeleteAt i) s = del i s"

fun seq_run :: "('a \<Rightarrow> 's \<Rightarrow> 's option) \<Rightarrow> (nat \<Rightarrow> 'a \<Rightarrow> 's \<Rightarrow> 's option) \<Rightarrow> (nat \<Rightarrow> 's \<Rightarrow> 's option) \<Rightarrow>
  'a seq_op list \<Rightarrow> 's \<Rightarrow> 's option" where
  "seq_run add ins del [] s = Some s"
| "seq_run add ins del (op # ops) s =
     (case seq_step add ins del op s of None \<Rightarrow> None | Some t \<Rightarrow> seq_run add ins del ops t)"

text \<open>The operations on a list; an index past the end changes nothing.\<close>

fun seq_spec :: "'a seq_op \<Rightarrow> 'a list \<Rightarrow> 'a list" where
  "seq_spec (Add x) xs = xs @ [x]"
| "seq_spec (InsertAt i x) xs = (if i < length xs then take i xs @ x # drop i xs else xs)"
| "seq_spec (DeleteAt i) xs = take i xs @ drop (Suc i) xs"

locale sequence =
  fixes contents :: "'s \<Rightarrow> 'a list" and inv :: "'s \<Rightarrow> bool"
    and add :: "'a \<Rightarrow> 's \<Rightarrow> 's option" and ins :: "nat \<Rightarrow> 'a \<Rightarrow> 's \<Rightarrow> 's option"
    and del :: "nat \<Rightarrow> 's \<Rightarrow> 's option"
  assumes add_law: "inv s \<Longrightarrow> add x s = Some t \<Longrightarrow> inv t \<and> contents t = seq_spec (Add x) (contents s)"
    and ins_law: "inv s \<Longrightarrow> ins i x s = Some t \<Longrightarrow> inv t \<and> contents t = seq_spec (InsertAt i x) (contents s)"
    and del_law: "inv s \<Longrightarrow> del i s = Some t \<Longrightarrow> inv t \<and> contents t = seq_spec (DeleteAt i) (contents s)"
begin

lemma seq_step_refines:
  "seq_step add ins del op s = Some t \<Longrightarrow> inv s \<Longrightarrow> inv t \<and> contents t = seq_spec op (contents s)"
  using add_law [of s _ t] ins_law [of s _ _ t] del_law [of s _ t] by (cases op) auto

lemma seq_refines:
  "seq_run add ins del ops s = Some t \<Longrightarrow> inv s \<Longrightarrow> inv t \<and> contents t = fold seq_spec ops (contents s)"
proof (induction ops arbitrary: s)
  case (Cons op ops)
  then obtain u where u: "seq_step add ins del op s = Some u" "seq_run add ins del ops u = Some t"
    by (auto split: option.splits)
  from Cons.IH [OF u(2)] seq_step_refines [OF u(1) Cons.prems(2)] show ?case by simp
qed simp

end

section \<open>The interface of a byte pipe\<close>

datatype 'a pipe_op = Put "'a list" | Get nat

fun pipe_run :: "('a list \<Rightarrow> 's \<Rightarrow> 's option) \<Rightarrow> (nat \<Rightarrow> 's \<Rightarrow> ('a list \<times> 's) option) \<Rightarrow>
  'a pipe_op list \<Rightarrow> 's \<Rightarrow> ('a list \<times> 's) option" where
  "pipe_run wr rd [] s = Some ([], s)"
| "pipe_run wr rd (Put xs # ops) s =
     (case wr xs s of None \<Rightarrow> None | Some t \<Rightarrow> pipe_run wr rd ops t)"
| "pipe_run wr rd (Get n # ops) s =
     (case rd n s of None \<Rightarrow> None
      | Some (xs, t) \<Rightarrow>
          (case pipe_run wr rd ops t of None \<Rightarrow> None | Some (ys, u) \<Rightarrow> Some (xs @ ys, u)))"

fun put_in :: "'a pipe_op list \<Rightarrow> 'a list" where
  "put_in [] = []"
| "put_in (Put xs # ops) = xs @ put_in ops"
| "put_in (Get n # ops) = put_in ops"

locale pipe =
  fixes contents :: "'s \<Rightarrow> 'a list" and inv :: "'s \<Rightarrow> bool"
    and wr :: "'a list \<Rightarrow> 's \<Rightarrow> 's option" and rd :: "nat \<Rightarrow> 's \<Rightarrow> ('a list \<times> 's) option"
  assumes wr_Some: "inv s \<Longrightarrow> wr xs s = Some t \<Longrightarrow> inv t \<and> contents t = contents s @ xs"
    and rd_Some: "inv s \<Longrightarrow> rd n s = Some (xs, t) \<Longrightarrow>
      inv t \<and> xs = take n (contents s) \<and> contents t = drop n (contents s)"
begin

text \<open>The bytes come out as they went in: none lost, none repeated, none out of order.\<close>

lemma pipe_order:
  "pipe_run wr rd ops s = Some (outs, t) \<Longrightarrow> inv s \<Longrightarrow>
     inv t \<and> contents s @ put_in ops = outs @ contents t"
proof (induction ops arbitrary: s outs rule: put_in.induct)
  case (2 xs ops)
  then obtain u where "wr xs s = Some u" "pipe_run wr rd ops u = Some (outs, t)"
    by (auto split: option.splits)
  moreover from this 2 wr_Some [of s xs u] have "inv u" "contents u = contents s @ xs" by auto
  ultimately show ?case using "2.IH" [of u outs] by simp
next
  case (3 n ops)
  then obtain xs u ys where "rd n s = Some (xs, u)" "pipe_run wr rd ops u = Some (ys, t)" "outs = xs @ ys"
    by (auto split: option.splits)
  moreover from this 3 rd_Some [of s n xs u] have "inv u" "contents s = xs @ contents u" by auto
  ultimately show ?case using "3.IH" [of u ys] by simp
qed simp

end

section \<open>The interface of a stack\<close>

fun push_all :: "('a \<Rightarrow> 's \<Rightarrow> 's option) \<Rightarrow> 'a list \<Rightarrow> 's \<Rightarrow> 's option" where
  "push_all push [] s = Some s"
| "push_all push (x # xs) s = (case push x s of None \<Rightarrow> None | Some t \<Rightarrow> push_all push xs t)"

fun pop_many :: "('s \<Rightarrow> ('a \<times> 's) option) \<Rightarrow> nat \<Rightarrow> 's \<Rightarrow> ('a list \<times> 's) option" where
  "pop_many pop 0 s = Some ([], s)"
| "pop_many pop (Suc n) s =
     (case pop s of None \<Rightarrow> None
      | Some (x, t) \<Rightarrow> (case pop_many pop n t of None \<Rightarrow> None | Some (xs, u) \<Rightarrow> Some (x # xs, u)))"

locale lifo =
  fixes contents :: "'s \<Rightarrow> 'a list" and inv :: "'s \<Rightarrow> bool"
    and push :: "'a \<Rightarrow> 's \<Rightarrow> 's option" and pop :: "'s \<Rightarrow> ('a \<times> 's) option"
  assumes push_Some: "inv s \<Longrightarrow> push x s = Some t \<Longrightarrow> inv t \<and> contents t = x # contents s"
    and pop_None: "inv s \<Longrightarrow> pop s = None \<longleftrightarrow> contents s = []"
    and pop_Some: "inv s \<Longrightarrow> pop s = Some (x, t) \<Longrightarrow> inv t \<and> contents s = x # contents t"
begin

lemma push_all_contents:
  "push_all push xs s = Some t \<Longrightarrow> inv s \<Longrightarrow> inv t \<and> contents t = rev xs @ contents s"
proof (induction xs arbitrary: s)
  case (Cons x xs)
  then obtain u where "push x s = Some u" "push_all push xs u = Some t" by (auto split: option.splits)
  with Cons push_Some [of s x u] show ?case by auto
qed simp

lemma pop_many_contents:
  "inv s \<Longrightarrow> n \<le> length (contents s) \<Longrightarrow>
     \<exists>t. pop_many pop n s = Some (take n (contents s), t) \<and> inv t \<and> contents t = drop n (contents s)"
proof (induction n arbitrary: s)
  case (Suc n)
  then have "contents s \<noteq> []" by auto
  with Suc.prems pop_None have "pop s \<noteq> None" by simp
  then obtain x t where p: "pop s = Some (x, t)" by auto
  with Suc.prems pop_Some [of s x t] have t: "inv t" "contents s = x # contents t" by auto
  with Suc.IH [of t] Suc.prems p show ?case by auto
qed simp

text \<open>What was pushed comes back in reverse order.\<close>

lemma lifo_order:
  assumes "inv s" "push_all push xs s = Some t"
  shows "\<exists>u. pop_many pop (length xs) t = Some (rev xs, u) \<and> inv u \<and> contents u = contents s"
  using push_all_contents [OF assms(2,1)] pop_many_contents [of t "length xs"] by auto

end

section \<open>Circular arrays\<close>

definition ring_list :: "'a list \<Rightarrow> nat \<Rightarrow> nat \<Rightarrow> 'a list" where
  "ring_list arr head n = map (\<lambda>i. arr ! ((head + i) mod length arr)) [0..<n]"

lemma length_ring_list [simp]: "length (ring_list arr head n) = n"
  by (simp add: ring_list_def)

lemma ring_list_0 [simp]: "ring_list arr head 0 = []"
  by (simp add: ring_list_def)

lemma ring_list_eq_Nil [simp]: "ring_list arr head n = [] \<longleftrightarrow> n = 0"
  by (simp add: ring_list_def)

lemma take_ring_list: "take m (ring_list arr head n) = ring_list arr head (min m n)"
  by (cases "m \<le> n") (simp_all add: ring_list_def take_map take_upt)

lemma ring_index_inj:
  assumes "i < j" "j < cap"
  shows "(head + i) mod cap \<noteq> (head + j) mod (cap :: nat)"
proof
  assume "(head + i) mod cap = (head + j) mod cap"
  then have "cap dvd (head + j) - (head + i)"
    using mod_eq_dvd_iff_nat [of "head + i" "head + j" cap] assms(1) by simp
  with assms show False by (auto dest: dvd_imp_le)
qed

lemma ring_list_snoc:
  assumes "n < length arr"
  shows "ring_list (arr[(head + n) mod length arr := x]) head (Suc n) = ring_list arr head n @ [x]"
proof -
  have "(head + n) mod length arr < length arr" using assms by (intro mod_less_divisor) linarith
  moreover have "\<forall>i<n. (head + n) mod length arr \<noteq> (head + i) mod length arr"
    using ring_index_inj [OF _ assms, of _ head] by metis
  ultimately show ?thesis by (auto simp: ring_list_def nth_list_update)
qed

lemma ring_list_Cons:
  assumes "0 < n" "n \<le> length arr" "head < length arr"
  shows "ring_list arr head n = arr ! head # ring_list (arr[head := x]) ((head + 1) mod length arr) (n - 1)"
proof (rule nth_equalityI)
  fix i assume "i < length (ring_list arr head n)"
  then have i: "i < n" by simp
  show "ring_list arr head n ! i =
    (arr ! head # ring_list (arr[head := x]) ((head + 1) mod length arr) (n - 1)) ! i"
  proof (cases i)
    case (Suc j)
    with i have j: "j < n - 1" by simp
    have "(head + 0) mod length arr \<noteq> (head + i) mod length arr"
      using Suc i assms by (intro ring_index_inj) auto
    then have ne: "(head + i) mod length arr \<noteq> head" using assms by simp
    have e: "((head + 1) mod length arr + j) mod length arr = (head + i) mod length arr"
      using Suc by (simp add: mod_add_left_eq)
    have "(arr ! head # ring_list (arr[head := x]) ((head + 1) mod length arr) (n - 1)) ! i =
        arr[head := x] ! (((head + 1) mod length arr + j) mod length arr)"
      using Suc j by (simp add: ring_list_def)
    also have "\<dots> = arr ! ((head + i) mod length arr)"
      unfolding e using ne by (metis nth_list_update_neq)
    finally show ?thesis using Suc i j by (simp add: ring_list_def)
  qed (use i assms in \<open>simp add: ring_list_def\<close>)
qed (use assms in simp)

text \<open>
  Growth: the array gets longer, and when the entries wrapped around (\<open>tail \<le> head\<close>) those at the
  front are copied behind the old end.
\<close>

definition ring_grown :: "'a list \<Rightarrow> nat \<Rightarrow> nat \<Rightarrow> 'a list \<Rightarrow> 'a list" where
  "ring_grown arr head tail fresh =
     (if tail \<le> head then overwrite (arr @ fresh) (length arr) (take tail (arr @ fresh)) else arr @ fresh)"

lemma ring_grown_list:
  assumes "head < length arr" "0 < n" "n < length arr" "tail = (head + n) mod length arr"
    and "length arr \<le> length fresh"
  shows "ring_list (ring_grown arr head tail fresh) head n = ring_list arr head n"
    and "(if tail \<le> head then tail + length arr else tail) = head + n"
    and "length (ring_grown arr head tail fresh) = length arr + length fresh"
proof -
  have tail_lt: "tail < length arr" unfolding assms(4) using assms(1) by (intro mod_less_divisor) linarith
  have wrapped: "tail + length arr = head + n" if "tail \<le> head"
    using that assms by (cases "head + n < length arr") (auto simp: le_mod_geq)
  have straight: "tail = head + n" if "\<not> tail \<le> head"
    using that assms by (cases "head + n < length arr") (auto simp: le_mod_geq)
  show "(if tail \<le> head then tail + length arr else tail) = head + n"
    using wrapped straight by simp
  show len: "length (ring_grown arr head tail fresh) = length arr + length fresh"
    using tail_lt assms(5) by (simp add: ring_grown_def length_overwrite)
  show "ring_list (ring_grown arr head tail fresh) head n = ring_list arr head n"
  proof (rule nth_equalityI)
    fix i assume "i < length (ring_list (ring_grown arr head tail fresh) head n)"
    then have i: "i < n" by simp
    then have lt: "head + i < length arr + length fresh" using assms by simp
    have "ring_grown arr head tail fresh ! (head + i) = arr ! ((head + i) mod length arr)"
    proof (cases "head + i < length arr")
      case True
      then show ?thesis using tail_lt assms(5) by (auto simp: ring_grown_def overwrite_def nth_append)
    next
      case False
      then have w: "tail \<le> head" using straight i tail_lt by (cases "tail \<le> head") auto
      have m: "(head + i) mod length arr = head + i - length arr"
        using False i assms by (simp add: le_mod_geq)
      have "head + i - length arr < tail" using wrapped [OF w] i False by simp
      with False w m tail_lt show ?thesis
        by (simp add: ring_grown_def overwrite_def nth_append)
    qed
    then show "ring_list (ring_grown arr head tail fresh) head n ! i = ring_list arr head n ! i"
      using i lt by (simp add: ring_list_def len)
  qed simp
qed

text \<open>The entries of a circular array in one or two pieces, and a block written into it.\<close>

lemma ring_list_pieces:
  assumes "head < length arr" "n \<le> length arr"
  shows "ring_list arr head n =
    (if head + n \<le> length arr then take n (drop head arr)
     else drop head arr @ take (head + n - length arr) arr)"
proof (rule nth_equalityI)
  show "length (ring_list arr head n) = length (if head + n \<le> length arr then take n (drop head arr)
     else drop head arr @ take (head + n - length arr) arr)"
    using assms by simp
  fix i assume "i < length (ring_list arr head n)"
  then have i: "i < n" by simp
  show "ring_list arr head n ! i = (if head + n \<le> length arr then take n (drop head arr)
     else drop head arr @ take (head + n - length arr) arr) ! i"
  proof (cases "head + i < length arr")
    case True
    then have "i < length arr - head" by linarith
    with True i assms show ?thesis by (simp add: ring_list_def nth_append)
  next
    case False
    with i assms have "(head + i) mod length arr = head + i - length arr" by (simp add: le_mod_geq)
    moreover have "i - (length arr - head) = head + i - length arr" using False assms by simp
    moreover have "\<not> i < length arr - head" using False by linarith
    ultimately show ?thesis using False i assms by (simp add: ring_list_def nth_append)
  qed
qed

definition ring_put :: "'a list \<Rightarrow> nat \<Rightarrow> 'a list \<Rightarrow> 'a list" where
  "ring_put arr tail xs =
     (let k = min (length xs) (length arr - tail)
      in overwrite (overwrite arr tail (take k xs)) 0 (drop k xs))"

lemma length_ring_put [simp]:
  "tail \<le> length arr \<Longrightarrow> length xs \<le> length arr \<Longrightarrow> length (ring_put arr tail xs) = length arr"
  by (auto simp: ring_put_def Let_def length_overwrite)

lemma nth_ring_put:
  assumes "tail < length arr" "length xs \<le> length arr" "p < length arr"
  shows "ring_put arr tail xs ! p =
    (if tail \<le> p \<and> p < tail + length xs then xs ! (p - tail)
     else if p + length arr < tail + length xs then xs ! (p + length arr - tail) else arr ! p)"
proof (cases "tail + length xs \<le> length arr")
  case True
  then have "ring_put arr tail xs = overwrite arr tail xs"
    by (simp add: ring_put_def Let_def overwrite_Nil)
  with True assms show ?thesis by (auto simp: overwrite_def nth_append)
next
  case False
  then have k: "min (length xs) (length arr - tail) = length arr - tail" by simp
  let ?k = "length arr - tail"
  have r: "ring_put arr tail xs = drop ?k xs @ drop (length xs - ?k) (take tail arr @ take ?k xs)"
    using False assms by (simp add: ring_put_def Let_def k overwrite_def)
  show ?thesis
  proof (cases "p < length xs - ?k")
    case True
    with False assms have "ring_put arr tail xs ! p = xs ! (?k + p)" by (simp add: r nth_append)
    moreover have "?k + p = p + length arr - tail" using assms(1) by simp
    ultimately show ?thesis using True False assms by auto
  next
    case 2: False
    with False assms have "ring_put arr tail xs ! p = (take tail arr @ take ?k xs) ! p"
      by (simp add: r nth_append) (auto simp: nth_append)
    with 2 False assms show ?thesis by (auto simp: nth_append)
  qed
qed

lemma ring_list_put:
  assumes head: "head < length arr" and fits: "n + length xs \<le> length arr"
    and tail: "tail = (head + n) mod length arr"
  shows "ring_list (ring_put arr tail xs) head (n + length xs) = ring_list arr head n @ xs"
proof (rule nth_equalityI)
  have t: "tail < length arr" unfolding tail using head by (intro mod_less_divisor) linarith
  have l: "length (ring_put arr tail xs) = length arr" using t fits by simp
  fix i assume "i < length (ring_list (ring_put arr tail xs) head (n + length xs))"
  then have i: "i < n + length xs" by simp
  define p where "p = (head + i) mod length arr"
  have p: "p < length arr" unfolding p_def using head by (intro mod_less_divisor) linarith
  have "ring_put arr tail xs ! p = (ring_list arr head n @ xs) ! i"
  proof (cases "i < n")
    case True
    have w: "tail + length arr = head + n" if "\<not> head + n < length arr"
      using that tail head fits True by (simp add: le_mod_geq)
    have "\<not> (tail \<le> p \<and> p < tail + length xs)" "\<not> p + length arr < tail + length xs"
      using True fits head tail w by (cases "head + n < length arr"; cases "head + i < length arr";
          auto simp: p_def le_mod_geq)+
    then have "ring_put arr tail xs ! p = arr ! p" using t fits p by (auto simp: nth_ring_put)
    then show ?thesis using True by (simp add: nth_append ring_list_def p_def)
  next
    case False
    then obtain j where j: "i = n + j" "j < length xs" using i by (metis add.commute le_Suc_ex not_less add_less_cancel_left)
    have "p = (tail + j) mod length arr" by (simp add: p_def tail j mod_add_left_eq add.assoc)
    then have "p = (if tail + j < length arr then tail + j else tail + j - length arr)"
      using t j fits by (simp add: le_mod_geq)
    then show ?thesis using j t fits p by (auto simp: nth_ring_put nth_append split: if_splits)
  qed
  then show "ring_list (ring_put arr tail xs) head (n + length xs) ! i = (ring_list arr head n @ xs) ! i"
    using i by (simp add: ring_list_def [of "ring_put arr tail xs"] l p_def)
qed simp

section \<open>The interface of a map\<close>

datatype ('k, 'v) map_op = MapPut 'k 'v | MapDel 'k

fun map_step :: "('k \<Rightarrow> 'v \<Rightarrow> 's \<Rightarrow> 's option) \<Rightarrow> ('k \<Rightarrow> 's \<Rightarrow> 's option) \<Rightarrow> ('k, 'v) map_op \<Rightarrow> 's \<Rightarrow> 's option" where
  "map_step upd del (MapPut k v) s = upd k v s"
| "map_step upd del (MapDel k) s = del k s"

fun map_run :: "('k \<Rightarrow> 'v \<Rightarrow> 's \<Rightarrow> 's option) \<Rightarrow> ('k \<Rightarrow> 's \<Rightarrow> 's option) \<Rightarrow> ('k, 'v) map_op list \<Rightarrow> 's \<Rightarrow> 's option" where
  "map_run upd del [] s = Some s"
| "map_run upd del (op # ops) s =
     (case map_step upd del op s of None \<Rightarrow> None | Some t \<Rightarrow> map_run upd del ops t)"

text \<open>The operations on a function; keys are compared by \<open>same\<close>.\<close>

fun map_spec :: "('k \<Rightarrow> 'k \<Rightarrow> bool) \<Rightarrow> ('k, 'v) map_op \<Rightarrow> ('k \<Rightarrow> 'v option) \<Rightarrow> 'k \<Rightarrow> 'v option" where
  "map_spec same (MapPut k v) m = (\<lambda>k'. if same k k' then Some v else m k')"
| "map_spec same (MapDel k) m = (\<lambda>k'. if same k k' then None else m k')"

locale keyed_map =
  fixes lookup :: "'s \<Rightarrow> 'k \<Rightarrow> 'v option" and inv :: "'s \<Rightarrow> bool" and same :: "'k \<Rightarrow> 'k \<Rightarrow> bool"
    and upd :: "'k \<Rightarrow> 'v \<Rightarrow> 's \<Rightarrow> 's option" and del :: "'k \<Rightarrow> 's \<Rightarrow> 's option"
  assumes upd_law: "inv s \<Longrightarrow> upd k v s = Some t \<Longrightarrow> inv t \<and> lookup t = map_spec same (MapPut k v) (lookup s)"
    and del_law: "inv s \<Longrightarrow> del k s = Some t \<Longrightarrow> inv t \<and> lookup t = map_spec same (MapDel k) (lookup s)"
begin

lemma map_step_refines:
  "map_step upd del op s = Some t \<Longrightarrow> inv s \<Longrightarrow> inv t \<and> lookup t = map_spec same op (lookup s)"
  using upd_law [of s _ _ t] del_law [of s _ t] by (cases op) auto

lemma map_refines:
  "map_run upd del ops s = Some t \<Longrightarrow> inv s \<Longrightarrow> inv t \<and> lookup t = fold (map_spec same) ops (lookup s)"
proof (induction ops arbitrary: s)
  case (Cons op ops)
  then obtain u where u: "map_step upd del op s = Some u" "map_run upd del ops u = Some t"
    by (auto split: option.splits)
  from Cons.IH [OF u(2)] map_step_refines [OF u(1) Cons.prems(2)] show ?case by simp
qed simp

end

end
