(* ===== verification/WQueue.thy ===== *)
theory WQueue
  imports Containers
begin

text \<open>
  The object queue of \<open>winpr/libwinpr/utils/collections/Queue.c\<close>: a circular array that grows when it
  is about to fill up. Locks are left out (the operations are the bodies of their critical sections);
  the event is the flag it signals. Objects passed to \<open>fnObjectFree\<close> are results.
\<close>

section \<open>The functions of Queue.c\<close>

record 'a wQueue =
  q_capacity :: nat
  q_growthFactor :: nat
  q_synchronized :: bool
  q_head :: nat
  q_tail :: nat
  q_size :: nat
  q_array :: "'a option list"
  q_event :: bool
  q_object :: "'a wObject"

definition Queue_Count :: "('a wQueue, nat) cfun" where
  "Queue_Count q = Success (q_size q) q"

fun queue_clear_loop :: "nat \<Rightarrow> nat \<Rightarrow> ('a wQueue, 'a option list) cfun" where
  "queue_clear_loop 0 index q = (if index = q_tail q then Success [] q else Fault NonTermination)"
| "queue_clear_loop (Suc fuel) index q =
     (if index = q_tail q then Success [] q
      else if length (q_array q) \<le> index then Fault OutOfBoundsAccess
      else
        let freed = (if fnObjectFree (q_object q) then [q_array q ! index] else []) in
        bind_c (queue_clear_loop fuel ((index + 1) mod q_capacity q)) (\<lambda>rest. return_c (freed @ rest))
          (q\<lparr>q_array := (q_array q)[index := None]\<rparr>))"

definition Queue_Clear :: "('a wQueue, 'a option list) cfun" where
  "Queue_Clear q =
     bind_c (queue_clear_loop (q_capacity q) (q_head q)) (\<lambda>freed q.
       Success freed (q\<lparr>q_size := 0, q_head := 0, q_tail := 0, q_event := False\<rparr>)) q"

definition Queue_Contains :: "'a option \<Rightarrow> ('a wQueue, bool) cfun" where
  "Queue_Contains obj q =
     (if length (q_array q) < q_tail q then Fault OutOfBoundsAccess
      else Success (list_ex (\<lambda>x. fnObjectEquals (q_object q) x obj) (take (q_tail q) (q_array q))) q)"

definition Queue_EnsureCapacity :: "realloc \<Rightarrow> nat \<Rightarrow> ('a wQueue, unit) cfun" where
  "Queue_EnsureCapacity realloc count q =
     (let needed = (q_size q + count) mod SIZE_MOD in
      if needed \<ge> q_capacity q then
        let old_capacity = q_capacity q;
            new_capacity = (q_capacity q * q_growthFactor q) mod SIZE_MOD;
            new_capacity = (if new_capacity < needed then needed else new_capacity);
            bytes = (PTR_SIZE * new_capacity) mod SIZE_MOD in
        if \<not> realloc bytes then Failure q
        else
          let block = realloc_block (q_array q) (bytes div PTR_SIZE) None in
          if new_capacity < old_capacity \<or> length block < new_capacity then Fault OutOfBoundsAccess
          else
            let arr = overwrite block old_capacity (replicate (new_capacity - old_capacity) None);
                q = q\<lparr>q_capacity := new_capacity, q_array := arr\<rparr> in
            if q_tail q \<le> q_head q then
              if length arr < old_capacity + q_tail q then Fault OutOfBoundsAccess
              else Success () (q\<lparr>q_array := overwrite arr old_capacity (take (q_tail q) arr),
                q_tail := (q_tail q + old_capacity) mod SIZE_MOD\<rparr>)
            else Success () q
      else Success () q)"

definition Queue_Enqueue :: "realloc \<Rightarrow> 'a option \<Rightarrow> ('a wQueue, bool) cfun" where
  "Queue_Enqueue realloc obj q =
     (case Queue_EnsureCapacity realloc 1 q of
        Fault e \<Rightarrow> Fault e
      | Failure q \<Rightarrow> Success True q
      | Success _ q \<Rightarrow>
          if length (q_array q) \<le> q_tail q then Fault OutOfBoundsAccess
          else
            let stored = (case fnObjectNew (q_object q) of Some new \<Rightarrow> new obj | None \<Rightarrow> obj);
                signalSet = (q_size q = 0) in
            Success True (q\<lparr>q_array := (q_array q)[q_tail q := stored],
              q_tail := ((q_tail q + 1) mod SIZE_MOD) mod q_capacity q,
              q_size := (q_size q + 1) mod SIZE_MOD,
              q_event := (if signalSet then True else q_event q)\<rparr>))"

definition Queue_Dequeue :: "('a wQueue, 'a option) cfun" where
  "Queue_Dequeue q =
     (if q_size q > 0 then
        if length (q_array q) \<le> q_head q then Fault OutOfBoundsAccess
        else
          let obj = q_array q ! q_head q;
              q = q\<lparr>q_array := (q_array q)[q_head q := None],
                q_head := ((q_head q + 1) mod SIZE_MOD) mod q_capacity q, q_size := q_size q - 1\<rparr> in
          Success obj (if q_size q < 1 then q\<lparr>q_event := False\<rparr> else q)
      else Success None (q\<lparr>q_event := False\<rparr>))"

definition Queue_Peek :: "('a wQueue, 'a option) cfun" where
  "Queue_Peek q =
     (if q_size q > 0 then
        if length (q_array q) \<le> q_head q then Fault OutOfBoundsAccess
        else Success (q_array q ! q_head q) q
      else Success None q)"

definition Queue_Discard :: "('a wQueue, 'a option list) cfun" where
  "Queue_Discard =
     bind_c Queue_Dequeue (\<lambda>obj q. Success (if fnObjectFree (q_object q) then [obj] else []) q)"

definition default_queue_equals :: "'a option \<Rightarrow> 'a option \<Rightarrow> bool" where
  "default_queue_equals obj1 obj2 \<longleftrightarrow> obj1 = obj2"

text \<open>\<open>event_ok\<close>: whether \<open>CreateEvent\<close> provides an event.\<close>

definition Queue_New :: "realloc \<Rightarrow> bool \<Rightarrow> bool \<Rightarrow> int \<Rightarrow> int \<Rightarrow> 'a wQueue option" where
  "Queue_New realloc event_ok synchronized capacity growthFactor =
     (let queue = \<lparr>q_capacity = 0, q_growthFactor = (if growthFactor > 0 then nat growthFactor else 2),
            q_synchronized = synchronized, q_head = 0, q_tail = 0, q_size = 0, q_array = [],
            q_event = False,
            q_object = \<lparr>fnObjectNew = None, fnObjectFree = False, fnObjectEquals = default_queue_equals\<rparr>\<rparr>;
          capacity = (if capacity \<le> 0 then 32 else nat capacity) in
      case Queue_EnsureCapacity realloc capacity queue of
        Success _ queue \<Rightarrow> if event_ok then Some queue else None
      | _ \<Rightarrow> None)"

section \<open>Invariant and contents\<close>

definition wf_queue :: "'a wQueue \<Rightarrow> bool" where
  "wf_queue q \<longleftrightarrow> 2 \<le> q_capacity q \<and> 2 \<le> q_growthFactor q \<and> length (q_array q) = q_capacity q \<and>
     q_head q < q_capacity q \<and> q_size q < q_capacity q \<and>
     q_tail q = (q_head q + q_size q) mod q_capacity q \<and>
     PTR_SIZE * q_capacity q < SIZE_MOD \<and> q_event q = (0 < q_size q)"

definition queue_contents :: "'a wQueue \<Rightarrow> 'a option list" where
  "queue_contents q = ring_list (q_array q) (q_head q) (q_size q)"

text \<open>The next growth stays within \<open>size_t\<close>.\<close>

definition queue_growable :: "'a wQueue \<Rightarrow> bool" where
  "queue_growable q \<longleftrightarrow> PTR_SIZE * (q_capacity q * q_growthFactor q) < SIZE_MOD"

lemma wf_queue_tail: "wf_queue q \<Longrightarrow> q_tail q < q_capacity q"
  by (auto simp: wf_queue_def)

lemma wf_queue_bounds:
  assumes "wf_queue q"
  shows "2 \<le> q_capacity q" "2 \<le> q_growthFactor q" "q_head q < q_capacity q" "q_size q < q_capacity q"
    "q_tail q < q_capacity q" "PTR_SIZE * q_capacity q < SIZE_MOD" "q_event q = (0 < q_size q)"
    "length (q_array q) = q_capacity q"
  using assms wf_queue_tail [OF assms] by (simp_all add: wf_queue_def)

lemma wf_queue_ring:
  assumes "wf_queue q"
  shows "q_head q < length (q_array q)" "q_size q < length (q_array q)"
    "q_tail q = (q_head q + q_size q) mod length (q_array q)"
  using assms by (simp_all add: wf_queue_def)

lemma Queue_EnsureCapacity_room:
  assumes "wf_queue q" "q_size q + 1 < q_capacity q"
  shows "Queue_EnsureCapacity realloc 1 q = Success () q"
  using assms by (simp add: Queue_EnsureCapacity_def wf_queue_def)

lemma Queue_EnsureCapacity_grows:
  assumes wf: "wf_queue q" and g: "queue_growable q" and full: "\<not> q_size q + 1 < q_capacity q"
    and mem: "realloc (PTR_SIZE * (q_capacity q * q_growthFactor q))"
  defines "new \<equiv> q_capacity q * q_growthFactor q"
  shows "Queue_EnsureCapacity realloc 1 q = Success () (q\<lparr>q_capacity := new,
    q_array := ring_grown (q_array q) (q_head q) (q_tail q) (replicate (new - q_capacity q) None),
    q_tail := q_head q + q_size q\<rparr>)"
proof -
  have cap: "q_size q + 1 = q_capacity q" "q_capacity q * 2 \<le> new"
    using wf full by (auto simp: wf_queue_def new_def)
  have new: "new mod SIZE_MOD = new" "(PTR_SIZE * new) mod SIZE_MOD = PTR_SIZE * new"
    "(q_size q + 1) mod SIZE_MOD = q_capacity q" "\<not> new < q_capacity q" "realloc (PTR_SIZE * new)"
    using g mem wf cap by (auto simp: queue_growable_def new_def wf_queue_def)
  have len: "length (q_array q) = q_capacity q" using wf by (simp add: wf_queue_def)
  have zeroed: "overwrite (realloc_block (q_array q) new None) (q_capacity q)
      (replicate (new - q_capacity q) None) = q_array q @ replicate (new - q_capacity q) None"
    using realloc_block_zeroed [of "q_array q" new None None] len new(4) by simp
  have "0 < q_size q" "length (q_array q) \<le> length (replicate (new - q_capacity q) (None :: 'a option))"
    using cap len wf_queue_bounds [OF wf] by simp_all
  note ring = ring_grown_list(2) [OF wf_queue_ring(1) [OF wf] this(1) wf_queue_ring(2,3) [OF wf] this(2),
      unfolded len]
  have "(q_tail q + q_capacity q) mod SIZE_MOD = q_tail q + q_capacity q"
    using wf_queue_bounds [OF wf] by (intro mod_less) linarith
  with ring new zeroed len cap wf_queue_tail [OF wf] show ?thesis
    by (auto simp: Queue_EnsureCapacity_def Let_def ring_grown_def simp flip: new_def)
qed

lemma Queue_EnsureCapacity_ok:
  assumes wf: "wf_queue q" and g: "queue_growable q"
    and mem: "q_size q + 1 < q_capacity q \<or> realloc (PTR_SIZE * (q_capacity q * q_growthFactor q))"
  shows "\<exists>t. Queue_EnsureCapacity realloc 1 q = Success () t \<and> wf_queue t \<and>
    q_size t + 1 < q_capacity t \<and> queue_contents t = queue_contents q \<and> q_object t = q_object q \<and>
    q_size t = q_size q"
proof (cases "q_size q + 1 < q_capacity q")
  case True
  then show ?thesis using Queue_EnsureCapacity_room [OF wf True] wf by blast
next
  case False
  define new where "new = q_capacity q * q_growthFactor q"
  let ?t = "q\<lparr>q_capacity := new,
    q_array := ring_grown (q_array q) (q_head q) (q_tail q) (replicate (new - q_capacity q) None),
    q_tail := q_head q + q_size q\<rparr>"
  have cap: "q_capacity q * 2 \<le> new" "0 < q_size q" "length (q_array q) = q_capacity q"
    using wf False by (auto simp: wf_queue_def new_def)
  have le: "length (q_array q) \<le> length (replicate (new - q_capacity q) (None :: 'a option))"
    using cap by simp
  note ring = ring_grown_list [OF wf_queue_ring(1) [OF wf] cap(2) wf_queue_ring(2,3) [OF wf] le]
  have "PTR_SIZE * new < SIZE_MOD" using g by (simp add: queue_growable_def new_def)
  with wf_queue_bounds [OF wf] cap ring(3) have "wf_queue ?t" by (simp add: wf_queue_def)
  moreover have "queue_contents ?t = queue_contents q"
    using ring(1) by (simp add: queue_contents_def)
  moreover have "Queue_EnsureCapacity realloc 1 q = Success () ?t"
    using Queue_EnsureCapacity_grows [OF wf g False, of realloc] mem False unfolding new_def by simp
  ultimately show ?thesis using wf cap by (auto simp: wf_queue_def)
qed

definition queue_stored :: "'a wQueue \<Rightarrow> 'a option \<Rightarrow> 'a option" where
  "queue_stored q obj = (case fnObjectNew (q_object q) of Some new \<Rightarrow> new obj | None \<Rightarrow> obj)"

lemma Queue_Enqueue_ok:
  assumes "wf_queue q" "queue_growable q"
    "q_size q + 1 < q_capacity q \<or> realloc (PTR_SIZE * (q_capacity q * q_growthFactor q))"
  shows "\<exists>t. Queue_Enqueue realloc obj q = Success True t \<and> wf_queue t \<and> q_object t = q_object q \<and>
    q_size t = q_size q + 1 \<and> queue_contents t = queue_contents q @ [queue_stored q obj]"
proof -
  obtain r where r: "Queue_EnsureCapacity realloc 1 q = Success () r" "wf_queue r"
    "q_size r + 1 < q_capacity r" "queue_contents r = queue_contents q" "q_object r = q_object q"
    "q_size r = q_size q"
    using Queue_EnsureCapacity_ok [where realloc = realloc, OF assms] by blast
  have w: "(q_tail r + 1) mod SIZE_MOD = q_tail r + 1" "(q_size r + 1) mod SIZE_MOD = q_size r + 1"
    using r(3) wf_queue_bounds [OF r(2)] by (auto intro!: mod_less)
  let ?t = "r\<lparr>q_array := (q_array r)[q_tail r := queue_stored q obj],
      q_tail := (q_tail r + 1) mod q_capacity r, q_size := q_size r + 1, q_event := True\<rparr>"
  have "Queue_Enqueue realloc obj q = Success True ?t"
    using r w wf_queue_bounds [OF r(2)]
    by (auto simp: Queue_Enqueue_def Let_def queue_stored_def)
  moreover have "wf_queue ?t" using r(2,3) by (auto simp: wf_queue_def mod_Suc_eq)
  moreover have "queue_contents ?t = queue_contents q @ [queue_stored q obj]"
    using ring_list_snoc [OF wf_queue_ring(2) [OF r(2)]] wf_queue_ring(3) [OF r(2)] r(4)
    by (simp add: queue_contents_def)
  ultimately show ?thesis using r by auto
qed

text \<open>When the array cannot grow, the object is dropped and TRUE is returned.\<close>

lemma Queue_Enqueue_no_memory:
  assumes "wf_queue q" "queue_growable q" "q_size q + 1 = q_capacity q"
    "\<not> realloc (PTR_SIZE * (q_capacity q * q_growthFactor q))"
  shows "Queue_Enqueue realloc obj q = Success True q"
proof -
  have "q_capacity q * 2 \<le> q_capacity q * q_growthFactor q" using assms(1) by (auto simp: wf_queue_def)
  with assms show ?thesis
    by (auto simp: Queue_Enqueue_def Queue_EnsureCapacity_def Let_def wf_queue_def queue_growable_def)
qed

lemma Queue_Dequeue_empty: "wf_queue q \<Longrightarrow> q_size q = 0 \<Longrightarrow> Queue_Dequeue q = Success None q"
  by (cases q) (simp add: Queue_Dequeue_def wf_queue_def)

lemma Queue_Dequeue_ok:
  assumes "wf_queue q" "0 < q_size q"
  shows "\<exists>t. Queue_Dequeue q = Success (hd (queue_contents q)) t \<and> wf_queue t \<and>
    q_object t = q_object q \<and> q_size t = q_size q - 1 \<and> queue_contents t = tl (queue_contents q)"
proof -
  have w: "(q_head q + 1) mod SIZE_MOD = q_head q + 1" using assms by (simp add: wf_queue_def)
  obtain n where n: "q_size q = Suc n" using assms(2) by (cases "q_size q") auto
  let ?t = "q\<lparr>q_array := (q_array q)[q_head q := None],
      q_head := (q_head q + 1) mod q_capacity q, q_size := n, q_event := (0 < n)\<rparr>"
  have "queue_contents q = q_array q ! q_head q # queue_contents ?t"
    using ring_list_Cons [OF assms(2) _ wf_queue_ring(1) [OF assms(1)], of None] assms n
    by (simp add: queue_contents_def wf_queue_def)
  moreover have "Queue_Dequeue q = Success (q_array q ! q_head q) ?t"
    using assms w n by (cases q) (auto simp: Queue_Dequeue_def Let_def wf_queue_def)
  moreover have "wf_queue ?t"
    using assms n by (auto simp: wf_queue_def mod_add_left_eq)
  ultimately show ?thesis using n by auto
qed

lemma Queue_Peek_ok:
  "wf_queue q \<Longrightarrow> Queue_Peek q = Success (if queue_contents q = [] then None else hd (queue_contents q)) q"
  using wf_queue_bounds [of q]
  by (auto simp: Queue_Peek_def queue_contents_def ring_list_def upt_rec [of 0])

lemma queue_clear_loop_ok:
  "n \<le> fuel \<Longrightarrow> n < length (q_array q) \<Longrightarrow> index < length (q_array q) \<Longrightarrow>
     length (q_array q) = q_capacity q \<Longrightarrow> q_tail q = (index + n) mod q_capacity q \<Longrightarrow>
     \<exists>arr. length arr = q_capacity q \<and> queue_clear_loop fuel index q =
       Success (if fnObjectFree (q_object q) then ring_list (q_array q) index n else [])
         (q\<lparr>q_array := arr\<rparr>)"
proof (induction fuel arbitrary: n index q)
  case 0
  then show ?case by (auto intro!: exI [of _ "q_array q"])
next
  case (Suc fuel)
  show ?case
  proof (cases n)
    case 0
    with Suc.prems show ?thesis by (auto intro!: exI [of _ "q_array q"])
  next
    case (Suc k)
    have "(index + 0) mod q_capacity q \<noteq> (index + n) mod q_capacity q"
      using Suc Suc.prems by (intro ring_index_inj) auto
    then have ne: "index \<noteq> q_tail q" using Suc.prems by simp
    let ?q = "q\<lparr>q_array := (q_array q)[index := None]\<rparr>" and ?i = "(index + 1) mod q_capacity q"
    have pos: "0 < q_capacity q" using Suc.prems by linarith
    have "q_tail ?q = (?i + k) mod q_capacity ?q"
      using Suc Suc.prems by (simp add: mod_add_left_eq)
    then obtain arr where "length arr = q_capacity q" "queue_clear_loop fuel ?i ?q =
        Success (if fnObjectFree (q_object q) then ring_list (q_array ?q) ?i k else []) (?q\<lparr>q_array := arr\<rparr>)"
      using Suc.IH [of k ?q ?i] Suc Suc.prems pos by auto
    moreover have "ring_list (q_array q) index n = q_array q ! index # ring_list (q_array ?q) ?i k"
      using ring_list_Cons [of n "q_array q" index None] Suc Suc.prems by simp
    ultimately show ?thesis
      using ne Suc.prems by (auto simp: bind_c_def return_c_def Let_def not_le)
  qed
qed

lemma Queue_Clear_ok:
  assumes "wf_queue q"
  shows "\<exists>t. Queue_Clear q = Success (if fnObjectFree (q_object q) then queue_contents q else []) t \<and>
    wf_queue t \<and> queue_contents t = [] \<and> q_object t = q_object q"
proof -
  note b = wf_queue_bounds [OF assms]
  obtain arr where "length arr = q_capacity q" "queue_clear_loop (q_capacity q) (q_head q) q =
      Success (if fnObjectFree (q_object q) then ring_list (q_array q) (q_head q) (q_size q) else [])
        (q\<lparr>q_array := arr\<rparr>)"
    using queue_clear_loop_ok [of "q_size q" "q_capacity q" q "q_head q"] b wf_queue_ring(3) [OF assms]
    by auto
  with b show ?thesis by (auto simp: Queue_Clear_def bind_c_def wf_queue_def queue_contents_def)
qed

lemma Queue_New_ok:
  assumes "c = (if capacity \<le> 0 then 32 else nat capacity)" "2 \<le> c" "PTR_SIZE * c < SIZE_MOD"
    "growthFactor \<noteq> 1" "realloc (PTR_SIZE * c)"
  shows "\<exists>q. Queue_New realloc True synchronized capacity growthFactor = Some q \<and> wf_queue q \<and>
    queue_contents q = [] \<and> q_capacity q = c \<and> fnObjectNew (q_object q) = None"
  using assms(2-) unfolding assms(1) [symmetric] Queue_New_def
  by (simp add: Queue_EnsureCapacity_def Let_def flip: assms(1))
    (auto simp: wf_queue_def queue_contents_def realloc_block_def overwrite_def)

section \<open>The queue as a queue\<close>

text \<open>
  The two operations as a client sees them: an object is accepted when the size went up, and taken
  when there was one. \<open>queue_growable\<close> keeps the growth within \<open>size_t\<close>.
\<close>

definition queue_accept :: "realloc \<Rightarrow> 'a option \<Rightarrow> 'a wQueue \<Rightarrow> 'a wQueue option" where
  "queue_accept realloc obj q =
     (if queue_growable q then
        case Queue_Enqueue realloc obj q of
          Success _ t \<Rightarrow> if q_size t = q_size q + 1 then Some t else None
        | _ \<Rightarrow> None
      else None)"

definition queue_take :: "'a wQueue \<Rightarrow> ('a option \<times> 'a wQueue) option" where
  "queue_take q =
     (if q_size q = 0 then None
      else case Queue_Dequeue q of Success obj t \<Rightarrow> Some (obj, t) | _ \<Rightarrow> None)"

definition plain_queue :: "'a wQueue \<Rightarrow> bool" where
  "plain_queue q \<longleftrightarrow> wf_queue q \<and> fnObjectNew (q_object q) = None"

interpretation wqueue: fifo queue_contents plain_queue "queue_accept realloc" queue_take for realloc
proof unfold_locales
  fix s t :: "'a wQueue" and x
  assume s: "plain_queue s"
  then have wf: "wf_queue s" by (simp add: plain_queue_def)
  show "queue_take s = None \<longleftrightarrow> queue_contents s = []"
    using Queue_Dequeue_ok [OF wf] by (cases "q_size s = 0") (auto simp: queue_take_def queue_contents_def)
  show "plain_queue t \<and> queue_contents s = x # queue_contents t" if "queue_take s = Some (x, t)"
  proof -
    from that have size: "0 < q_size s" by (auto simp: queue_take_def split: if_splits)
    then have "queue_contents s \<noteq> []" by (simp add: queue_contents_def)
    with Queue_Dequeue_ok [OF wf size] that s size show ?thesis
      by (auto simp: queue_take_def plain_queue_def)
  qed
  show "plain_queue t \<and> queue_contents t = queue_contents s @ [x]" if "queue_accept realloc x s = Some t"
  proof -
    from that have g: "queue_growable s" by (auto simp: queue_accept_def split: if_splits)
    show ?thesis
    proof (cases "q_size s + 1 < q_capacity s \<or> realloc (PTR_SIZE * (q_capacity s * q_growthFactor s))")
      case True
      with Queue_Enqueue_ok [OF wf g, of realloc x] that s g show ?thesis
        by (auto simp: queue_accept_def plain_queue_def queue_stored_def)
    next
      case False
      with Queue_Enqueue_no_memory [OF wf g, of realloc x] wf_queue_bounds(4) [OF wf] that g show ?thesis
        by (auto simp: queue_accept_def)
    qed
  qed
qed

section \<open>Properties\<close>


text \<open>A queue of capacity four whose two entries wrap around the end of the array.\<close>

abbreviation wrapped_queue :: "nat wQueue" where
  "wrapped_queue \<equiv> \<lparr>q_capacity = 4, q_growthFactor = 2, q_synchronized = False, q_head = 3, q_tail = 1,
     q_size = 2, q_array = [Some 11, None, None, Some 10], q_event = True,
     q_object = \<lparr>fnObjectNew = None, fnObjectFree = True, fnObjectEquals = default_queue_equals\<rparr>\<rparr>"

lemma wf_wrapped_queue: "wf_queue wrapped_queue" "queue_growable wrapped_queue"
  "queue_contents wrapped_queue = [Some 10, Some 11]"
  by (simp_all add: wf_queue_def queue_growable_def queue_contents_def ring_list_def upt_rec)


text \<open>
  C10: the queue is first-in first-out over any sequence of operations: what was in it and what was
  accepted is what was taken out, in the same order, followed by what is still in it, also when the
  entries wrap around and when the array grows in between. This holds for queues with a capacity and a
  growth factor of at least two that store the objects themselves (no \<open>fnObjectNew\<close>), which
  \<open>plain_queue\<close> says; \<open>Queue_New\<close> makes such a queue from every capacity and growth factor (also
  the defaults, for values that are not positive) other than one whose array fits the address space. A queue of capacity one loses its first object, and one of growth factor one writes behind its
  array.
\<close>

theorem queue_is_fifo:
  assumes "plain_queue q" "fifo_run (queue_accept realloc) queue_take ops q = Some (outs, t)"
  shows "plain_queue t \<and> length outs = deqs ops \<and>
    queue_contents q @ enqueued ops = outs @ queue_contents t"
  using wqueue.fifo_order [OF assms(2,1)] .

theorem queue_is_fifo_witness:
  "\<exists>t. fifo_run (queue_accept (\<lambda>_. True)) queue_take [Enq (Some 12), Enq (Some 13), Deq, Deq, Deq]
      wrapped_queue = Some ([Some 10, Some 11, Some 12], t) \<and> queue_contents t = [Some 13]"
proof -
  obtain t where t: "fifo_run (queue_accept (\<lambda>_. True)) queue_take
      [Enq (Some 12), Enq (Some 13), Deq, Deq, Deq] wrapped_queue = Some ([Some 10, Some 11, Some 12], t)"
    by (simp add: queue_accept_def queue_take_def Queue_Enqueue_def Queue_EnsureCapacity_def
        Queue_Dequeue_def queue_growable_def Let_def realloc_block_def overwrite_def)
  have "plain_queue wrapped_queue" using wf_wrapped_queue(1) by (simp add: plain_queue_def)
  from queue_is_fifo [OF this t] t show ?thesis unfolding wf_wrapped_queue(3) by simp
qed

text \<open>
  With an initial capacity of one the first enqueue grows the empty queue, whose equal head and tail are
  taken for a wrapped one: the tail moves to the second slot while the head stays at the first, and what
  is dequeued is the NULL of the first slot.
\<close>

lemma queue_of_one_loses_object:
  "\<exists>q t. Queue_New (\<lambda>_. True) True False 1 2 = Some q \<and> Queue_Enqueue (\<lambda>_. True) (Some x) q = Success True t \<and>
     (\<exists>u. Queue_Dequeue t = Success None u \<and> q_size u = 0)"
  by (simp add: Queue_New_def Queue_EnsureCapacity_def Queue_Enqueue_def Queue_Dequeue_def Let_def realloc_block_def
      overwrite_def)

text \<open>
  With a growth factor of one the full array is reallocated to its own size, and the entries of a wrapped
  queue are moved behind it: the next object is stored outside the array.
\<close>

lemma queue_growth_of_one_overflows:
  "Queue_Enqueue (\<lambda>_. True) obj \<lparr>q_capacity = 2, q_growthFactor = 1, q_synchronized = False, q_head = 1, q_tail = 0,
     q_size = 1, q_array = [None, Some x], q_event = True,
     q_object = \<lparr>fnObjectNew = None, fnObjectFree = False, fnObjectEquals = default_queue_equals\<rparr>\<rparr> =
   Fault OutOfBoundsAccess"
  by (simp add: Queue_EnsureCapacity_def Queue_Enqueue_def Let_def realloc_block_def overwrite_def)

text \<open>
  When the array cannot grow, \<open>Queue_Enqueue\<close> still returns TRUE, and the object is lost.
\<close>

theorem queue_enqueue_no_memory_reports_success:
  "Queue_Enqueue (\<lambda>_. False) obj (wrapped_queue\<lparr>q_size := 3, q_tail := 2\<rparr>) =
     Success True (wrapped_queue\<lparr>q_size := 3, q_tail := 2\<rparr>)"
  by (rule Queue_Enqueue_no_memory) (simp_all add: wf_queue_def queue_growable_def)

text \<open>
  \<open>Queue_Contains\<close> looks at the slots before the tail only, so it misses an object of a queue
  whose entries wrap around.
\<close>

theorem queue_contains_misses_wrapped_entry:
  "wf_queue wrapped_queue \<and> Some 10 \<in> set (queue_contents wrapped_queue) \<and>
     Queue_Contains (Some 10) wrapped_queue = Success False wrapped_queue"
  using wf_wrapped_queue
  by (simp add: Queue_Contains_def default_queue_equals_def)

end
