(* ===== verification/WMessageQueue.thy ===== *)
theory WMessageQueue
  imports Containers
begin

text \<open>
  The message queue of \<open>winpr/libwinpr/utils/collections/MessageQueue.c\<close>, over which the threads of the
  server talk: a circular array of messages that grows, with an event for its readers and a quit
  message that closes it. Pointers in a message are 64-bit words, \<open>GetTickCount64\<close> is an argument, and
  waiting for an event that is not set does not return.
\<close>

section \<open>The functions of MessageQueue.c\<close>

record wMessage =
  msg_id :: "32 word"
  msg_context :: "64 word"
  msg_wParam :: "64 word"
  msg_lParam :: "64 word"
  msg_time :: "64 word"
  msg_Free :: "64 word"

abbreviation WMQ_QUIT :: "32 word" where
  "WMQ_QUIT \<equiv> 0xFFFFFFFF"

abbreviation MSG_SIZE :: nat where
  "MSG_SIZE \<equiv> 48"

definition zero_message :: wMessage where
  "zero_message = \<lparr>msg_id = 0, msg_context = 0, msg_wParam = 0, msg_lParam = 0, msg_time = 0,
     msg_Free = 0\<rparr>"

record wMessageQueue =
  mq_head :: nat
  mq_tail :: nat
  mq_size :: nat
  mq_capacity :: nat
  mq_closed :: bool
  mq_array :: "wMessage list"
  mq_event :: bool
  mq_fnObjectUninit :: bool
  mq_fnObjectFree :: bool

definition MessageQueue_Size :: "(wMessageQueue, nat) cfun" where
  "MessageQueue_Size q = Success (mq_size q) q"

definition MessageQueue_Wait :: "(wMessageQueue, bool) cfun" where
  "MessageQueue_Wait q = (if mq_event q then Success True q else Fault NonTermination)"

definition MessageQueue_EnsureCapacity :: "realloc \<Rightarrow> nat \<Rightarrow> (wMessageQueue, unit) cfun" where
  "MessageQueue_EnsureCapacity realloc count q =
     (let needed = (mq_size q + count) mod SIZE_MOD in
      if needed \<ge> mq_capacity q then
        let old_capacity = mq_capacity q;
            new_capacity = (mq_capacity q * 2) mod SIZE_MOD;
            new_capacity = (if new_capacity < needed then needed else new_capacity);
            bytes = (MSG_SIZE * new_capacity) mod SIZE_MOD in
        if \<not> realloc bytes then Failure q
        else
          let block = realloc_block (mq_array q) (bytes div MSG_SIZE) zero_message in
          if new_capacity < old_capacity \<or> length block < new_capacity then Fault OutOfBoundsAccess
          else
            let arr = overwrite block old_capacity
                  (replicate (new_capacity - old_capacity) zero_message);
                q = q\<lparr>mq_array := arr, mq_capacity := new_capacity\<rparr> in
            if mq_tail q \<le> mq_head q then
              if length arr < old_capacity + mq_tail q then Fault OutOfBoundsAccess
              else Success () (q\<lparr>mq_array := overwrite arr old_capacity (take (mq_tail q) arr),
                mq_tail := (mq_tail q + old_capacity) mod SIZE_MOD\<rparr>)
            else Success () q
      else Success () q)"

definition MessageQueue_Dispatch ::
  "realloc \<Rightarrow> 64 word \<Rightarrow> wMessage option \<Rightarrow> (wMessageQueue, unit) cfun" where
  "MessageQueue_Dispatch realloc ticks message q =
     (case message of
        None \<Rightarrow> Failure q
      | Some message \<Rightarrow>
          if mq_closed q then Failure q
          else
            bind_c (MessageQueue_EnsureCapacity realloc 1) (\<lambda>_ q.
              if length (mq_array q) \<le> mq_tail q then Fault OutOfBoundsAccess
              else
                let q = q\<lparr>mq_array := (mq_array q)[mq_tail q := message\<lparr>msg_time := ticks\<rparr>],
                      mq_tail := ((mq_tail q + 1) mod SIZE_MOD) mod mq_capacity q,
                      mq_size := (mq_size q + 1) mod SIZE_MOD\<rparr>;
                    q = (if mq_size q > 0 then q\<lparr>mq_event := True\<rparr> else q) in
                Success () (if msg_id message = WMQ_QUIT then q\<lparr>mq_closed := True\<rparr> else q)) q)"

definition MessageQueue_Post ::
  "realloc \<Rightarrow> 64 word \<Rightarrow> 64 word \<Rightarrow> 32 word \<Rightarrow> 64 word \<Rightarrow> 64 word \<Rightarrow> (wMessageQueue, unit) cfun" where
  "MessageQueue_Post realloc ticks context typ wParam lParam =
     MessageQueue_Dispatch realloc ticks (Some (zero_message\<lparr>msg_context := context, msg_id := typ,
       msg_wParam := wParam, msg_lParam := lParam, msg_Free := 0\<rparr>))"

definition MessageQueue_PostQuit :: "realloc \<Rightarrow> 64 word \<Rightarrow> 32 word \<Rightarrow> (wMessageQueue, unit) cfun" where
  "MessageQueue_PostQuit realloc ticks nExitCode =
     MessageQueue_Post realloc ticks 0 WMQ_QUIT (scast nExitCode) 0"

text \<open>The removal of the message at the head, which \<open>MessageQueue_Get\<close> and \<open>MessageQueue_Peek\<close> share.\<close>

definition mq_remove_head :: "wMessageQueue \<Rightarrow> wMessageQueue" where
  "mq_remove_head q =
     (let q = q\<lparr>mq_array := (mq_array q)[mq_head q := zero_message],
            mq_head := ((mq_head q + 1) mod SIZE_MOD) mod mq_capacity q,
            mq_size := mq_size q - 1\<rparr> in
      if mq_size q < 1 then q\<lparr>mq_event := False\<rparr> else q)"

text \<open>The status and the message written through the pointer, if any.\<close>

definition MessageQueue_Get :: "(wMessageQueue, int \<times> wMessage option) cfun" where
  "MessageQueue_Get =
     bind_c MessageQueue_Wait (\<lambda>_ q.
       if mq_size q > 0 then
         if length (mq_array q) \<le> mq_head q then Fault OutOfBoundsAccess
         else
           let message = mq_array q ! mq_head q in
           Success (if msg_id message \<noteq> WMQ_QUIT then 1 else 0, Some message) (mq_remove_head q)
       else Success (-1, None) q)"

definition MessageQueue_Peek :: "bool \<Rightarrow> (wMessageQueue, int \<times> wMessage option) cfun" where
  "MessageQueue_Peek remove q =
     (if mq_size q > 0 then
        if length (mq_array q) \<le> mq_head q then Fault OutOfBoundsAccess
        else Success (1, Some (mq_array q ! mq_head q)) (if remove then mq_remove_head q else q)
      else Success (0, None) q)"

text \<open>\<open>MessageQueue_Clear\<close> returns the messages handed to the uninit and to the free callback.\<close>

fun mq_clear_loop :: "nat \<Rightarrow> (wMessageQueue, wMessage list \<times> wMessage list) cfun" where
  "mq_clear_loop 0 q = (if mq_size q > 0 then Fault NonTermination else Success ([], []) q)"
| "mq_clear_loop (Suc fuel) q =
     (if mq_size q > 0 then
        if length (mq_array q) \<le> mq_head q then Fault OutOfBoundsAccess
        else
          let msg = mq_array q ! mq_head q in
          bind_c (mq_clear_loop fuel) (\<lambda>(us, fs). return_c
            ((if mq_fnObjectUninit q then [msg] else []) @ us,
             (if mq_fnObjectFree q then [msg] else []) @ fs))
            (q\<lparr>mq_array := (mq_array q)[mq_head q := zero_message],
               mq_head := ((mq_head q + 1) mod SIZE_MOD) mod mq_capacity q,
               mq_size := mq_size q - 1\<rparr>)
      else Success ([], []) q)"

definition MessageQueue_Clear :: "(wMessageQueue, wMessage list \<times> wMessage list) cfun" where
  "MessageQueue_Clear q =
     bind_c (mq_clear_loop (mq_size q)) (\<lambda>r q. Success r (q\<lparr>mq_event := False, mq_closed := False\<rparr>)) q"

text \<open>\<open>callback\<close>: which of the two callbacks the given \<open>wObject\<close> has; \<open>event_ok\<close> as for the queue.\<close>

definition MessageQueue_New :: "realloc \<Rightarrow> bool \<Rightarrow> (bool \<times> bool) option \<Rightarrow> wMessageQueue option" where
  "MessageQueue_New realloc event_ok callback =
     (let queue = \<lparr>mq_head = 0, mq_tail = 0, mq_size = 0, mq_capacity = 0, mq_closed = False,
            mq_array = [], mq_event = False, mq_fnObjectUninit = False, mq_fnObjectFree = False\<rparr> in
      case MessageQueue_EnsureCapacity realloc 32 queue of
        Success _ queue \<Rightarrow>
          if event_ok then
            Some (case callback of None \<Rightarrow> queue
              | Some (u, f) \<Rightarrow> queue\<lparr>mq_fnObjectUninit := u, mq_fnObjectFree := f\<rparr>)
          else None
      | _ \<Rightarrow> None)"

section \<open>Invariant and contents\<close>

definition wf_mq :: "wMessageQueue \<Rightarrow> bool" where
  "wf_mq q \<longleftrightarrow> 2 \<le> mq_capacity q \<and> length (mq_array q) = mq_capacity q \<and>
     mq_head q < mq_capacity q \<and> mq_size q < mq_capacity q \<and>
     mq_tail q = (mq_head q + mq_size q) mod mq_capacity q \<and>
     MSG_SIZE * mq_capacity q < SIZE_MOD \<and> mq_event q = (0 < mq_size q)"

definition mq_contents :: "wMessageQueue \<Rightarrow> wMessage list" where
  "mq_contents q = ring_list (mq_array q) (mq_head q) (mq_size q)"

definition mq_growable :: "wMessageQueue \<Rightarrow> bool" where
  "mq_growable q \<longleftrightarrow> MSG_SIZE * (mq_capacity q * 2) < SIZE_MOD"

lemma wf_mq_bounds:
  assumes "wf_mq q"
  shows "2 \<le> mq_capacity q" "mq_head q < mq_capacity q" "mq_size q < mq_capacity q"
    "mq_tail q < mq_capacity q" "MSG_SIZE * mq_capacity q < SIZE_MOD" "mq_event q = (0 < mq_size q)"
    "length (mq_array q) = mq_capacity q"
  using assms by (auto simp: wf_mq_def)

lemma wf_mq_ring:
  assumes "wf_mq q"
  shows "mq_head q < length (mq_array q)" "mq_size q < length (mq_array q)"
    "mq_tail q = (mq_head q + mq_size q) mod length (mq_array q)"
  using assms by (simp_all add: wf_mq_def)

lemma MessageQueue_EnsureCapacity_grows:
  assumes wf: "wf_mq q" and g: "mq_growable q" and full: "\<not> mq_size q + 1 < mq_capacity q"
    and mem: "realloc (MSG_SIZE * (mq_capacity q * 2))"
  defines "new \<equiv> mq_capacity q * 2"
  shows "MessageQueue_EnsureCapacity realloc 1 q = Success () (q\<lparr>mq_capacity := new,
    mq_array := ring_grown (mq_array q) (mq_head q) (mq_tail q) (replicate (mq_capacity q) zero_message),
    mq_tail := mq_head q + mq_size q\<rparr>)"
proof -
  note b = wf_mq_bounds [OF wf]
  have cap: "mq_size q + 1 = mq_capacity q" "new - mq_capacity q = mq_capacity q"
    using b full by (auto simp: new_def)
  have new: "new mod SIZE_MOD = new" "(MSG_SIZE * new) mod SIZE_MOD = MSG_SIZE * new"
    "(mq_size q + 1) mod SIZE_MOD = mq_capacity q" "\<not> new < mq_capacity q" "realloc (MSG_SIZE * new)"
    using g mem b cap by (auto simp: mq_growable_def new_def)
  have zeroed: "overwrite (realloc_block (mq_array q) new zero_message) (mq_capacity q)
      (replicate (mq_capacity q) zero_message) = mq_array q @ replicate (mq_capacity q) zero_message"
    using realloc_block_zeroed [of "mq_array q" new zero_message zero_message] b new(4) cap(2) by simp
  have "0 < mq_size q" "length (mq_array q) \<le> length (replicate (mq_capacity q) zero_message)"
    using cap b by simp_all
  note ring = ring_grown_list(2) [OF wf_mq_ring(1) [OF wf] this(1) wf_mq_ring(2,3) [OF wf] this(2),
      unfolded b(7)]
  have "(mq_tail q + mq_capacity q) mod SIZE_MOD = mq_tail q + mq_capacity q"
    using b by (intro mod_less) linarith
  with ring new zeroed cap b show ?thesis
    by (auto simp: MessageQueue_EnsureCapacity_def Let_def ring_grown_def simp flip: new_def)
qed

lemma MessageQueue_EnsureCapacity_ok:
  assumes wf: "wf_mq q" and g: "mq_growable q"
    and mem: "mq_size q + 1 < mq_capacity q \<or> realloc (MSG_SIZE * (mq_capacity q * 2))"
  shows "\<exists>t. MessageQueue_EnsureCapacity realloc 1 q = Success () t \<and> wf_mq t \<and>
    mq_size t + 1 < mq_capacity t \<and> mq_contents t = mq_contents q \<and> mq_size t = mq_size q \<and>
    mq_closed t = mq_closed q"
proof (cases "mq_size q + 1 < mq_capacity q")
  case True
  with wf_mq_bounds [OF wf] have "MessageQueue_EnsureCapacity realloc 1 q = Success () q"
    by (simp add: MessageQueue_EnsureCapacity_def)
  with wf True show ?thesis by blast
next
  case False
  note b = wf_mq_bounds [OF wf]
  let ?t = "q\<lparr>mq_capacity := mq_capacity q * 2,
    mq_array := ring_grown (mq_array q) (mq_head q) (mq_tail q) (replicate (mq_capacity q) zero_message),
    mq_tail := mq_head q + mq_size q\<rparr>"
  have le: "0 < mq_size q" "length (mq_array q) \<le> length (replicate (mq_capacity q) zero_message)"
    using b False by simp_all
  note ring = ring_grown_list [OF wf_mq_ring(1) [OF wf] le(1) wf_mq_ring(2,3) [OF wf] le(2)]
  have "wf_mq ?t" using b ring(3) g by (simp add: wf_mq_def mq_growable_def)
  moreover have "mq_contents ?t = mq_contents q" using ring(1) by (simp add: mq_contents_def)
  moreover have "MessageQueue_EnsureCapacity realloc 1 q = Success () ?t"
    using MessageQueue_EnsureCapacity_grows [OF wf g False, of realloc] mem False by simp
  ultimately show ?thesis using b by auto
qed

section \<open>Operations\<close>

lemma MessageQueue_Dispatch_ok:
  assumes "wf_mq q" "mq_growable q" "\<not> mq_closed q"
    "mq_size q + 1 < mq_capacity q \<or> realloc (MSG_SIZE * (mq_capacity q * 2))"
  shows "\<exists>t. MessageQueue_Dispatch realloc ticks (Some m) q = Success () t \<and> wf_mq t \<and>
    mq_contents t = mq_contents q @ [m\<lparr>msg_time := ticks\<rparr>] \<and> mq_closed t = (msg_id m = WMQ_QUIT)"
proof -
  obtain r where r: "MessageQueue_EnsureCapacity realloc 1 q = Success () r" "wf_mq r"
    "mq_size r + 1 < mq_capacity r" "mq_contents r = mq_contents q" "mq_closed r = mq_closed q"
    using MessageQueue_EnsureCapacity_ok [where realloc = realloc, OF assms(1,2,4)] by blast
  note b = wf_mq_bounds [OF r(2)]
  have w: "(mq_tail r + 1) mod SIZE_MOD = mq_tail r + 1" "(mq_size r + 1) mod SIZE_MOD = mq_size r + 1"
    using r(3) b by (auto intro!: mod_less)
  let ?t = "r\<lparr>mq_array := (mq_array r)[mq_tail r := m\<lparr>msg_time := ticks\<rparr>],
      mq_tail := (mq_tail r + 1) mod mq_capacity r, mq_size := mq_size r + 1, mq_event := True,
      mq_closed := (msg_id m = WMQ_QUIT)\<rparr>"
  have "MessageQueue_Dispatch realloc ticks (Some m) q = Success () ?t"
    using r(1,5) w b assms(3)
    by (cases r) (auto simp: MessageQueue_Dispatch_def bind_c_def Let_def)
  moreover have "wf_mq ?t" using r(2,3) by (auto simp: wf_mq_def mod_Suc_eq)
  moreover have "mq_contents ?t = mq_contents q @ [m\<lparr>msg_time := ticks\<rparr>]"
    using ring_list_snoc [OF wf_mq_ring(2) [OF r(2)]] wf_mq_ring(3) [OF r(2)] r(4)
    by (simp add: mq_contents_def)
  ultimately show ?thesis by (intro exI [of _ ?t]) simp
qed

lemma MessageQueue_Dispatch_refused:
  "mq_closed q \<Longrightarrow> MessageQueue_Dispatch realloc ticks m q = Failure q"
  "MessageQueue_Dispatch realloc ticks None q = Failure q"
  by (auto simp: MessageQueue_Dispatch_def split: option.split)

lemma MessageQueue_Dispatch_no_memory:
  assumes "wf_mq q" "mq_growable q" "mq_size q + 1 = mq_capacity q"
    "\<not> realloc (MSG_SIZE * (mq_capacity q * 2))"
  shows "MessageQueue_Dispatch realloc ticks m q = Failure q"
  using assms wf_mq_bounds [OF assms(1)]
  by (auto simp: MessageQueue_Dispatch_def MessageQueue_EnsureCapacity_def bind_c_def Let_def
      mq_growable_def split: option.split)

lemma mq_remove_head_ok:
  assumes "wf_mq q" "0 < mq_size q"
  shows "wf_mq (mq_remove_head q)" "mq_closed (mq_remove_head q) = mq_closed q"
    "mq_contents q = mq_array q ! mq_head q # mq_contents (mq_remove_head q)"
proof -
  note b = wf_mq_bounds [OF assms(1)]
  obtain n where n: "mq_size q = Suc n" using assms(2) by (cases "mq_size q") auto
  have w: "(mq_head q + 1) mod SIZE_MOD = mq_head q + 1" using b by (intro mod_less) linarith
  have r: "mq_remove_head q = q\<lparr>mq_array := (mq_array q)[mq_head q := zero_message],
      mq_head := (mq_head q + 1) mod mq_capacity q, mq_size := n, mq_event := (0 < n)\<rparr>"
    using b n w by (cases q) (auto simp: mq_remove_head_def Let_def)
  show "wf_mq (mq_remove_head q)" using assms n by (auto simp: r wf_mq_def mod_add_left_eq)
  show "mq_closed (mq_remove_head q) = mq_closed q" by (simp add: r)
  show "mq_contents q = mq_array q ! mq_head q # mq_contents (mq_remove_head q)"
    using ring_list_Cons [OF assms(2) _ wf_mq_ring(1) [OF assms(1)], of zero_message] b n
    by (simp add: r mq_contents_def)
qed

lemma MessageQueue_Get_ok:
  assumes "wf_mq q" "mq_contents q = m # ms"
  shows "\<exists>t. MessageQueue_Get q = Success (if msg_id m = WMQ_QUIT then 0 else 1, Some m) t \<and> wf_mq t \<and>
    mq_contents t = ms \<and> mq_closed t = mq_closed q"
proof -
  note b = wf_mq_bounds [OF assms(1)]
  have pos: "0 < mq_size q" using assms(2) by (cases "mq_size q") (auto simp: mq_contents_def)
  with mq_remove_head_ok [OF assms(1) pos] assms b show ?thesis
    by (auto simp: MessageQueue_Get_def MessageQueue_Wait_def bind_c_def Let_def)
qed

lemma MessageQueue_Peek_ok:
  assumes "wf_mq q" "mq_contents q = m # ms"
  shows "MessageQueue_Peek False q = Success (1, Some m) q"
    "\<exists>t. MessageQueue_Peek True q = Success (1, Some m) t \<and> wf_mq t \<and> mq_contents t = ms \<and>
      mq_closed t = mq_closed q"
proof -
  note b = wf_mq_bounds [OF assms(1)]
  have pos: "0 < mq_size q" using assms(2) by (cases "mq_size q") (auto simp: mq_contents_def)
  with mq_remove_head_ok [OF assms(1) pos] assms b
  show "MessageQueue_Peek False q = Success (1, Some m) q"
    "\<exists>t. MessageQueue_Peek True q = Success (1, Some m) t \<and> wf_mq t \<and> mq_contents t = ms \<and>
      mq_closed t = mq_closed q"
    by (auto simp: MessageQueue_Peek_def)
qed

lemma MessageQueue_empty:
  assumes "wf_mq q" "mq_contents q = []"
  shows "MessageQueue_Get q = Fault NonTermination" "MessageQueue_Peek r q = Success (0, None) q"
  using assms by (auto simp: MessageQueue_Get_def MessageQueue_Wait_def MessageQueue_Peek_def
      bind_c_def wf_mq_def mq_contents_def)

lemma mq_clear_loop_ok:
  "length (mq_array q) = mq_capacity q \<Longrightarrow> mq_head q < mq_capacity q \<Longrightarrow> mq_size q < mq_capacity q \<Longrightarrow>
   MSG_SIZE * mq_capacity q < SIZE_MOD \<Longrightarrow> mq_size q = fuel \<Longrightarrow>
   \<exists>t. mq_clear_loop fuel q = Success (if mq_fnObjectUninit q then mq_contents q else [],
       if mq_fnObjectFree q then mq_contents q else []) t \<and>
     mq_size t = 0 \<and> length (mq_array t) = mq_capacity t \<and> mq_capacity t = mq_capacity q \<and>
     mq_head t < mq_capacity q \<and> mq_tail t = mq_tail q \<and>
     mq_head t = (mq_head q + mq_size q) mod mq_capacity q"
proof (induction fuel arbitrary: q)
  case 0
  then show ?case by (auto simp: mq_contents_def)
next
  case (Suc fuel)
  have w: "(mq_head q + 1) mod SIZE_MOD = mq_head q + 1" using Suc.prems by (intro mod_less) linarith
  let ?h = "(mq_head q + 1) mod mq_capacity q"
  let ?q = "q\<lparr>mq_array := (mq_array q)[mq_head q := zero_message], mq_head := ?h, mq_size := fuel\<rparr>"
  have "0 < mq_capacity q" using Suc.prems by linarith
  then have "?h < mq_capacity q" by simp
  then obtain t where "mq_clear_loop fuel ?q = Success (if mq_fnObjectUninit q then mq_contents ?q else [],
       if mq_fnObjectFree q then mq_contents ?q else []) t"
     "mq_size t = 0" "length (mq_array t) = mq_capacity t" "mq_capacity t = mq_capacity q"
     "mq_head t < mq_capacity q" "mq_tail t = mq_tail q" "mq_head t = (?h + fuel) mod mq_capacity q"
    using Suc.IH [of ?q] Suc.prems by auto
  moreover have "mq_contents q = mq_array q ! mq_head q # mq_contents ?q"
    using ring_list_Cons [of "mq_size q" "mq_array q" "mq_head q" zero_message] Suc.prems
    by (simp add: mq_contents_def)
  moreover have "(?h + fuel) mod mq_capacity q = (mq_head q + mq_size q) mod mq_capacity q"
    using Suc.prems(5) by (simp add: mod_add_left_eq)
  ultimately show ?case using Suc.prems w
    by (auto simp: bind_c_def return_c_def Let_def)
qed

lemma MessageQueue_Clear_ok:
  assumes "wf_mq q"
  shows "\<exists>t. MessageQueue_Clear q = Success (if mq_fnObjectUninit q then mq_contents q else [],
      if mq_fnObjectFree q then mq_contents q else []) t \<and>
    wf_mq t \<and> mq_contents t = [] \<and> \<not> mq_closed t"
proof -
  note b = wf_mq_bounds [OF assms]
  obtain t where t: "mq_clear_loop (mq_size q) q = Success (if mq_fnObjectUninit q then mq_contents q else [],
       if mq_fnObjectFree q then mq_contents q else []) t"
    "mq_size t = 0" "length (mq_array t) = mq_capacity t" "mq_capacity t = mq_capacity q"
    "mq_head t < mq_capacity q" "mq_tail t = mq_tail q"
    "mq_head t = (mq_head q + mq_size q) mod mq_capacity q"
    using mq_clear_loop_ok [OF b(7,2,3,5) refl] by blast
  let ?u = "t\<lparr>mq_event := False, mq_closed := False\<rparr>"
  have "mq_tail t = mq_head t" using t(6,7) wf_mq_ring(3) [OF assms] b(7) by simp
  with t(2-5) b(1,5) have "wf_mq ?u" by (simp add: wf_mq_def)
  moreover have "mq_contents ?u = []" using t(2) by (simp add: mq_contents_def)
  moreover have "MessageQueue_Clear q = Success (if mq_fnObjectUninit q then mq_contents q else [],
      if mq_fnObjectFree q then mq_contents q else []) ?u"
    unfolding MessageQueue_Clear_def bind_c_def t(1) by simp
  ultimately show ?thesis by (intro exI [of _ ?u]) simp
qed

lemma MessageQueue_New_ok:
  assumes "realloc (MSG_SIZE * 32)"
  shows "\<exists>q. MessageQueue_New realloc True callback = Some q \<and> wf_mq q \<and> mq_contents q = [] \<and>
    \<not> mq_closed q"
  using assms
  by (auto simp: MessageQueue_New_def MessageQueue_EnsureCapacity_def Let_def overwrite_def wf_mq_def
      realloc_block_def mq_contents_def simp del: replicate_Cons_numeral split: option.split)

section \<open>The message queue as a queue\<close>

text \<open>A message is dispatched at the time it carries, so what is stored is the message itself.\<close>

definition mq_accept :: "realloc \<Rightarrow> wMessage \<Rightarrow> wMessageQueue \<Rightarrow> wMessageQueue option" where
  "mq_accept realloc m q =
     (if mq_growable q then
        case MessageQueue_Dispatch realloc (msg_time m) (Some m) q of Success _ t \<Rightarrow> Some t | _ \<Rightarrow> None
      else None)"

definition mq_take :: "wMessageQueue \<Rightarrow> (wMessage \<times> wMessageQueue) option" where
  "mq_take q = (case MessageQueue_Peek True q of Success (_, Some m) t \<Rightarrow> Some (m, t) | _ \<Rightarrow> None)"

interpretation wmq: fifo mq_contents wf_mq "mq_accept realloc" mq_take for realloc
proof unfold_locales
  fix s t :: wMessageQueue and x
  assume wf: "wf_mq s"
  show "mq_take s = None \<longleftrightarrow> mq_contents s = []"
    using MessageQueue_empty(2) [OF wf] MessageQueue_Peek_ok(2) [OF wf]
    by (cases "mq_contents s") (auto simp: mq_take_def)
  show "wf_mq t \<and> mq_contents s = x # mq_contents t" if "mq_take s = Some (x, t)"
    using that MessageQueue_empty(2) [OF wf] MessageQueue_Peek_ok(2) [OF wf]
    by (cases "mq_contents s") (auto simp: mq_take_def)
  show "wf_mq t \<and> mq_contents t = mq_contents s @ [x]" if "mq_accept realloc x s = Some t"
  proof -
    from that have g: "mq_growable s" by (auto simp: mq_accept_def split: if_splits)
    from that have closed: "\<not> mq_closed s"
      using MessageQueue_Dispatch_refused(1) [of s] by (auto simp: mq_accept_def split: if_splits)
    show ?thesis
    proof (cases "mq_size s + 1 < mq_capacity s \<or> realloc (MSG_SIZE * (mq_capacity s * 2))")
      case True
      with MessageQueue_Dispatch_ok [OF wf g closed, of realloc "msg_time x" x] that g show ?thesis
        by (auto simp: mq_accept_def)
    next
      case False
      with MessageQueue_Dispatch_no_memory [OF wf g, of realloc "msg_time x" "Some x"]
        wf_mq_bounds(3) [OF wf] that g show ?thesis by (auto simp: mq_accept_def)
    qed
  qed
qed

section \<open>Properties\<close>

text \<open>
  C12: the message queue delivers in order: over any sequence of dispatches and receptions, the messages
  in the queue and the accepted ones are those received, in the same order, followed by those still there.
\<close>

theorem message_queue_is_fifo:
  assumes "wf_mq q" "fifo_run (mq_accept realloc) mq_take ops q = Some (outs, t)"
  shows "wf_mq t \<and> length outs = deqs ops \<and> mq_contents q @ enqueued ops = outs @ mq_contents t"
  using wmq.fifo_order [OF assms(2,1)] .

abbreviation sample_mq :: wMessageQueue where
  "sample_mq \<equiv> \<lparr>mq_head = 1, mq_tail = 0, mq_size = 1, mq_capacity = 2, mq_closed = False,
     mq_array = [zero_message, zero_message\<lparr>msg_id := 7\<rparr>], mq_event = True,
     mq_fnObjectUninit = False, mq_fnObjectFree = True\<rparr>"

lemma wf_sample_mq: "wf_mq sample_mq" "mq_growable sample_mq"
    "mq_contents sample_mq = [zero_message\<lparr>msg_id := 7\<rparr>]" "\<not> mq_closed sample_mq"
  by (simp_all add: wf_mq_def mq_growable_def mq_contents_def ring_list_def)

theorem message_queue_is_fifo_witness:
  "\<exists>t. fifo_run (mq_accept (\<lambda>_. True)) mq_take [Enq (zero_message\<lparr>msg_id := 8\<rparr>), Deq] sample_mq =
      Some ([zero_message\<lparr>msg_id := 7\<rparr>], t) \<and> mq_contents t = [zero_message\<lparr>msg_id := 8\<rparr>]"
proof -
  obtain t where t: "fifo_run (mq_accept (\<lambda>_. True)) mq_take [Enq (zero_message\<lparr>msg_id := 8\<rparr>), Deq]
      sample_mq = Some ([zero_message\<lparr>msg_id := 7\<rparr>], t)"
    by (simp add: mq_accept_def mq_take_def MessageQueue_Dispatch_def MessageQueue_EnsureCapacity_def
        MessageQueue_Peek_def mq_growable_def Let_def realloc_block_def overwrite_def bind_c_def
        mq_remove_head_def)
  from message_queue_is_fifo [OF wf_sample_mq(1) t] have "mq_contents t = [zero_message\<lparr>msg_id := 8\<rparr>]"
    unfolding wf_sample_mq(3) by simp
  with t show ?thesis by blast
qed

text \<open>
  C13: a quit message closes the queue. It is delivered after everything dispatched before it, further
  messages are refused and change nothing, its reception reports 0, and \<open>MessageQueue_Clear\<close> hands every
  message to the free callback once, in order, and opens the queue again.
\<close>

theorem message_queue_quit:
  assumes "wf_mq q" "mq_growable q" "\<not> mq_closed q"
    "mq_size q + 1 < mq_capacity q \<or> realloc (MSG_SIZE * (mq_capacity q * 2))"
  shows "\<exists>t m. MessageQueue_PostQuit realloc ticks code q = Success () t \<and> wf_mq t \<and> mq_closed t \<and>
    msg_id m = WMQ_QUIT \<and> msg_wParam m = scast code \<and> mq_contents t = mq_contents q @ [m] \<and>
    (\<forall>realloc' ticks' m'. MessageQueue_Dispatch realloc' ticks' m' t = Failure t) \<and>
    (mq_contents q = [] \<longrightarrow> (\<exists>u. MessageQueue_Get t = Success (0, Some m) u \<and> mq_closed u)) \<and>
    (\<exists>u r. MessageQueue_Clear t = Success r u \<and> wf_mq u \<and> \<not> mq_closed u \<and> mq_contents u = [] \<and>
      snd r = (if mq_fnObjectFree t then mq_contents q @ [m] else []))"
proof -
  let ?base = "zero_message\<lparr>msg_context := 0, msg_id := WMQ_QUIT, msg_wParam := scast code, msg_lParam := 0,
    msg_Free := 0\<rparr>"
  let ?m = "?base\<lparr>msg_time := ticks\<rparr>"
  obtain t where t: "MessageQueue_PostQuit realloc ticks code q = Success () t" "wf_mq t" "mq_closed t"
    "mq_contents t = mq_contents q @ [?m]"
    using MessageQueue_Dispatch_ok [OF assms(1-3), of realloc ticks ?base] assms(4)
    by (auto simp: MessageQueue_PostQuit_def MessageQueue_Post_def)
  have "\<exists>u. MessageQueue_Get t = Success (0, Some ?m) u \<and> mq_closed u" if "mq_contents q = []"
    using MessageQueue_Get_ok [OF t(2), of ?m "[]"] t(3,4) that by auto
  moreover have "\<exists>u r. MessageQueue_Clear t = Success r u \<and> wf_mq u \<and> \<not> mq_closed u \<and> mq_contents u = [] \<and>
      snd r = (if mq_fnObjectFree t then mq_contents q @ [?m] else [])"
    using MessageQueue_Clear_ok [OF t(2)] t(4) by auto
  ultimately show ?thesis using t MessageQueue_Dispatch_refused(1) [OF t(3)]
    by (intro exI [of _ t] exI [of _ ?m]) simp
qed

theorem message_queue_quit_witness:
  "\<exists>t m. MessageQueue_PostQuit (\<lambda>_. True) 5 1 sample_mq = Success () t \<and> mq_closed t \<and>
     mq_contents t = [zero_message\<lparr>msg_id := 7\<rparr>, m] \<and> msg_id m = WMQ_QUIT"
proof -
  have "(mq_size sample_mq + 1 < mq_capacity sample_mq \<or> True)" by simp
  from message_queue_quit [OF wf_sample_mq(1,2,4) this, of 5 1] obtain t m where
    "MessageQueue_PostQuit (\<lambda>_. True) 5 1 sample_mq = Success () t" "mq_closed t" "msg_id m = WMQ_QUIT"
    "mq_contents t = mq_contents sample_mq @ [m]" by blast
  then show ?thesis unfolding wf_sample_mq(3) by auto
qed

end
