(* ===== verification/WStack.thy ===== *)
theory WStack
  imports Containers
begin

text \<open>
  The object stack of \<open>winpr/libwinpr/utils/collections/Stack.c\<close>. Locks are left out; objects passed to
  \<open>fnObjectFree\<close> are results.
\<close>

section \<open>The functions of Stack.c\<close>

record 'a wStack =
  st_size :: nat
  st_capacity :: nat
  st_array :: "'a option list"
  st_synchronized :: bool
  st_object :: "'a wObject"

definition Stack_Count :: "('a wStack, nat) cfun" where
  "Stack_Count s = Success (st_size s) s"

definition Stack_IsSynchronized :: "('a wStack, bool) cfun" where
  "Stack_IsSynchronized s = Success (st_synchronized s) s"

fun stack_clear_loop :: "nat \<Rightarrow> nat \<Rightarrow> ('a wStack, 'a option list) cfun" where
  "stack_clear_loop index 0 s = Success [] s"
| "stack_clear_loop index (Suc n) s =
     (if length (st_array s) \<le> index then Fault OutOfBoundsAccess
      else
        let freed = (if fnObjectFree (st_object s) then [st_array s ! index] else []) in
        bind_c (stack_clear_loop (index + 1) n) (\<lambda>rest. return_c (freed @ rest))
          (s\<lparr>st_array := (st_array s)[index := None]\<rparr>))"

definition Stack_Clear :: "('a wStack, 'a option list) cfun" where
  "Stack_Clear s =
     bind_c (stack_clear_loop 0 (st_size s)) (\<lambda>freed s. Success freed (s\<lparr>st_size := 0\<rparr>)) s"

definition Stack_Contains :: "'a option \<Rightarrow> ('a wStack, bool) cfun" where
  "Stack_Contains obj s =
     (if length (st_array s) < st_size s then Fault OutOfBoundsAccess
      else Success (list_ex (\<lambda>x. fnObjectEquals (st_object s) x obj) (take (st_size s) (st_array s))) s)"

text \<open>\<open>Stack_Push\<close> returns nothing: when the array cannot grow it leaves the stack as it is.\<close>

definition Stack_Push :: "realloc \<Rightarrow> 'a option \<Rightarrow> ('a wStack, unit) cfun" where
  "Stack_Push realloc obj s =
     (let store = (\<lambda>s. if length (st_array s) \<le> st_size s then Fault OutOfBoundsAccess
            else Success () (s\<lparr>st_array := (st_array s)[st_size s := obj],
              st_size := (st_size s + 1) mod SIZE_MOD\<rparr>)) in
      if (st_size s + 1) mod SIZE_MOD \<ge> st_capacity s then
        let new_cap = (st_capacity s * 2) mod SIZE_MOD;
            bytes = (PTR_SIZE * new_cap) mod SIZE_MOD in
        if \<not> realloc bytes then Success () s
        else store (s\<lparr>st_array := realloc_block (st_array s) (bytes div PTR_SIZE) None,
          st_capacity := new_cap\<rparr>)
      else store s)"

definition Stack_Pop :: "('a wStack, 'a option) cfun" where
  "Stack_Pop s =
     (if st_size s > 0 then
        let s = s\<lparr>st_size := st_size s - 1\<rparr> in
        if length (st_array s) \<le> st_size s then Fault OutOfBoundsAccess
        else Success (st_array s ! st_size s) s
      else Success None s)"

definition Stack_Peek :: "('a wStack, 'a option) cfun" where
  "Stack_Peek s =
     (if st_size s > 0 then
        if length (st_array s) \<le> st_size s - 1 then Fault OutOfBoundsAccess
        else Success (st_array s ! (st_size s - 1)) s
      else Success None s)"

definition default_stack_equals :: "'a option \<Rightarrow> 'a option \<Rightarrow> bool" where
  "default_stack_equals obj1 obj2 \<longleftrightarrow> obj1 = obj2"

definition Stack_New :: "realloc \<Rightarrow> bool \<Rightarrow> 'a wStack option" where
  "Stack_New realloc synchronized =
     (if realloc (32 * PTR_SIZE) then
        Some \<lparr>st_size = 0, st_capacity = 32, st_array = replicate 32 None, st_synchronized = synchronized,
          st_object = \<lparr>fnObjectNew = None, fnObjectFree = False, fnObjectEquals = default_stack_equals\<rparr>\<rparr>
      else None)"

section \<open>Invariant and contents\<close>

definition wf_stack :: "'a wStack \<Rightarrow> bool" where
  "wf_stack s \<longleftrightarrow> 2 \<le> st_capacity s \<and> st_size s < st_capacity s \<and>
     length (st_array s) = st_capacity s \<and> PTR_SIZE * st_capacity s < SIZE_MOD"

definition stack_contents :: "'a wStack \<Rightarrow> 'a option list" where
  "stack_contents s = rev (take (st_size s) (st_array s))"

definition stack_growable :: "'a wStack \<Rightarrow> bool" where
  "stack_growable s \<longleftrightarrow> PTR_SIZE * (st_capacity s * 2) < SIZE_MOD"

lemma stack_contents_Nil: "wf_stack s \<Longrightarrow> stack_contents s = [] \<longleftrightarrow> st_size s = 0"
  by (auto simp: stack_contents_def wf_stack_def)

lemma Stack_Push_ok:
  assumes "wf_stack s" "stack_growable s"
    "st_size s + 1 < st_capacity s \<or> realloc (PTR_SIZE * (st_capacity s * 2))"
  shows "\<exists>t. Stack_Push realloc obj s = Success () t \<and> wf_stack t \<and> st_size t = st_size s + 1 \<and>
    stack_contents t = obj # stack_contents s"
proof -
  have m: "(st_size s + 1) mod SIZE_MOD = st_size s + 1" using assms(1) by (simp add: wf_stack_def)
  have upd: "rev (take (Suc n) (xs[n := obj])) = obj # rev (take n xs)" if "n < length xs" for n xs
    using that by (simp add: take_Suc_conv_app_nth)
  show ?thesis
  proof (cases "st_size s + 1 < st_capacity s")
    case True
    with m assms(1) upd [of "st_size s" "st_array s"] show ?thesis
      by (auto simp: Stack_Push_def Let_def wf_stack_def stack_contents_def)
  next
    case False
    let ?arr = "realloc_block (st_array s) (2 * st_capacity s) None"
    have "take (st_size s) ?arr = take (st_size s) (st_array s)"
      using assms(1) by (simp add: realloc_block_def wf_stack_def)
    then show ?thesis
      using False m assms upd [of "st_size s" ?arr]
      by (auto simp: Stack_Push_def Let_def wf_stack_def stack_contents_def stack_growable_def)
  qed
qed

lemma Stack_Push_no_memory:
  assumes "wf_stack s" "stack_growable s" "st_size s + 1 = st_capacity s"
    "\<not> realloc (PTR_SIZE * (st_capacity s * 2))"
  shows "Stack_Push realloc obj s = Success () s"
  using assms by (auto simp: Stack_Push_def Let_def wf_stack_def stack_growable_def)

lemma Stack_Pop_ok:
  assumes "wf_stack s" "stack_contents s = x # xs"
  shows "Stack_Pop s = Success x (s\<lparr>st_size := st_size s - 1\<rparr>)"
    "wf_stack (s\<lparr>st_size := st_size s - 1\<rparr>)" "stack_contents (s\<lparr>st_size := st_size s - 1\<rparr>) = xs"
    "Stack_Peek s = Success x s"
proof -
  obtain n where n: "st_size s = Suc n" using assms stack_contents_Nil [OF assms(1)]
    by (cases "st_size s") auto
  have "n < length (st_array s)" using assms(1) n by (simp add: wf_stack_def)
  then have "stack_contents s = st_array s ! n # rev (take n (st_array s))"
    by (simp add: stack_contents_def n take_Suc_conv_app_nth)
  with assms n show "Stack_Pop s = Success x (s\<lparr>st_size := st_size s - 1\<rparr>)"
    "wf_stack (s\<lparr>st_size := st_size s - 1\<rparr>)" "stack_contents (s\<lparr>st_size := st_size s - 1\<rparr>) = xs"
    "Stack_Peek s = Success x s"
    by (auto simp: Stack_Pop_def Stack_Peek_def Let_def wf_stack_def stack_contents_def)
qed

lemma Stack_empty:
  "wf_stack s \<Longrightarrow> stack_contents s = [] \<Longrightarrow> Stack_Pop s = Success None s \<and> Stack_Peek s = Success None s"
  by (simp add: stack_contents_Nil Stack_Pop_def Stack_Peek_def)

lemma stack_clear_loop_ok:
  "index + n \<le> length (st_array s) \<Longrightarrow>
     \<exists>arr. length arr = length (st_array s) \<and> stack_clear_loop index n s =
       Success (if fnObjectFree (st_object s) then take n (drop index (st_array s)) else [])
         (s\<lparr>st_array := arr\<rparr>)"
proof (induction n arbitrary: index s)
  case 0
  then show ?case by (auto intro!: exI [of _ "st_array s"])
next
  case (Suc n)
  let ?s = "s\<lparr>st_array := (st_array s)[index := None]\<rparr>"
  obtain arr where "length arr = length (st_array s)" "stack_clear_loop (index + 1) n ?s =
      Success (if fnObjectFree (st_object s) then take n (drop (index + 1) (st_array s)) else [])
        (?s\<lparr>st_array := arr\<rparr>)"
    using Suc.IH [of "index + 1" ?s] Suc.prems by auto
  moreover have "take (Suc n) (drop index (st_array s)) =
      st_array s ! index # take n (drop (index + 1) (st_array s))"
    using Suc.prems by (simp add: Cons_nth_drop_Suc [symmetric])
  ultimately show ?case using Suc.prems by (auto simp: bind_c_def return_c_def Let_def)
qed

lemma Stack_Clear_ok:
  assumes "wf_stack s"
  shows "\<exists>t. Stack_Clear s = Success (if fnObjectFree (st_object s) then rev (stack_contents s) else []) t \<and>
    wf_stack t \<and> stack_contents t = []"
  using stack_clear_loop_ok [of 0 "st_size s" s] assms
  by (auto simp: Stack_Clear_def bind_c_def wf_stack_def stack_contents_def)

lemma Stack_Contains_ok:
  assumes "wf_stack s"
  shows "Stack_Contains obj s =
    Success (\<exists>x \<in> set (stack_contents s). fnObjectEquals (st_object s) x obj) s"
  using assms by (auto simp: Stack_Contains_def wf_stack_def stack_contents_def list_ex_iff)

section \<open>The stack as a stack\<close>

definition stack_accept :: "realloc \<Rightarrow> 'a option \<Rightarrow> 'a wStack \<Rightarrow> 'a wStack option" where
  "stack_accept realloc obj s =
     (if stack_growable s then
        case Stack_Push realloc obj s of
          Success _ t \<Rightarrow> if st_size t = st_size s + 1 then Some t else None
        | _ \<Rightarrow> None
      else None)"

definition stack_take :: "'a wStack \<Rightarrow> ('a option \<times> 'a wStack) option" where
  "stack_take s =
     (if st_size s = 0 then None
      else case Stack_Pop s of Success obj t \<Rightarrow> Some (obj, t) | _ \<Rightarrow> None)"

interpretation wstack: lifo stack_contents wf_stack "stack_accept realloc" stack_take for realloc
proof unfold_locales
  fix s t :: "'a wStack" and x
  assume wf: "wf_stack s"
  show "stack_take s = None \<longleftrightarrow> stack_contents s = []"
    using Stack_Pop_ok [OF wf] stack_contents_Nil [OF wf]
    by (cases "stack_contents s") (auto simp: stack_take_def)
  show "wf_stack t \<and> stack_contents s = x # stack_contents t" if "stack_take s = Some (x, t)"
    using that Stack_Pop_ok [OF wf] stack_contents_Nil [OF wf]
    by (cases "stack_contents s") (auto simp: stack_take_def)
  show "wf_stack t \<and> stack_contents t = x # stack_contents s" if "stack_accept realloc x s = Some t"
  proof -
    from that have g: "stack_growable s" by (auto simp: stack_accept_def split: if_splits)
    show ?thesis
    proof (cases "st_size s + 1 < st_capacity s \<or> realloc (PTR_SIZE * (st_capacity s * 2))")
      case True
      with Stack_Push_ok [OF wf g, of realloc x] that g show ?thesis by (auto simp: stack_accept_def)
    next
      case False
      then have "st_size s + 1 = st_capacity s" using wf by (auto simp: wf_stack_def)
      with Stack_Push_no_memory [OF wf g, of realloc x] False that g show ?thesis
        by (auto simp: stack_accept_def)
    qed
  qed
qed

section \<open>Properties\<close>

text \<open>
  C14: what is pushed on the stack is popped in reverse order, and the stack is then what it was, also
  when the array grows in between.
\<close>

theorem stack_is_lifo:
  assumes "wf_stack s" "push_all (stack_accept realloc) xs s = Some t"
  shows "\<exists>u. pop_many stack_take (length xs) t = Some (rev xs, u) \<and> wf_stack u \<and>
    stack_contents u = stack_contents s"
  using wstack.lifo_order [OF assms] .

theorem stack_is_lifo_witness:
  "\<exists>t u. push_all (stack_accept (\<lambda>_. True)) [Some 1, Some 2]
      \<lparr>st_size = 1, st_capacity = 2, st_array = [Some (7::nat), None], st_synchronized = False,
        st_object = \<lparr>fnObjectNew = None, fnObjectFree = False, fnObjectEquals = default_stack_equals\<rparr>\<rparr> =
      Some t \<and> pop_many stack_take (length [Some 1, Some (2::nat)]) t = Some (rev [Some 1, Some 2], u) \<and>
      stack_contents u = [Some 7]"
proof -
  let ?s = "\<lparr>st_size = 1, st_capacity = 2, st_array = [Some (7::nat), None], st_synchronized = False,
    st_object = \<lparr>fnObjectNew = None, fnObjectFree = False, fnObjectEquals = default_stack_equals\<rparr>\<rparr>"
  obtain t where t: "push_all (stack_accept (\<lambda>_. True)) [Some 1, Some 2] ?s = Some t"
    by (simp add: stack_accept_def stack_growable_def Stack_Push_def Let_def realloc_block_def)
  have "wf_stack ?s" and c: "stack_contents ?s = [Some 7]"
    by (simp_all add: wf_stack_def stack_contents_def)
  from stack_is_lifo [OF this(1) t] t show ?thesis unfolding c by blast
qed

end
