(* ===== verification/WArrayList.thy ===== *)
theory WArrayList
  imports Containers
begin

text \<open>
  The growing array of \<open>winpr/libwinpr/utils/collections/ArrayList.c\<close>. Locks are left out; objects
  passed to \<open>fnObjectFree\<close> are results; \<open>SSIZE_T\<close> parameters are integers.
\<close>

section \<open>The functions of ArrayList.c\<close>

record 'a wArrayList =
  al_capacity :: nat
  al_growthFactor :: nat
  al_synchronized :: bool
  al_size :: nat
  al_array :: "'a option list"
  al_object :: "'a wObject"

abbreviation SSIZE_MAX :: nat where
  "SSIZE_MAX \<equiv> 9223372036854775807"

definition ArrayList_Capacity :: "('a wArrayList, nat) cfun" where
  "ArrayList_Capacity l = Success (al_capacity l) l"

definition ArrayList_Count :: "('a wArrayList, nat) cfun" where
  "ArrayList_Count l = Success (al_size l) l"

definition ArrayList_Items :: "('a wArrayList, nat \<times> 'a option list) cfun" where
  "ArrayList_Items l = Success (al_size l, al_array l) l"

definition ArrayList_IsFixedSized :: "('a wArrayList, bool) cfun" where
  "ArrayList_IsFixedSized l = Success False l"

definition ArrayList_IsReadOnly :: "('a wArrayList, bool) cfun" where
  "ArrayList_IsReadOnly l = Success False l"

definition ArrayList_IsSynchronized :: "('a wArrayList, bool) cfun" where
  "ArrayList_IsSynchronized l = Success (al_synchronized l) l"

definition ArrayList_GetItem :: "nat \<Rightarrow> ('a wArrayList, 'a option) cfun" where
  "ArrayList_GetItem index l =
     (if index < al_size l then
        if length (al_array l) \<le> index then Fault OutOfBoundsAccess else Success (al_array l ! index) l
      else Success None l)"

definition ArrayList_SetItem :: "nat \<Rightarrow> 'a option \<Rightarrow> ('a wArrayList, unit) cfun" where
  "ArrayList_SetItem index obj l =
     (if index \<ge> al_size l then Failure l
      else if length (al_array l) \<le> index then Fault OutOfBoundsAccess
      else
        case fnObjectNew (al_object l) of
          Some new \<Rightarrow>
            let l = l\<lparr>al_array := (al_array l)[index := new obj]\<rparr> in
            if obj \<noteq> None \<and> new obj = None then Failure l else Success () l
        | None \<Rightarrow> Success () (l\<lparr>al_array := (al_array l)[index := obj]\<rparr>))"

definition ArrayList_EnsureCapacity :: "realloc \<Rightarrow> nat \<Rightarrow> ('a wArrayList, unit) cfun" where
  "ArrayList_EnsureCapacity realloc count l =
     (if count = 0 then Fault AssertionFailure
      else if (al_size l + count) mod SIZE_MOD > al_capacity l then
        let newCapacity = (al_capacity l * al_growthFactor l) mod SIZE_MOD;
            newCapacity = (if newCapacity < (al_size l + count) mod SIZE_MOD
              then (al_size l + count) mod SIZE_MOD else newCapacity);
            bytes = (PTR_SIZE * newCapacity) mod SIZE_MOD in
        if \<not> realloc bytes then Failure l
        else Success () (l\<lparr>al_array := realloc_block (al_array l) (bytes div PTR_SIZE) None,
          al_capacity := newCapacity\<rparr>)
      else Success () l)"

definition ArrayList_Shift :: "realloc \<Rightarrow> nat \<Rightarrow> int \<Rightarrow> ('a wArrayList, unit) cfun" where
  "ArrayList_Shift realloc index count =
     (if count > 0 then
        bind_c (ArrayList_EnsureCapacity realloc (nat count)) (\<lambda>_ l.
          if al_size l < index \<or> length (al_array l) < al_size l + nat count then Fault OutOfBoundsAccess
          else Success () (l\<lparr>al_array := overwrite (al_array l) (index + nat count)
              (take (al_size l - index) (drop index (al_array l))),
            al_size := (al_size l + nat count) mod SIZE_MOD\<rparr>))
      else if count < 0 then
        (\<lambda>l. let scount = nat (- count); off = index + scount in
             if off < al_size l \<and> length (al_array l) < al_size l then Fault OutOfBoundsAccess
             else
               let l = (if off < al_size l
                 then l\<lparr>al_array := overwrite (al_array l) index
                   (take (al_size l - off) (drop off (al_array l)))\<rparr> else l) in
               Success () (l\<lparr>al_size := nat ((int (al_size l) - int scount) mod int SIZE_MOD)\<rparr>))
      else return_c ())"

fun arraylist_clear_loop :: "nat \<Rightarrow> nat \<Rightarrow> ('a wArrayList, 'a option list) cfun" where
  "arraylist_clear_loop index 0 l = Success [] l"
| "arraylist_clear_loop index (Suc n) l =
     (if length (al_array l) \<le> index then Fault OutOfBoundsAccess
      else
        let freed = (if fnObjectFree (al_object l) then [al_array l ! index] else []) in
        bind_c (arraylist_clear_loop (index + 1) n) (\<lambda>rest. return_c (freed @ rest))
          (l\<lparr>al_array := (al_array l)[index := None]\<rparr>))"

definition ArrayList_Clear :: "('a wArrayList, 'a option list) cfun" where
  "ArrayList_Clear l =
     bind_c (arraylist_clear_loop 0 (al_size l)) (\<lambda>freed l. Success freed (l\<lparr>al_size := 0\<rparr>)) l"

text \<open>
  The search loops: the first index from \<open>index\<close> on, with \<open>n\<close> iterations left, whose object equals
  \<open>obj\<close>.
\<close>

fun arraylist_find :: "'a option \<Rightarrow> nat \<Rightarrow> nat \<Rightarrow> ('a wArrayList, nat option) cfun" where
  "arraylist_find obj index 0 l = Success None l"
| "arraylist_find obj index (Suc n) l =
     (if length (al_array l) \<le> index then Fault OutOfBoundsAccess
      else if fnObjectEquals (al_object l) (al_array l ! index) obj then Success (Some index) l
      else arraylist_find obj (index + 1) n l)"

definition ArrayList_Contains :: "'a option \<Rightarrow> ('a wArrayList, bool) cfun" where
  "ArrayList_Contains obj l =
     bind_c (arraylist_find obj 0 (al_size l)) (\<lambda>r. return_c (r \<noteq> None)) l"

definition ArrayList_Append :: "realloc \<Rightarrow> 'a option \<Rightarrow> ('a wArrayList, unit) cfun" where
  "ArrayList_Append realloc obj =
     bind_c (ArrayList_EnsureCapacity realloc 1) (\<lambda>_ l.
       let index = al_size l in
       ArrayList_SetItem index obj (l\<lparr>al_size := (al_size l + 1) mod SIZE_MOD\<rparr>))"

text \<open>\<open>ArrayList_Insert\<close> ignores what \<open>ArrayList_SetItem\<close> returns, and does nothing past the end.\<close>

definition ArrayList_Insert :: "realloc \<Rightarrow> nat \<Rightarrow> 'a option \<Rightarrow> ('a wArrayList, unit) cfun" where
  "ArrayList_Insert realloc index obj l =
     (if index < al_size l then
        bind_c (ArrayList_Shift realloc index 1) (\<lambda>_ l.
          case ArrayList_SetItem index obj l of
            Fault e \<Rightarrow> Fault e | Failure l \<Rightarrow> Success () l | Success _ l \<Rightarrow> Success () l) l
      else Success () l)"

definition ArrayList_RemoveAt :: "realloc \<Rightarrow> nat \<Rightarrow> ('a wArrayList, 'a option list) cfun" where
  "ArrayList_RemoveAt realloc index l =
     (if index < al_size l then
        if length (al_array l) \<le> index then Fault OutOfBoundsAccess
        else
          let freed = (if fnObjectFree (al_object l) then [al_array l ! index] else []) in
          bind_c (ArrayList_Shift realloc index (- 1)) (\<lambda>_. return_c freed) l
      else Success [] l)"

definition ArrayList_Remove :: "realloc \<Rightarrow> 'a option \<Rightarrow> ('a wArrayList, 'a option list) cfun" where
  "ArrayList_Remove realloc obj l =
     bind_c (arraylist_find obj 0 (al_size l)) (\<lambda>found l.
       case found of
         None \<Rightarrow> Success [] l
       | Some index \<Rightarrow>
           let freed = (if fnObjectFree (al_object l) then [al_array l ! index] else []) in
           bind_c (ArrayList_Shift realloc index (- 1)) (\<lambda>_. return_c freed) l) l"

text \<open>The index that is returned is \<open>-1\<close> when nothing is found.\<close>

definition ArrayList_IndexOf :: "'a option \<Rightarrow> int \<Rightarrow> int \<Rightarrow> ('a wArrayList, int) cfun" where
  "ArrayList_IndexOf obj startIndex count l =
     (let sindex = (if startIndex < 0 then 0 else startIndex) in
      if count < 0 \<and> al_size l > SSIZE_MAX then Success (- 1) l
      else
        let cindex = (if count < 0 then int (al_size l) else count) in
        bind_c (arraylist_find obj (nat sindex) (nat cindex))
          (\<lambda>r. return_c (case r of None \<Rightarrow> - 1 | Some index \<Rightarrow> int index)) l)"

text \<open>The backward loop: \<open>index > sindex\<close>, comparing the object before \<open>index\<close>.\<close>

fun arraylist_find_last :: "'a option \<Rightarrow> nat \<Rightarrow> nat \<Rightarrow> ('a wArrayList, nat option) cfun" where
  "arraylist_find_last obj sindex 0 l = Success None l"
| "arraylist_find_last obj sindex (Suc n) l =
     (if length (al_array l) \<le> sindex + n then Fault OutOfBoundsAccess
      else if fnObjectEquals (al_object l) (al_array l ! (sindex + n)) obj
      then Success (Some (sindex + Suc n)) l
      else arraylist_find_last obj sindex n l)"

definition ArrayList_LastIndexOf :: "'a option \<Rightarrow> int \<Rightarrow> int \<Rightarrow> ('a wArrayList, int) cfun" where
  "ArrayList_LastIndexOf obj startIndex count l =
     (let sindex = (if startIndex < 0 then 0 else startIndex) in
      if count < 0 \<and> al_size l > SSIZE_MAX then Fault AssertionFailure
      else
        let cindex = (if count < 0 then int (al_size l) else count) in
        bind_c (arraylist_find_last obj (nat sindex) (nat cindex))
          (\<lambda>r. return_c (case r of None \<Rightarrow> - 1 | Some index \<Rightarrow> int index)) l)"

definition ArrayList_DefaultCompare :: "'a option \<Rightarrow> 'a option \<Rightarrow> bool" where
  "ArrayList_DefaultCompare objA objB \<longleftrightarrow> objA = objB"

text \<open>
  The callback of \<open>ArrayList_ForEach\<close> has the variable arguments \<open>'c\<close> and may change the list; the
  number of calls is fixed before the first one.
\<close>

type_synonym ('a, 'c) ForEachFkt =
  "'a option \<Rightarrow> nat \<Rightarrow> 'c \<Rightarrow> 'a wArrayList \<Rightarrow> bool \<times> 'c \<times> 'a wArrayList"

fun arraylist_foreach_loop :: "('a, 'c) ForEachFkt \<Rightarrow> nat \<Rightarrow> nat \<Rightarrow> 'c \<Rightarrow> ('a wArrayList, bool \<times> 'c) cfun" where
  "arraylist_foreach_loop fkt index 0 c l = Success (True, c) l"
| "arraylist_foreach_loop fkt index (Suc n) c l =
     bind_c (ArrayList_GetItem index) (\<lambda>obj l.
       case fkt obj index c l of
         (rs, c, l) \<Rightarrow>
           if rs then arraylist_foreach_loop fkt (index + 1) n c l else Success (False, c) l) l"

definition ArrayList_ForEachAP :: "('a, 'c) ForEachFkt \<Rightarrow> 'c \<Rightarrow> ('a wArrayList, bool \<times> 'c) cfun" where
  "ArrayList_ForEachAP fkt c =
     bind_c ArrayList_Count (\<lambda>count. arraylist_foreach_loop fkt 0 count c)"

definition ArrayList_ForEach :: "('a, 'c) ForEachFkt \<Rightarrow> 'c \<Rightarrow> ('a wArrayList, bool \<times> 'c) cfun" where
  "ArrayList_ForEach fkt c = ArrayList_ForEachAP fkt c"

definition ArrayList_New :: "realloc \<Rightarrow> bool \<Rightarrow> 'a wArrayList option" where
  "ArrayList_New realloc synchronized =
     (case ArrayList_EnsureCapacity realloc 32
        \<lparr>al_capacity = 0, al_growthFactor = 2, al_synchronized = synchronized, al_size = 0, al_array = [],
         al_object = \<lparr>fnObjectNew = None, fnObjectFree = False,
           fnObjectEquals = ArrayList_DefaultCompare\<rparr>\<rparr> of
        Success _ l \<Rightarrow> Some l | _ \<Rightarrow> None)"

section \<open>Invariant and contents\<close>

definition wf_al :: "'a wArrayList \<Rightarrow> bool" where
  "wf_al l \<longleftrightarrow> al_size l \<le> al_capacity l \<and> length (al_array l) = al_capacity l \<and>
     PTR_SIZE * al_capacity l < SIZE_MOD"

definition al_contents :: "'a wArrayList \<Rightarrow> 'a option list" where
  "al_contents l = take (al_size l) (al_array l)"

text \<open>That the array can be enlarged by \<open>n\<close> entries without leaving the range of \<open>size_t\<close>.\<close>

definition al_growable :: "nat \<Rightarrow> 'a wArrayList \<Rightarrow> bool" where
  "al_growable n l \<longleftrightarrow> PTR_SIZE * (al_capacity l * al_growthFactor l) < SIZE_MOD \<and>
     PTR_SIZE * (al_size l + n) < SIZE_MOD"

lemma length_al_contents [simp]: "wf_al l \<Longrightarrow> length (al_contents l) = al_size l"
  by (simp add: al_contents_def wf_al_def)

lemma al_contents_nth: "wf_al l \<Longrightarrow> i < al_size l \<Longrightarrow> al_contents l ! i = al_array l ! i"
  by (simp add: al_contents_def)

lemma ArrayList_GetItem_ok:
  "wf_al l \<Longrightarrow> ArrayList_GetItem i l =
     Success (if i < length (al_contents l) then al_contents l ! i else None) l"
  by (simp add: ArrayList_GetItem_def al_contents_nth) (simp add: wf_al_def)

lemma ArrayList_SetItem_ok:
  fixes obj :: "'a option"
  assumes "wf_al l" "i < al_size l"
  defines "t \<equiv> l\<lparr>al_array := (al_array l)[i := stored (al_object l) obj]\<rparr>"
  shows "ArrayList_SetItem i obj l = (if copies (al_object l) obj then Success () t else Failure t)"
    "wf_al t" "al_contents t = (al_contents l)[i := stored (al_object l) obj]"
  using assms(1,2) unfolding t_def
  by (auto simp: ArrayList_SetItem_def wf_al_def al_contents_def copies_def stored_def take_update_swap
      split: option.splits)

text \<open>Enlarging the array changes neither the contents nor the callbacks.\<close>

definition al_same :: "'a wArrayList \<Rightarrow> 'a wArrayList \<Rightarrow> bool" where
  "al_same l t \<longleftrightarrow> wf_al t \<and> al_contents t = al_contents l \<and> al_size t = al_size l \<and>
     al_object t = al_object l \<and> al_growthFactor t = al_growthFactor l"

lemma ArrayList_EnsureCapacity_ok:
  assumes wf: "wf_al l" and g: "al_growable n l" and "0 < n"
    and mem: "ArrayList_EnsureCapacity realloc n l \<noteq> Failure l"
  obtains t where "ArrayList_EnsureCapacity realloc n l = Success () t" "al_same l t"
    "al_size l + n \<le> al_capacity t"
proof -
  have m: "(al_size l + n) mod SIZE_MOD = al_size l + n"
    "(al_capacity l * al_growthFactor l) mod SIZE_MOD = al_capacity l * al_growthFactor l"
    using g by (simp_all add: al_growable_def)
  show ?thesis
  proof (cases "al_size l + n > al_capacity l")
    case False
    with that [of l] wf m \<open>0 < n\<close> show ?thesis
      by (simp add: ArrayList_EnsureCapacity_def al_same_def)
  next
    case True
    define c where "c = max (al_capacity l * al_growthFactor l) (al_size l + n)"
    let ?t = "l\<lparr>al_array := realloc_block (al_array l) c None, al_capacity := c\<rparr>"
    have c3: "al_size l + n \<le> c" by (simp add: c_def)
    have c: "PTR_SIZE * c < SIZE_MOD" "al_capacity l < c" "al_size l + n \<le> c"
      using g order.strict_trans2 [OF True c3] c3 by (simp_all add: c_def al_growable_def)
    have "take (al_size l) (realloc_block (al_array l) c None) = take (al_size l) (al_array l)"
      using wf c by (simp add: realloc_block_def wf_al_def)
    then have "al_same l ?t" using wf c by (simp add: al_same_def wf_al_def al_contents_def)
    moreover have "ArrayList_EnsureCapacity realloc n l =
        (if realloc (PTR_SIZE * c) then Success () ?t else Failure l)"
      using True \<open>0 < n\<close> m [simplified] c(1)
      by (auto simp: ArrayList_EnsureCapacity_def Let_def c_def max_def)
    ultimately show ?thesis using that [of ?t] c mem by (auto split: if_splits)
  qed
qed

text \<open>It is refused only when the array is full and the allocator has no memory.\<close>

lemma ArrayList_EnsureCapacity_refused:
  assumes "al_growable n l" "0 < n" "al_size l + n \<le> al_capacity l \<or> (\<forall>k. realloc k)"
  shows "ArrayList_EnsureCapacity realloc n l \<noteq> Failure l"
proof -
  have "(al_size l + n) mod SIZE_MOD = al_size l + n" using assms(1) by (simp add: al_growable_def)
  with assms show ?thesis by (auto simp: ArrayList_EnsureCapacity_def Let_def)
qed

lemma ArrayList_Append_ok:
  assumes wf: "wf_al l" and g: "al_growable 1 l" and mem: "ArrayList_EnsureCapacity realloc 1 l \<noteq> Failure l"
    and c: "copies (al_object l) obj"
  obtains t where "ArrayList_Append realloc obj l = Success () t" "wf_al t"
    "al_contents t = al_contents l @ [stored (al_object l) obj]" "al_object t = al_object l"
proof -
  obtain r where r: "ArrayList_EnsureCapacity realloc 1 l = Success () r" "al_same l r"
    "al_size l + 1 \<le> al_capacity r"
    by (rule ArrayList_EnsureCapacity_ok [OF wf g zero_less_one mem])
  let ?r = "r\<lparr>al_size := al_size l + 1\<rparr>"
  have sz: "al_size r = al_size l" using r(2) by (simp add: al_same_def)
  have m: "(al_size l + 1) mod SIZE_MOD = al_size l + 1"
    using g by (intro mod_less) (simp add: al_growable_def)
  have "wf_al ?r" "al_size l < al_size ?r" using r by (simp_all add: al_same_def wf_al_def)
  note s = ArrayList_SetItem_ok [OF this, of obj]
  have "(take (Suc (al_size l)) xs)[al_size l := x] = take (al_size l) xs @ [x]"
    if "al_size l < length xs" for xs :: "'a option list" and x
    using that by (simp add: take_Suc_conv_app_nth list_update_append)
  moreover have "take (al_size l) (al_array r) = take (al_size l) (al_array l)"
    using r(2) sz by (simp add: al_same_def al_contents_def)
  ultimately have "al_contents (?r\<lparr>al_array := (al_array ?r)[al_size l := stored (al_object ?r) obj]\<rparr>) =
      al_contents l @ [stored (al_object l) obj]"
    using r s(3) by (simp add: al_same_def wf_al_def al_contents_def)
  moreover have "ArrayList_Append realloc obj l =
      Success () (?r\<lparr>al_array := (al_array ?r)[al_size l := stored (al_object ?r) obj]\<rparr>)"
    unfolding ArrayList_Append_def bind_c_def r(1) outcome.case Let_def sz m
    using s(1) c r(2) by (simp add: al_same_def)
  ultimately show ?thesis using that s(2) r(2) by (simp add: al_same_def)
qed

lemma shift_up:
  assumes "i \<le> n" "n < length xs"
  shows "take (Suc n) ((overwrite xs (Suc i) (take (n - i) (drop i xs)))[i := x]) =
    take i xs @ x # take (n - i) (drop i xs)"
proof -
  have "overwrite xs (Suc i) (take (n - i) (drop i xs)) = take (Suc i) xs @ take (n - i) (drop i xs) @ drop (Suc n) xs"
    using assms by (simp add: overwrite_def)
  also have "\<dots>[i := x] = take i xs @ x # take (n - i) (drop i xs) @ drop (Suc n) xs"
    using assms by (simp add: take_Suc_conv_app_nth list_update_append)
  finally show ?thesis using assms by (simp add: Suc_diff_le)
qed

lemma shift_down:
  assumes "i < n" "n \<le> length xs"
  shows "take (n - 1) (if i + 1 < n then overwrite xs i (take (n - (i + 1)) (drop (i + 1) xs)) else xs) =
    take i xs @ take (n - (i + 1)) (drop (i + 1) xs)"
proof (cases "i + 1 < n")
  case True
  with assms show ?thesis by (simp add: overwrite_def)
next
  case False
  then have "n = i + 1" using assms by simp
  then show ?thesis by simp
qed

lemma insert_take:
  "i \<le> n \<Longrightarrow> n \<le> length xs \<Longrightarrow> take i (take n xs) @ x # drop i (take n xs) = take i xs @ x # take (n - i) (drop i xs)"
  by (simp add: min_def drop_take)

lemma ArrayList_Insert_ok:
  assumes wf: "wf_al l" and g: "al_growable 1 l" and i: "i < al_size l"
    and mem: "ArrayList_EnsureCapacity realloc 1 l \<noteq> Failure l"
  obtains t where "ArrayList_Insert realloc i obj l = Success () t" "wf_al t"
    "al_contents t = take i (al_contents l) @ stored (al_object l) obj # drop i (al_contents l)"
    "al_object t = al_object l"
proof -
  obtain r where r: "ArrayList_EnsureCapacity realloc 1 l = Success () r" "al_same l r"
    "al_size l + 1 \<le> al_capacity r"
    by (rule ArrayList_EnsureCapacity_ok [OF wf g zero_less_one mem])
  let ?r = "r\<lparr>al_array := overwrite (al_array r) (Suc i) (take (al_size l - i) (drop i (al_array r))),
    al_size := Suc (al_size l)\<rparr>"
  have sz: "al_size r = al_size l" and len: "al_size l < length (al_array r)"
    using r(2,3) by (simp_all add: al_same_def wf_al_def)
  have m: "(al_size l + 1) mod SIZE_MOD = Suc (al_size l)"
    using g by (subst mod_less) (simp_all add: al_growable_def)
  have sh: "ArrayList_Shift realloc i 1 l = Success () ?r"
    using r(1) m [simplified] sz len i by (simp add: ArrayList_Shift_def bind_c_def)
  have "wf_al ?r" "i < al_size ?r" using r i len by (simp_all add: al_same_def wf_al_def)
  note s = ArrayList_SetItem_ok [OF this, of obj]
  let ?t = "?r\<lparr>al_array := (al_array ?r)[i := stored (al_object ?r) obj]\<rparr>"
  have "take (al_size l) (al_array r) = take (al_size l) (al_array l)"
    using r(2) sz by (simp add: al_same_def al_contents_def)
  then have "al_contents ?t = take i (al_contents l) @ stored (al_object l) obj # drop i (al_contents l)"
    using shift_up [of i "al_size l" "al_array r" "stored (al_object l) obj"]
      insert_take [of i "al_size l" "al_array r" "stored (al_object l) obj"] len i r(2)
    by (simp add: al_contents_def al_same_def)
  moreover have "ArrayList_Insert realloc i obj l = Success () ?t"
    using i s(1) by (simp add: ArrayList_Insert_def bind_c_def sh)
  ultimately show ?thesis using that s(2) r(2) by (simp add: al_same_def)
qed

lemma ArrayList_Shift_down_ok:
  assumes wf: "wf_al l" and i: "i < al_size l"
  obtains t where "ArrayList_Shift realloc i (- 1) l = Success () t" "wf_al t"
    "al_contents t = take i (al_contents l) @ drop (Suc i) (al_contents l)" "al_object t = al_object l"
proof -
  let ?a = "if i + 1 < al_size l
    then overwrite (al_array l) i (take (al_size l - (i + 1)) (drop (i + 1) (al_array l))) else al_array l"
  let ?t = "l\<lparr>al_array := ?a, al_size := al_size l - 1\<rparr>"
  have b: "al_size l \<le> length (al_array l)" "al_size l < SIZE_MOD" using wf by (auto simp: wf_al_def)
  have "(int (al_size l) - int 1) mod int SIZE_MOD = int (al_size l - 1)"
    using b i by (subst mod_pos_pos_trivial) auto
  then have m: "nat ((int (al_size l) - int 1) mod int SIZE_MOD) = al_size l - 1" by simp
  have n: "nat (- (- 1)) = (1 :: nat)" by simp
  have "ArrayList_Shift realloc i (- 1) l = Success () ?t"
    unfolding ArrayList_Shift_def n Let_def using b m by auto
  moreover have "wf_al ?t" using wf b by (auto simp: wf_al_def)
  moreover have "al_contents ?t = take i (al_contents l) @ drop (Suc i) (al_contents l)"
    using shift_down [of i "al_size l" "al_array l"] b i by (simp add: al_contents_def drop_take min_def)
  ultimately show ?thesis using that by simp
qed

lemma ArrayList_RemoveAt_ok:
  assumes wf: "wf_al l" and i: "i < al_size l"
  obtains t where "ArrayList_RemoveAt realloc i l =
      Success (if fnObjectFree (al_object l) then [al_contents l ! i] else []) t" "wf_al t"
    "al_contents t = take i (al_contents l) @ drop (Suc i) (al_contents l)" "al_object t = al_object l"
proof -
  obtain t where t: "ArrayList_Shift realloc i (- 1) l = Success () t" "wf_al t"
    "al_contents t = take i (al_contents l) @ drop (Suc i) (al_contents l)" "al_object t = al_object l"
    using ArrayList_Shift_down_ok [OF assms] by blast
  moreover have "\<not> length (al_array l) \<le> i" using assms by (simp add: wf_al_def)
  ultimately show ?thesis using that [of t] i al_contents_nth [OF assms]
    by (simp add: ArrayList_RemoveAt_def bind_c_def return_c_def Let_def)
qed


text \<open>The searches return the first position of an equal object.\<close>

fun first_index :: "('a \<Rightarrow> bool) \<Rightarrow> 'a list \<Rightarrow> nat option" where
  "first_index p [] = None"
| "first_index p (x # xs) = (if p x then Some 0 else map_option Suc (first_index p xs))"

lemma first_index_None: "first_index p xs = None \<longleftrightarrow> (\<forall>x \<in> set xs. \<not> p x)"
  by (induction xs) auto

lemma first_index_Some: "first_index p xs = Some i \<Longrightarrow> i < length xs \<and> p (xs ! i) \<and> (\<forall>j < i. \<not> p (xs ! j))"
  by (induction xs arbitrary: i) (auto simp: less_Suc_eq_0_disj split: if_splits)

lemma arraylist_find_ok:
  "index + n \<le> length (al_array l) \<Longrightarrow> arraylist_find obj index n l =
     Success (map_option ((+) index)
       (first_index (\<lambda>x. fnObjectEquals (al_object l) x obj) (take n (drop index (al_array l))))) l"
proof (induction n arbitrary: index)
  case (Suc n)
  have "take (Suc n) (drop index (al_array l)) = al_array l ! index # take n (drop (index + 1) (al_array l))"
    using Suc.prems by (simp add: Cons_nth_drop_Suc [symmetric])
  with Suc show ?case by (auto simp: option.map_comp comp_def)
qed simp

lemma arraylist_find_contents:
  assumes "wf_al l"
  shows "arraylist_find obj 0 (al_size l) l =
    Success (first_index (\<lambda>x. fnObjectEquals (al_object l) x obj) (al_contents l)) l"
  using arraylist_find_ok [of 0 "al_size l" l obj] assms
  by (simp add: wf_al_def al_contents_def option.map_ident_strong)

lemma ArrayList_Contains_ok:
  "wf_al l \<Longrightarrow> ArrayList_Contains obj l =
     Success (\<exists>x \<in> set (al_contents l). fnObjectEquals (al_object l) x obj) l"
  using first_index_None [of "\<lambda>x. fnObjectEquals (al_object l) x obj" "al_contents l"]
  by (auto simp: ArrayList_Contains_def bind_c_def return_c_def arraylist_find_contents)

lemma ArrayList_Remove_ok:
  assumes wf: "wf_al l"
  shows "\<exists>t. ArrayList_Remove realloc obj l = Success (case first_index (\<lambda>x. fnObjectEquals (al_object l) x obj) (al_contents l) of
        Some i \<Rightarrow> if fnObjectFree (al_object l) then [al_contents l ! i] else [] | None \<Rightarrow> []) t \<and> wf_al t \<and>
    al_contents t = (case first_index (\<lambda>x. fnObjectEquals (al_object l) x obj) (al_contents l) of
      None \<Rightarrow> al_contents l | Some i \<Rightarrow> take i (al_contents l) @ drop (Suc i) (al_contents l))"
proof (cases "first_index (\<lambda>x. fnObjectEquals (al_object l) x obj) (al_contents l)")
  case None
  with wf show ?thesis by (simp add: ArrayList_Remove_def bind_c_def arraylist_find_contents)
next
  case (Some i)
  then have i: "i < al_size l" using first_index_Some [OF Some] wf by simp
  obtain t where "ArrayList_Shift realloc i (- 1) l = Success () t" "wf_al t"
    "al_contents t = take i (al_contents l) @ drop (Suc i) (al_contents l)"
    using ArrayList_Shift_down_ok [OF wf i] by blast
  with Some wf i show ?thesis
    by (simp add: ArrayList_Remove_def bind_c_def return_c_def arraylist_find_contents al_contents_nth)
qed

lemma ArrayList_IndexOf_ok:
  assumes "wf_al l"
  shows "ArrayList_IndexOf obj (- 1) (- 1) l =
    Success (case first_index (\<lambda>x. fnObjectEquals (al_object l) x obj) (al_contents l) of
      None \<Rightarrow> - 1 | Some i \<Rightarrow> int i) l"
proof -
  have "\<not> al_size l > SSIZE_MAX" using assms by (simp add: wf_al_def)
  with arraylist_find_contents [OF assms, of obj] show ?thesis
    by (simp add: ArrayList_IndexOf_def bind_c_def return_c_def)
qed

lemma arraylist_clear_loop_ok:
  "index + n \<le> length (al_array l) \<Longrightarrow>
     \<exists>arr. length arr = length (al_array l) \<and> arraylist_clear_loop index n l =
       Success (if fnObjectFree (al_object l) then take n (drop index (al_array l)) else [])
         (l\<lparr>al_array := arr\<rparr>)"
proof (induction n arbitrary: index l)
  case 0
  then show ?case by (auto intro!: exI [of _ "al_array l"])
next
  case (Suc n)
  let ?l = "l\<lparr>al_array := (al_array l)[index := None]\<rparr>"
  obtain arr where "length arr = length (al_array l)" "arraylist_clear_loop (index + 1) n ?l =
      Success (if fnObjectFree (al_object l) then take n (drop (index + 1) (al_array l)) else [])
        (?l\<lparr>al_array := arr\<rparr>)"
    using Suc.IH [of "index + 1" ?l] Suc.prems by auto
  moreover have "take (Suc n) (drop index (al_array l)) =
      al_array l ! index # take n (drop (index + 1) (al_array l))"
    using Suc.prems by (simp add: Cons_nth_drop_Suc [symmetric])
  ultimately show ?case using Suc.prems by (auto simp: bind_c_def return_c_def Let_def)
qed

lemma ArrayList_Clear_ok:
  assumes "wf_al l"
  shows "\<exists>t. ArrayList_Clear l = Success (if fnObjectFree (al_object l) then al_contents l else []) t \<and>
    wf_al t \<and> al_contents t = []"
  using arraylist_clear_loop_ok [of 0 "al_size l" l] assms
  by (auto simp: ArrayList_Clear_def bind_c_def wf_al_def al_contents_def)

text \<open>
  A callback that leaves the list alone is called with the objects in their order, up to the first
  call that returns \<open>FALSE\<close>.
\<close>

fun visit :: "('a option \<Rightarrow> nat \<Rightarrow> 'c \<Rightarrow> bool \<times> 'c) \<Rightarrow> nat \<Rightarrow> 'a option list \<Rightarrow> 'c \<Rightarrow> bool \<times> 'c" where
  "visit f i [] c = (True, c)"
| "visit f i (x # xs) c = (case f x i c of (rs, c') \<Rightarrow> if rs then visit f (i + 1) xs c' else (False, c'))"

lemma foreach_loop_ok:
  assumes "wf_al l"
  shows "index + n = al_size l \<Longrightarrow> arraylist_foreach_loop (\<lambda>x i c l. case f x i c of (rs, c) \<Rightarrow> (rs, c, l)) index n c l =
    Success (visit f index (drop index (al_contents l)) c) l"
proof (induction n arbitrary: index c)
  case (Suc n)
  then have i: "index < length (al_contents l)" using assms by simp
  then have "drop index (al_contents l) = al_contents l ! index # drop (index + 1) (al_contents l)"
    by (simp add: Cons_nth_drop_Suc)
  with Suc i assms show ?case
    by (cases "f (al_contents l ! index) index c") (simp add: bind_c_def ArrayList_GetItem_ok)
qed (use assms in simp)

lemma ArrayList_ForEach_ok:
  "wf_al l \<Longrightarrow> ArrayList_ForEach (\<lambda>x i c l. case f x i c of (rs, c) \<Rightarrow> (rs, c, l)) c l =
     Success (visit f 0 (al_contents l) c) l"
  using foreach_loop_ok [of l 0 "al_size l" f c]
  by (simp add: ArrayList_ForEach_def ArrayList_ForEachAP_def ArrayList_Count_def bind_c_def)

lemma ArrayList_New_ok:
  assumes "realloc (PTR_SIZE * 32)"
  shows "\<exists>l. ArrayList_New realloc sync = Some l \<and> wf_al l \<and> al_contents l = []"
  using assms by (simp add: ArrayList_New_def ArrayList_EnsureCapacity_def wf_al_def al_contents_def)

section \<open>The array list as a sequence\<close>

definition al_plain :: "'a wArrayList \<Rightarrow> bool" where
  "al_plain l \<longleftrightarrow> wf_al l \<and> fnObjectNew (al_object l) = None"

definition state_of :: "('s, 'a) outcome \<Rightarrow> 's option" where
  "state_of r = (case r of Success _ t \<Rightarrow> Some t | _ \<Rightarrow> None)"

definition al_add :: "realloc \<Rightarrow> 'a option \<Rightarrow> 'a wArrayList \<Rightarrow> 'a wArrayList option" where
  "al_add realloc obj l = (if al_growable 1 l then state_of (ArrayList_Append realloc obj l) else None)"

definition al_insert :: "realloc \<Rightarrow> nat \<Rightarrow> 'a option \<Rightarrow> 'a wArrayList \<Rightarrow> 'a wArrayList option" where
  "al_insert realloc i obj l =
     (if al_growable 1 l then state_of (ArrayList_Insert realloc i obj l) else None)"

definition al_delete :: "realloc \<Rightarrow> nat \<Rightarrow> 'a wArrayList \<Rightarrow> 'a wArrayList option" where
  "al_delete realloc i l = state_of (ArrayList_RemoveAt realloc i l)"

lemma plain_stored: "al_plain l \<Longrightarrow> stored (al_object l) x = x \<and> copies (al_object l) x"
  by (simp add: al_plain_def stored_def copies_def)

interpretation arraylist: sequence al_contents al_plain "al_add realloc" "al_insert realloc" "al_delete realloc"
  for realloc
proof unfold_locales
  fix s t :: "'a wArrayList" and x i
  assume inv: "al_plain s"
  then have wf: "wf_al s" by (simp add: al_plain_def)
  show "al_plain t \<and> al_contents t = seq_spec (Add x) (al_contents s)" if add: "al_add realloc x s = Some t"
  proof -
    have g: "al_growable 1 s" using add by (simp add: al_add_def split: if_splits)
    have "ArrayList_EnsureCapacity realloc 1 s \<noteq> Failure s"
      using add by (auto simp: al_add_def state_of_def ArrayList_Append_def bind_c_def split: if_splits)
    then obtain u where "ArrayList_Append realloc x s = Success () u" "wf_al u"
      "al_contents u = al_contents s @ [stored (al_object s) x]" "al_object u = al_object s"
      by (rule ArrayList_Append_ok [OF wf g _ conjunct2 [OF plain_stored [OF inv]]])
    with add g inv show ?thesis by (simp add: al_add_def state_of_def al_plain_def plain_stored)
  qed
  show "al_plain t \<and> al_contents t = seq_spec (InsertAt i x) (al_contents s)"
    if ins: "al_insert realloc i x s = Some t"
  proof (cases "i < al_size s")
    case False
    with ins inv wf show ?thesis
      by (auto simp: al_insert_def state_of_def ArrayList_Insert_def split: if_splits)
  next
    case True
    have g: "al_growable 1 s" using ins by (simp add: al_insert_def split: if_splits)
    have "ArrayList_EnsureCapacity realloc 1 s \<noteq> Failure s"
      using ins True by (auto simp: al_insert_def state_of_def ArrayList_Insert_def ArrayList_Shift_def
          bind_c_def split: if_splits)
    then obtain u where "ArrayList_Insert realloc i x s = Success () u" "wf_al u"
      "al_contents u = take i (al_contents s) @ stored (al_object s) x # drop i (al_contents s)"
      "al_object u = al_object s"
      by (rule ArrayList_Insert_ok [OF wf g True])
    with ins g inv True wf show ?thesis by (simp add: al_insert_def state_of_def al_plain_def plain_stored)
  qed
  show "al_plain t \<and> al_contents t = seq_spec (DeleteAt i) (al_contents s)"
    if del: "al_delete realloc i s = Some t"
  proof (cases "i < al_size s")
    case False
    with del inv wf show ?thesis by (simp add: al_delete_def state_of_def ArrayList_RemoveAt_def)
  next
    case True
    then obtain freed u where "ArrayList_RemoveAt realloc i s = Success freed u" "wf_al u"
      "al_contents u = take i (al_contents s) @ drop (Suc i) (al_contents s)" "al_object u = al_object s"
      using ArrayList_RemoveAt_ok [OF wf True, of realloc] by metis
    with del inv show ?thesis by (simp add: al_delete_def state_of_def al_plain_def)
  qed
qed

section \<open>Properties\<close>

text \<open>
  C15: over any sequence of appends, insertions and removals by index the array list holds what the same
  operations make of the list of its contents, across every growth of the array; the invariant is kept.
\<close>

theorem arraylist_is_sequence:
  assumes "al_plain l" "seq_run (al_add realloc) (al_insert realloc) (al_delete realloc) ops l = Some t"
  shows "al_plain t \<and> al_contents t = fold seq_spec ops (al_contents l)"
  using arraylist.seq_refines [OF assms(2,1)] .

abbreviation sample_al :: "nat wArrayList" where
  "sample_al \<equiv> \<lparr>al_capacity = 2, al_growthFactor = 2, al_synchronized = False, al_size = 2,
     al_array = [Some 1, Some 2], al_object = \<lparr>fnObjectNew = None, fnObjectFree = True,
       fnObjectEquals = ArrayList_DefaultCompare\<rparr>\<rparr>"

lemma sample_al_ok: "al_plain sample_al" "wf_al sample_al" "al_contents sample_al = [Some 1, Some 2]"
  by (simp_all add: al_plain_def wf_al_def al_contents_def)

theorem arraylist_is_sequence_witness:
  "\<exists>t. seq_run (al_add (\<lambda>_. True)) (al_insert (\<lambda>_. True)) (al_delete (\<lambda>_. True))
      [InsertAt 1 (Some 7), Add (Some 8), DeleteAt 0] sample_al = Some t \<and>
    al_contents t = [Some 7, Some 2, Some 8]"
proof -
  obtain t where t: "seq_run (al_add (\<lambda>_. True)) (al_insert (\<lambda>_. True)) (al_delete (\<lambda>_. True))
      [InsertAt 1 (Some 7), Add (Some 8), DeleteAt 0] sample_al = Some t"
    by (simp add: al_add_def al_insert_def al_delete_def state_of_def al_growable_def
        ArrayList_Append_def ArrayList_Insert_def ArrayList_RemoveAt_def ArrayList_Shift_def
        ArrayList_SetItem_def ArrayList_EnsureCapacity_def realloc_block_def overwrite_def c_simps Let_def)
  from arraylist_is_sequence [OF sample_al_ok(1) t] t show ?thesis unfolding sample_al_ok(3) by simp
qed

text \<open>
  C16: the searches agree with the contents (membership, first position, removal of the first equal
  object), \<open>ArrayList_Clear\<close> empties the list and frees every object once when there is a destructor,
  and \<open>ArrayList_ForEach\<close> calls a callback that leaves the list alone on the objects in order, up to the
  first refusal.
\<close>

theorem arraylist_searches:
  assumes "wf_al l"
  defines "eq \<equiv> (\<lambda>obj x. fnObjectEquals (al_object l) x obj)"
  shows "ArrayList_Contains obj l = Success (\<exists>x \<in> set (al_contents l). eq obj x) l \<and>
    ArrayList_IndexOf obj (- 1) (- 1) l =
      Success (case first_index (eq obj) (al_contents l) of None \<Rightarrow> - 1 | Some i \<Rightarrow> int i) l \<and>
    (\<exists>freed t. ArrayList_Remove realloc obj l = Success freed t \<and> wf_al t \<and>
      al_contents t = (case first_index (eq obj) (al_contents l) of
        None \<Rightarrow> al_contents l | Some i \<Rightarrow> take i (al_contents l) @ drop (Suc i) (al_contents l))) \<and>
    (\<exists>t. ArrayList_Clear l = Success (if fnObjectFree (al_object l) then al_contents l else []) t \<and>
      wf_al t \<and> al_contents t = []) \<and>
    ArrayList_ForEach (\<lambda>x i c l. case f x i c of (rs, c) \<Rightarrow> (rs, c, l)) c l =
      Success (visit f 0 (al_contents l) c) l"
  using ArrayList_Contains_ok [OF assms(1)] ArrayList_IndexOf_ok [OF assms(1)]
    ArrayList_Remove_ok [OF assms(1), of realloc obj] ArrayList_Clear_ok [OF assms(1)]
    ArrayList_ForEach_ok [OF assms(1), of f c]
  unfolding eq_def by blast

theorem arraylist_searches_witness:
  "ArrayList_IndexOf (Some 2) (- 1) (- 1) sample_al = Success 1 sample_al"
  using arraylist_searches [OF sample_al_ok(2), of "Some 2" "\<lambda>_. True" "\<lambda>_ _ c. (True, c)" "()"]
  unfolding sample_al_ok(3) by (simp add: ArrayList_DefaultCompare_def)

text \<open>
  \<open>ArrayList_LastIndexOf\<close> is documented to return the zero-based index of the last occurrence; it
  returns the index behind it.
\<close>

theorem arraylist_last_index_off_by_one:
  "ArrayList_LastIndexOf (Some 1) (- 1) (- 1) sample_al = Success 1 sample_al \<and>
   al_contents sample_al ! 0 = Some 1 \<and> al_contents sample_al ! 1 \<noteq> Some 1"
  by (simp add: ArrayList_LastIndexOf_def ArrayList_DefaultCompare_def c_simps al_contents_def
      Let_def numeral_2_eq_2)

text \<open>
  Without a count, \<open>ArrayList_IndexOf\<close> searches as many entries as the list has from the start index
  on, so a start index above zero reads behind the contents and here behind the array.
\<close>

theorem arraylist_index_of_out_of_bounds:
  "ArrayList_IndexOf (Some 3) 1 (- 1) sample_al = Fault OutOfBoundsAccess"
  by (simp add: ArrayList_IndexOf_def ArrayList_DefaultCompare_def c_simps Let_def numeral_2_eq_2)

text \<open>\<open>ArrayList_Insert\<close> reports success for an index past the end without inserting.\<close>

theorem arraylist_insert_past_end:
  "al_size l \<le> i \<Longrightarrow> ArrayList_Insert realloc i obj l = Success () l"
  by (simp add: ArrayList_Insert_def)

text \<open>An append whose \<open>fnObjectNew\<close> fails reports failure and leaves a null entry behind.\<close>

theorem arraylist_append_failed_copy:
  "\<exists>t. ArrayList_Append (\<lambda>_. True) (Some 3) (sample_al\<lparr>al_object := \<lparr>fnObjectNew = Some (\<lambda>_. None),
      fnObjectFree = True, fnObjectEquals = ArrayList_DefaultCompare\<rparr>\<rparr>) = Failure t \<and>
    al_contents t = [Some 1, Some 2, None]"
  by (simp add: ArrayList_Append_def ArrayList_SetItem_def ArrayList_EnsureCapacity_def
      realloc_block_def c_simps Let_def al_contents_def)

end
