(* ===== verification/WHashTable.thy ===== *)
theory WHashTable
  imports Containers Complex_Main "HOL-Library.Multiset"
begin

text \<open>
  The hash table of \<open>winpr/libwinpr/utils/collections/HashTable.c\<close>.

  A bucket is the list of its pairs, from the head of the chain on. Keys and values are pointers:
  equality of the model is pointer equality, and the callbacks \<open>hash\<close>, \<open>fnObjectEquals\<close> and
  \<open>fnObjectNew\<close> are arbitrary functions. What \<open>fnObjectFree\<close> is called on is a result. The ratios are
  rational numbers and \<open>fround\<close>, an argument of the functions that compute with \<open>float\<close>, is the
  rounding of the machine; \<open>float_ok\<close> is what the lemmas assume of it. Whether memory is there is the argument \<open>mem\<close>.
\<close>

section \<open>The functions of HashTable.c\<close>

record ('k, 'v) wKeyValuePair =
  kv_key :: "'k option"
  kv_value :: "'v option"
  kv_markedForRemove :: bool

record ('k, 'v) wHashTable =
  ht_synchronized :: bool
  ht_numOfBuckets :: nat
  ht_numOfElements :: nat
  ht_idealRatio :: rat
  ht_lowerRehashThreshold :: rat
  ht_upperRehashThreshold :: rat
  ht_bucketArray :: "('k, 'v) wKeyValuePair list list"
  ht_hash :: "'k option \<Rightarrow> 32 word"
  ht_key :: "'k wObject"
  ht_value :: "'v wObject"
  ht_foreachRecursionLevel :: "32 word"
  ht_pendingRemoves :: "32 word"

definition HashTable_PointerCompare :: "'a option \<Rightarrow> 'a option \<Rightarrow> bool" where
  "HashTable_PointerCompare pointer1 pointer2 \<longleftrightarrow> pointer1 = pointer2"

definition HashTable_PointerHash :: "64 word \<Rightarrow> 32 word" where
  "HashTable_PointerHash pointer = drop_bit 4 (ucast pointer)"

text \<open>\<open>str\<close> gives the bytes behind a pointer, without the terminating zero.\<close>

definition HashTable_StringCompare :: "('k \<Rightarrow> byte list) \<Rightarrow> 'k option \<Rightarrow> 'k option \<Rightarrow> bool" where
  "HashTable_StringCompare str string1 string2 \<longleftrightarrow>
     (case (string1, string2) of
        (Some a, Some b) \<Rightarrow> str a = str b
      | _ \<Rightarrow> string1 = string2)"

definition HashTable_StringHash :: "byte list \<Rightarrow> 32 word" where
  "HashTable_StringHash str = foldl (\<lambda>hash c. hash * 33 + ucast c) 5381 str"

text \<open>The loop \<open>for (size_t i = 3; i < 51; i += 2)\<close>.\<close>

function probable_prime_loop :: "nat \<Rightarrow> nat \<Rightarrow> bool" where
  "probable_prime_loop oddNumber i =
     (if i < 51 then
        if oddNumber = i then True
        else if oddNumber mod i = 0 then False
        else probable_prime_loop oddNumber (i + 2)
      else True)"
  by pat_completeness auto
termination by (relation "measure (\<lambda>(_, i). 51 - i)") auto

declare probable_prime_loop.simps [simp del]

definition HashTable_IsProbablePrime :: "nat \<Rightarrow> bool" where
  "HashTable_IsProbablePrime oddNumber = probable_prime_loop oddNumber 3"

text \<open>The loop that looks for the next number of buckets; \<open>None\<close> is a loop that does not end.\<close>

partial_function (option) next_probable_prime :: "nat \<Rightarrow> nat option" where
  "next_probable_prime n =
     (if HashTable_IsProbablePrime n then Some n else next_probable_prime ((n + 2) mod SIZE_MOD))"

definition HashTable_CalculateIdealNumOfBuckets ::
  "(rat \<Rightarrow> rat) \<Rightarrow> (('k, 'v) wHashTable, nat) cfun" where
  "HashTable_CalculateIdealNumOfBuckets fround t =
     (let numOfElements = fround (of_nat (ht_numOfElements t));
          tmp = fround (numOfElements / ht_idealRatio t);
          ideal = nat \<lfloor>tmp\<rfloor>;
          ideal = (if ideal < 5 then 5 else ideal OR 1) in
      case next_probable_prime ideal of None \<Rightarrow> Fault NonTermination | Some n \<Rightarrow> Success n t)"

text \<open>A pair goes to the head of its new bucket.\<close>

definition rehash_pair :: "('k option \<Rightarrow> 32 word) \<Rightarrow> nat \<Rightarrow> ('k, 'v) wKeyValuePair \<Rightarrow>
  ('k, 'v) wKeyValuePair list list \<Rightarrow> ('k, 'v) wKeyValuePair list list" where
  "rehash_pair hash numOfBuckets pair bs =
     (let hashValue = unat (hash (kv_key pair)) mod numOfBuckets in
      bs[hashValue := pair # bs ! hashValue])"

definition HashTable_Rehash :: "(rat \<Rightarrow> rat) \<Rightarrow> realloc \<Rightarrow> nat \<Rightarrow> (('k, 'v) wHashTable, unit) cfun" where
  "HashTable_Rehash fround mem numOfBuckets =
     bind_c (if numOfBuckets = 0 then HashTable_CalculateIdealNumOfBuckets fround
             else return_c numOfBuckets) (\<lambda>numOfBuckets t.
       if numOfBuckets = ht_numOfBuckets t then Success () t
       else if \<not> mem (numOfBuckets * PTR_SIZE) then Success () t
       else Success () (t\<lparr>ht_bucketArray := fold (rehash_pair (ht_hash t) numOfBuckets)
           (concat (ht_bucketArray t)) (replicate numOfBuckets []),
         ht_numOfBuckets := numOfBuckets\<rparr>))"

definition HashTable_Equals :: "('k, 'v) wHashTable \<Rightarrow> ('k, 'v) wKeyValuePair \<Rightarrow> 'k option \<Rightarrow> bool" where
  "HashTable_Equals t pair key = fnObjectEquals (ht_key t) key (kv_key pair)"

text \<open>The bucket of a key. A table without buckets divides by zero.\<close>

definition bucket_of :: "'k option \<Rightarrow> (('k, 'v) wHashTable, nat) cfun" where
  "bucket_of key t =
     (if ht_numOfBuckets t = 0 then Fault AssertionFailure
      else
        let hashValue = unat (ht_hash t key) mod ht_numOfBuckets t in
        if length (ht_bucketArray t) \<le> hashValue then Fault OutOfBoundsAccess else Success hashValue t)"

text \<open>
  The walk \<open>while (pair && !HashTable_Equals(table, pair, key))\<close>: the pairs passed, and the rest of
  the chain from the pair found on.
\<close>

definition chain_before :: "('k, 'v) wHashTable \<Rightarrow> nat \<Rightarrow> 'k option \<Rightarrow> ('k, 'v) wKeyValuePair list" where
  "chain_before t h key = takeWhile (\<lambda>pair. \<not> HashTable_Equals t pair key) (ht_bucketArray t ! h)"

definition chain_from :: "('k, 'v) wHashTable \<Rightarrow> nat \<Rightarrow> 'k option \<Rightarrow> ('k, 'v) wKeyValuePair list" where
  "chain_from t h key = dropWhile (\<lambda>pair. \<not> HashTable_Equals t pair key) (ht_bucketArray t ! h)"

definition HashTable_Get :: "'k option \<Rightarrow> (('k, 'v) wHashTable, ('k, 'v) wKeyValuePair option) cfun" where
  "HashTable_Get key =
     (if key = None then return_c None
      else bind_c (bucket_of key) (\<lambda>h t.
        Success (case chain_from t h key of [] \<Rightarrow> None | pair # _ \<Rightarrow> Some pair) t))"

type_synonym ('k, 'v) freed = "('k option + 'v option) list"

definition disposeKey :: "('k, 'v) wHashTable \<Rightarrow> 'k option \<Rightarrow> ('k, 'v) freed" where
  "disposeKey t key = (if fnObjectFree (ht_key t) then [Inl key] else [])"

definition disposeValue :: "('k, 'v) wHashTable \<Rightarrow> 'v option \<Rightarrow> ('k, 'v) freed" where
  "disposeValue t val = (if fnObjectFree (ht_value t) then [Inr val] else [])"

definition disposePair :: "('k, 'v) wHashTable \<Rightarrow> ('k, 'v) wKeyValuePair \<Rightarrow> ('k, 'v) freed" where
  "disposePair t pair = disposeKey t (kv_key pair) @ disposeValue t (kv_value pair)"

definition setKey :: "('k, 'v) wHashTable \<Rightarrow> ('k, 'v) wKeyValuePair \<Rightarrow> 'k option \<Rightarrow>
  ('k, 'v) wKeyValuePair \<times> ('k, 'v) freed" where
  "setKey t pair key =
     (pair\<lparr>kv_key := (case fnObjectNew (ht_key t) of Some new \<Rightarrow> new key | None \<Rightarrow> key)\<rparr>,
      disposeKey t (kv_key pair))"

definition setValue :: "('k, 'v) wHashTable \<Rightarrow> ('k, 'v) wKeyValuePair \<Rightarrow> 'v option \<Rightarrow>
  ('k, 'v) wKeyValuePair \<times> ('k, 'v) freed" where
  "setValue t pair val =
     (pair\<lparr>kv_value := (case fnObjectNew (ht_value t) of Some new \<Rightarrow> new val | None \<Rightarrow> val)\<rparr>,
      disposeValue t (kv_value pair))"

definition HashTable_Count :: "(('k, 'v) wHashTable, nat) cfun" where
  "HashTable_Count t = Success (ht_numOfElements t) t"

definition set_bucket :: "nat \<Rightarrow> ('k, 'v) wKeyValuePair list \<Rightarrow> ('k, 'v) wHashTable \<Rightarrow> ('k, 'v) wHashTable" where
  "set_bucket h chain t = t\<lparr>ht_bucketArray := (ht_bucketArray t)[h := chain]\<rparr>"

text \<open>An entry with this key exists: it is recycled and gets the new key and value.\<close>

definition insert_existing :: "nat \<Rightarrow> 'k option \<Rightarrow> 'v option \<Rightarrow> ('k, 'v) wKeyValuePair list \<Rightarrow>
  ('k, 'v) wKeyValuePair \<Rightarrow> ('k, 'v) wKeyValuePair list \<Rightarrow> (('k, 'v) wHashTable, ('k, 'v) freed) cfun" where
  "insert_existing h key val before pair after t =
     (let (t, pair) = (if kv_markedForRemove pair
            then (t\<lparr>ht_pendingRemoves := ht_pendingRemoves t - 1,
                    ht_numOfElements := (ht_numOfElements t + 1) mod SIZE_MOD\<rparr>,
                  pair\<lparr>kv_markedForRemove := False\<rparr>)
            else (t, pair));
          (pair, f1) = (if kv_key pair \<noteq> key then setKey t pair key else (pair, []));
          (pair, f2) = (if kv_value pair \<noteq> val then setValue t pair val else (pair, [])) in
      Success (f1 @ f2) (set_bucket h (before @ pair # after) t))"

definition insert_new :: "(rat \<Rightarrow> rat) \<Rightarrow> realloc \<Rightarrow> nat \<Rightarrow> 'k option \<Rightarrow> 'v option \<Rightarrow>
  (('k, 'v) wHashTable, ('k, 'v) freed) cfun" where
  "insert_new fround mem h key val t =
     (let pair = \<lparr>kv_key = None, kv_value = None, kv_markedForRemove = False\<rparr>;
          (pair, f1) = setKey t pair key;
          (pair, f2) = setValue t pair val;
          t = (set_bucket h (pair # ht_bucketArray t ! h) t)
            \<lparr>ht_numOfElements := (ht_numOfElements t + 1) mod SIZE_MOD\<rparr> in
      bind_c (if ht_foreachRecursionLevel t = 0 \<and> ht_upperRehashThreshold t > ht_idealRatio t then
                let ratio = fround (fround (of_nat (ht_numOfElements t)) /
                      fround (of_nat (ht_numOfBuckets t))) in
                if ratio > ht_upperRehashThreshold t then HashTable_Rehash fround mem 0 else return_c ()
              else return_c ()) (\<lambda>_. return_c (f1 @ f2)) t)"

definition HashTable_Insert :: "(rat \<Rightarrow> rat) \<Rightarrow> realloc \<Rightarrow> nat \<Rightarrow> 'k option \<Rightarrow> 'v option \<Rightarrow>
  (('k, 'v) wHashTable, ('k, 'v) freed) cfun" where
  "HashTable_Insert fround mem pairsize key val =
     (if key = None \<or> val = None then fail_c
      else bind_c (bucket_of key) (\<lambda>h t.
        case chain_from t h key of
          pair # after \<Rightarrow> insert_existing h key val (chain_before t h key) pair after t
        | [] \<Rightarrow> if mem pairsize then insert_new fround mem h key val t else Failure t))"

definition HashTable_Remove :: "(rat \<Rightarrow> rat) \<Rightarrow> realloc \<Rightarrow> 'k option \<Rightarrow>
  (('k, 'v) wHashTable, ('k, 'v) freed) cfun" where
  "HashTable_Remove fround mem key =
     (if key = None then fail_c
      else bind_c (bucket_of key) (\<lambda>h t.
        case chain_from t h key of
          [] \<Rightarrow> Failure t
        | pair # after \<Rightarrow>
            if ht_foreachRecursionLevel t \<noteq> 0 then
              Success [] ((set_bucket h (chain_before t h key @
                  pair\<lparr>kv_markedForRemove := True\<rparr> # after) t)
                \<lparr>ht_pendingRemoves := ht_pendingRemoves t + 1,
                 ht_numOfElements := (ht_numOfElements t + (SIZE_MOD - 1)) mod SIZE_MOD\<rparr>)
            else
              let t = (set_bucket h (chain_before t h key @ after) t)
                \<lparr>ht_numOfElements := (ht_numOfElements t + (SIZE_MOD - 1)) mod SIZE_MOD\<rparr> in
              bind_c (if ht_lowerRehashThreshold t > 0 then
                        let ratio = fround (fround (of_nat (ht_numOfElements t)) /
                              fround (of_nat (ht_numOfBuckets t))) in
                        if ratio < ht_lowerRehashThreshold t then HashTable_Rehash fround mem 0
                        else return_c ()
                      else return_c ()) (\<lambda>_. return_c (disposePair t pair)) t))"

definition HashTable_GetItemValue :: "'k option \<Rightarrow> (('k, 'v) wHashTable, 'v option) cfun" where
  "HashTable_GetItemValue key =
     (if key = None then return_c None
      else bind_c (HashTable_Get key) (\<lambda>pair. return_c (case pair of
        Some p \<Rightarrow> if \<not> kv_markedForRemove p then kv_value p else None | None \<Rightarrow> None)))"

definition HashTable_SetItemValue :: "'k option \<Rightarrow> 'v option \<Rightarrow>
  (('k, 'v) wHashTable, ('k, 'v) freed) cfun" where
  "HashTable_SetItemValue key val =
     (if key = None then fail_c
      else bind_c (bucket_of key) (\<lambda>h t.
        case chain_from t h key of
          [] \<Rightarrow> Failure t
        | pair # after \<Rightarrow>
            if kv_markedForRemove pair then Failure t
            else case setValue t pair val of
              (pair, f) \<Rightarrow> Success f (set_bucket h (chain_before t h key @ pair # after) t)))"

text \<open>
  The \<open>while\<close> loop of \<open>HashTable_Clear\<close> over one bucket: \<open>pair\<close> is the rest of its chain. Inside a
  \<open>HashTable_Foreach\<close> the pair is marked and the loop goes on with the same pair.
\<close>

partial_function (option) clear_loop :: "('k, 'v) wHashTable \<Rightarrow> ('k, 'v) wKeyValuePair list \<Rightarrow> ('k, 'v) freed \<Rightarrow>
  (('k, 'v) wHashTable \<times> ('k, 'v) freed) option" where
  "clear_loop t pair freed =
     (case pair of
        [] \<Rightarrow> Some (t, freed)
      | p # nextPair \<Rightarrow>
          if ht_foreachRecursionLevel t \<noteq> 0 then
            clear_loop (t\<lparr>ht_pendingRemoves := ht_pendingRemoves t + 1\<rparr>)
              (p\<lparr>kv_markedForRemove := True\<rparr> # nextPair) freed
          else clear_loop t nextPair (freed @ disposePair t p))"

fun clear_buckets :: "('k, 'v) wHashTable \<Rightarrow> ('k, 'v) wKeyValuePair list list \<Rightarrow> ('k, 'v) freed \<Rightarrow>
  (('k, 'v) wHashTable \<times> ('k, 'v) freed) option" where
  "clear_buckets t [] freed = Some (t, freed)"
| "clear_buckets t (b # bs) freed =
     (case clear_loop t b freed of None \<Rightarrow> None | Some (t, freed) \<Rightarrow> clear_buckets t bs freed)"

definition HashTable_Clear :: "(rat \<Rightarrow> rat) \<Rightarrow> realloc \<Rightarrow> (('k, 'v) wHashTable, ('k, 'v) freed) cfun" where
  "HashTable_Clear fround mem t =
     (case clear_buckets t (ht_bucketArray t) [] of
        None \<Rightarrow> Fault NonTermination
      | Some (t, freed) \<Rightarrow>
          bind_c (if ht_foreachRecursionLevel t = 0 then HashTable_Rehash fround mem 5 else return_c ())
            (\<lambda>_. return_c freed)
            (t\<lparr>ht_bucketArray := replicate (length (ht_bucketArray t)) [], ht_numOfElements := 0\<rparr>))"

definition HashTable_GetKeys :: "realloc \<Rightarrow> (('k, 'v) wHashTable, nat \<times> 'k option list) cfun" where
  "HashTable_GetKeys mem t =
     (let count = ht_numOfElements t in
      if count < 1 then Success (0, []) t
      else if \<not> mem (count * 8) then Success (0, []) t
      else
        let keys = map kv_key (filter (\<lambda>pair. \<not> kv_markedForRemove pair) (concat (ht_bucketArray t))) in
        if count < length keys then Fault OutOfBoundsAccess
        else Success (count, keys @ replicate (count - length keys) None) t)"

definition HashTable_Contains :: "'k option \<Rightarrow> (('k, 'v) wHashTable, bool) cfun" where
  "HashTable_Contains key =
     (if key = None then return_c False
      else bind_c (HashTable_Get key) (\<lambda>pair. return_c (case pair of
        Some p \<Rightarrow> \<not> kv_markedForRemove p | None \<Rightarrow> False)))"

definition HashTable_ContainsKey :: "'k option \<Rightarrow> (('k, 'v) wHashTable, bool) cfun" where
  "HashTable_ContainsKey key =
     (if key = None then return_c False
      else bind_c (HashTable_Get key) (\<lambda>pair. return_c (case pair of
        Some p \<Rightarrow> \<not> kv_markedForRemove p | None \<Rightarrow> False)))"

text \<open>\<open>HashTable_ContainsValue\<close> compares the value with the keys, so both have one type here.\<close>

definition HashTable_ContainsValue :: "'a option \<Rightarrow> (('a, 'a) wHashTable, bool) cfun" where
  "HashTable_ContainsValue val t =
     (if val = None then Success False t
      else Success (list_ex (\<lambda>pair. \<not> kv_markedForRemove pair \<and> HashTable_Equals t pair val)
        (concat (ht_bucketArray t))) t)"

definition HashTable_New :: "realloc \<Rightarrow> nat \<Rightarrow> bool \<Rightarrow> (64 word, 'v) wHashTable option" where
  "HashTable_New mem tablesize synchronized =
     (if \<not> mem tablesize \<or> \<not> mem (64 * PTR_SIZE) then None
      else Some \<lparr>ht_synchronized = synchronized, ht_numOfBuckets = 64, ht_numOfElements = 0,
        ht_idealRatio = 3, ht_lowerRehashThreshold = 0, ht_upperRehashThreshold = 15,
        ht_bucketArray = replicate 64 [],
        ht_hash = (\<lambda>key. case key of None \<Rightarrow> HashTable_PointerHash 0 | Some p \<Rightarrow> HashTable_PointerHash p),
        ht_key = \<lparr>fnObjectNew = None, fnObjectFree = False, fnObjectEquals = HashTable_PointerCompare\<rparr>,
        ht_value = \<lparr>fnObjectNew = None, fnObjectFree = False, fnObjectEquals = HashTable_PointerCompare\<rparr>,
        ht_foreachRecursionLevel = 0, ht_pendingRemoves = 0\<rparr>)"

definition HashTable_Free :: "('k, 'v) wHashTable \<Rightarrow> ('k, 'v) freed" where
  "HashTable_Free t = concat (map (disposePair t) (concat (ht_bucketArray t)))"

text \<open>
  The hash function is a function of the model; the NULL pointer, which the code stores and reports by
  FALSE, and a table left without a hash function have no counterpart.
\<close>

definition HashTable_SetHashFunction :: "('k option \<Rightarrow> 32 word) \<Rightarrow> (('k, 'v) wHashTable, unit) cfun" where
  "HashTable_SetHashFunction fn t = Success () (t\<lparr>ht_hash := fn\<rparr>)"

text \<open>\<open>clone\<close> stands for \<open>winpr_ObjectStringClone\<close>, and \<open>str\<close> for the bytes behind a pointer.\<close>

definition HashTable_SetupForStringData :: "('a option \<Rightarrow> 'a option) \<Rightarrow> ('a \<Rightarrow> byte list) \<Rightarrow> bool \<Rightarrow>
  (('a, 'a) wHashTable, unit) cfun" where
  "HashTable_SetupForStringData clone str stringValues t =
     (let strings = \<lparr>fnObjectNew = Some clone, fnObjectFree = True,
            fnObjectEquals = HashTable_StringCompare str\<rparr>;
          t = t\<lparr>ht_hash := (\<lambda>key. case key of None \<Rightarrow> 0 | Some p \<Rightarrow> HashTable_StringHash (str p)),
                ht_key := strings\<rparr> in
      Success () (if stringValues then t\<lparr>ht_value := strings\<rparr> else t))"


text \<open>
  \<open>HashTable_Foreach\<close>. The callback has the argument \<open>'c\<close> and may change the table. Inside the loop
  chains only grow at their head, so the current pair is known by the number \<open>r\<close> of pairs from it to the
  end of the chain of bucket \<open>index\<close>; \<open>None\<close> is a loop that does not end.
\<close>

type_synonym ('k, 'v, 'c) foreach_fn =
  "'k option \<Rightarrow> 'v option \<Rightarrow> 'c \<Rightarrow> ('k, 'v) wHashTable \<Rightarrow> bool \<times> 'c \<times> ('k, 'v) wHashTable"

definition chain_length :: "('k, 'v) wHashTable \<Rightarrow> nat \<Rightarrow> nat" where
  "chain_length t index = (if index < length (ht_bucketArray t) then length (ht_bucketArray t ! index) else 0)"

partial_function (option) ht_foreach_loop :: "('k, 'v, 'c) foreach_fn \<Rightarrow> nat \<Rightarrow> nat \<Rightarrow> 'c \<Rightarrow>
  ('k, 'v) wHashTable \<Rightarrow> (('k, 'v) wHashTable, bool \<times> 'c) outcome option" where
  "ht_foreach_loop fn index r c t =
     (if index < ht_numOfBuckets t then
        if r = 0 then ht_foreach_loop fn (index + 1) (chain_length t (index + 1)) c t
        else if chain_length t index < r then Some (Fault OutOfBoundsAccess)
        else
          let pair = ht_bucketArray t ! index ! (chain_length t index - r) in
          if kv_markedForRemove pair then ht_foreach_loop fn index (r - 1) c t
          else case fn (kv_key pair) (kv_value pair) c t of
            (continue, c, t) \<Rightarrow>
              if continue then ht_foreach_loop fn index (r - 1) c t else Some (Success (False, c) t)
      else Some (Success (True, c) t))"

text \<open>The cleanup of the outermost call: marked pairs are disposed of and unlinked.\<close>

definition foreach_cleanup :: "(('k, 'v) wHashTable, ('k, 'v) freed) cfun" where
  "foreach_cleanup t =
     (if ht_foreachRecursionLevel t = 0 \<and> ht_pendingRemoves t \<noteq> 0 then
        Success (concat (map (disposePair t) (filter kv_markedForRemove (concat (ht_bucketArray t)))))
          (t\<lparr>ht_bucketArray := map (filter (\<lambda>pair. \<not> kv_markedForRemove pair)) (ht_bucketArray t),
             ht_pendingRemoves := 0\<rparr>)
      else Success [] t)"

definition HashTable_Foreach :: "('k, 'v, 'c) foreach_fn \<Rightarrow> 'c \<Rightarrow>
  (('k, 'v) wHashTable, bool \<times> 'c \<times> ('k, 'v) freed) cfun" where
  "HashTable_Foreach fn arg t =
     (let t = t\<lparr>ht_foreachRecursionLevel := ht_foreachRecursionLevel t + 1\<rparr> in
      case ht_foreach_loop fn 0 (chain_length t 0) arg t of
        None \<Rightarrow> Fault NonTermination
      | Some r \<Rightarrow>
          bind_c (\<lambda>_. r) (\<lambda>(ret, c) t.
            if ret then
              bind_c foreach_cleanup (\<lambda>freed. return_c (True, c, freed))
                (t\<lparr>ht_foreachRecursionLevel := ht_foreachRecursionLevel t - 1\<rparr>)
            else Success (False, c, []) t) t)"

section \<open>Pairs and buckets\<close>

definition pairs :: "('k, 'v) wHashTable \<Rightarrow> ('k, 'v) wKeyValuePair list" where
  "pairs t = concat (ht_bucketArray t)"

definition hashed :: "('k option \<Rightarrow> 32 word) \<Rightarrow> nat \<Rightarrow> ('k, 'v) wKeyValuePair list list \<Rightarrow> bool" where
  "hashed hash n bs \<longleftrightarrow> 0 < n \<and> length bs = n \<and>
     (\<forall>i < n. \<forall>p \<in> set (bs ! i). kv_key p \<noteq> None \<and> unat (hash (kv_key p)) mod n = i)"

lemma hashedD: "hashed hash n bs \<Longrightarrow> i < n \<Longrightarrow> p \<in> set (bs ! i) \<Longrightarrow>
    kv_key p \<noteq> None \<and> unat (hash (kv_key p)) mod n = i"
  by (simp add: hashed_def)

lemma filter_hashed:
  assumes "hashed hash n bs" "h < n" and P: "\<And>p. P p \<Longrightarrow> unat (hash (kv_key p)) mod n = h"
  shows "filter P (concat bs) = filter P (bs ! h)"
proof -
  have len: "length bs = n" using assms(1) by (simp add: hashed_def)
  have none: "filter P (bs ! i) = []" if "i < n" "i \<noteq> h" for i
    using hashedD [OF assms(1) that(1)] P that(2) by (fastforce simp: filter_empty_conv)
  have "map (filter P) bs = map (\<lambda>i. filter P (bs ! i)) [0..<n]"
    by (rule nth_equalityI) (simp_all add: len)
  then have "filter P (concat bs) = concat (map (\<lambda>i. filter P (bs ! i)) [0..<n])"
    by (simp add: filter_concat)
  also have "[0..<n] = [0..<h] @ h # [Suc h..<n]"
    using upt_add_eq_append [of 0 h "n - h"] assms(2) by (simp add: upt_conv_Cons)
  also have "concat (map (\<lambda>i. filter P (bs ! i)) \<dots>) = filter P (bs ! h)"
  proof -
    have z: "concat (map (\<lambda>i. filter P (bs ! i)) js) = []" if "\<forall>i \<in> set js. i < n \<and> i \<noteq> h" for js
      using none that by auto
    have "concat (map (\<lambda>i. filter P (bs ! i)) [0..<h]) = []"
      "concat (map (\<lambda>i. filter P (bs ! i)) [Suc h..<n]) = []"
      by (rule z, use assms(2) in simp)+
    then show ?thesis by (simp del: concat_eq_Nil_conv)
  qed
  finally show ?thesis .
qed

lemma hashed_update:
  assumes "hashed hash n bs" "h < n"
    "\<forall>p \<in> set c. kv_key p \<noteq> None \<and> unat (hash (kv_key p)) mod n = h"
  shows "hashed hash n (bs[h := c])"
  using assms by (auto simp: hashed_def nth_list_update)

lemma filter_concat_update:
  "h < length bs \<Longrightarrow> length (filter P (concat (bs[h := c]))) + length (filter P (bs ! h)) =
     length (filter P (concat bs)) + length (filter P c)"
  by (simp add: upd_conv_take_nth_drop) (metis (no_types, lifting) add.commute add.left_commute
      append_Cons concat.simps(2) concat_append filter_append id_take_nth_drop length_append)

text \<open>Rehashing sorts the pairs into the new buckets and loses none.\<close>

lemma fold_rehash:
  assumes "0 < n" "length bs = n"
  shows "length (fold (rehash_pair hash n) ps bs) = n \<and>
    (\<forall>i < n. fold (rehash_pair hash n) ps bs ! i =
      rev (filter (\<lambda>p. unat (hash (kv_key p)) mod n = i) ps) @ bs ! i)"
  using assms(2)
proof (induction ps arbitrary: bs)
  case (Cons p ps)
  let ?h = "unat (hash (kv_key p)) mod n"
  have "?h < n" using assms(1) by simp
  with Cons.IH [of "rehash_pair hash n p bs"] Cons.prems show ?case
    by (auto simp: rehash_pair_def Let_def nth_list_update)
qed simp

lemma rehash_hashed:
  assumes "0 < n" "\<forall>p \<in> set ps. kv_key p \<noteq> None"
  shows "hashed hash n (fold (rehash_pair hash n) ps (replicate n []))"
  using fold_rehash [OF assms(1), of "replicate n []" hash ps] assms by (auto simp: hashed_def)

lemma rehash_mset:
  "0 < n \<Longrightarrow> length bs = n \<Longrightarrow>
     mset (concat (fold (rehash_pair hash n) ps bs)) = mset ps + mset (concat bs)"
proof (induction ps arbitrary: bs)
  case (Cons p ps)
  let ?h = "unat (hash (kv_key p)) mod n"
  have h: "?h < length bs" using Cons.prems by simp
  have "mset (concat (bs[?h := p # bs ! ?h])) = add_mset p (mset (concat bs))"
    using arg_cong [OF id_take_nth_drop [OF h], of "\<lambda>x. mset (concat x)"] h
    by (simp add: upd_conv_take_nth_drop)
  with Cons show ?case by (simp add: rehash_pair_def Let_def)
qed simp


section \<open>Contracts of the callbacks and invariant\<close>

text \<open>
  The key callbacks fit together: the comparison is an equivalence on non-null keys, equal keys have
  equal hash values, and a copied key is equal to the key.
\<close>

abbreviation key_eq :: "('k, 'v) wHashTable \<Rightarrow> 'k option \<Rightarrow> 'k option \<Rightarrow> bool" where
  "key_eq t \<equiv> fnObjectEquals (ht_key t)"

definition key_laws :: "('k, 'v) wHashTable \<Rightarrow> bool" where
  "key_laws t \<longleftrightarrow> (\<forall>a. a \<noteq> None \<longrightarrow> key_eq t a a) \<and> (\<forall>a b. key_eq t a b \<longrightarrow> key_eq t b a) \<and>
     (\<forall>a b c. key_eq t a b \<longrightarrow> key_eq t b c \<longrightarrow> key_eq t a c) \<and>
     (\<forall>a b. key_eq t a b \<longrightarrow> ht_hash t a = ht_hash t b) \<and>
     (\<forall>a. a \<noteq> None \<longrightarrow> stored (ht_key t) a \<noteq> None \<and> key_eq t a (stored (ht_key t) a))"

lemma key_refl: "key_laws t \<Longrightarrow> a \<noteq> None \<Longrightarrow> key_eq t a a"
  and key_sym: "key_laws t \<Longrightarrow> key_eq t a b \<Longrightarrow> key_eq t b a"
  and key_trans: "key_laws t \<Longrightarrow> key_eq t a b \<Longrightarrow> key_eq t b c \<Longrightarrow> key_eq t a c"
  and key_hash: "key_laws t \<Longrightarrow> key_eq t a b \<Longrightarrow> ht_hash t a = ht_hash t b"
  and key_stored: "key_laws t \<Longrightarrow> a \<noteq> None \<Longrightarrow> stored (ht_key t) a \<noteq> None \<and> key_eq t a (stored (ht_key t) a)"
  unfolding key_laws_def by blast+

text \<open>The pairs whose key equals \<open>k\<close>; the invariant is that there is at most one.\<close>

definition matches :: "('k, 'v) wHashTable \<Rightarrow> 'k option \<Rightarrow> ('k, 'v) wKeyValuePair list" where
  "matches t k = filter (\<lambda>p. HashTable_Equals t p k) (pairs t)"

definition wf_ht :: "('k, 'v) wHashTable \<Rightarrow> bool" where
  "wf_ht t \<longleftrightarrow> key_laws t \<and> hashed (ht_hash t) (ht_numOfBuckets t) (ht_bucketArray t) \<and>
     (\<forall>k. k \<noteq> None \<longrightarrow> length (matches t k) \<le> 1)"

definition ht_map :: "('k, 'v) wHashTable \<Rightarrow> 'k option \<Rightarrow> 'v option" where
  "ht_map t k = (if k = None then None else case matches t k of
     p # _ \<Rightarrow> if kv_markedForRemove p then None else kv_value p | [] \<Rightarrow> None)"

definition bucket :: "('k, 'v) wHashTable \<Rightarrow> 'k option \<Rightarrow> nat" where
  "bucket t k = unat (ht_hash t k) mod ht_numOfBuckets t"

lemma wf_bucket: "wf_ht t \<Longrightarrow> bucket t k < ht_numOfBuckets t"
  by (simp add: wf_ht_def hashed_def bucket_def)

lemma bucket_of_ok: "wf_ht t \<Longrightarrow> bucket_of k t = Success (bucket t k) t"
  by (auto simp: wf_ht_def hashed_def bucket_def bucket_of_def Let_def not_le)

lemma matches_bucket:
  assumes "wf_ht t"
  shows "matches t k = filter (\<lambda>p. HashTable_Equals t p k) (ht_bucketArray t ! bucket t k)"
  unfolding matches_def pairs_def
proof (rule filter_hashed)
  show "hashed (ht_hash t) (ht_numOfBuckets t) (ht_bucketArray t)" using assms by (simp add: wf_ht_def)
  show "bucket t k < ht_numOfBuckets t" by (rule wf_bucket [OF assms])
  show "unat (ht_hash t (kv_key p)) mod ht_numOfBuckets t = bucket t k" if "HashTable_Equals t p k" for p
  proof -
    have "ht_hash t k = ht_hash t (kv_key p)"
      using assms that unfolding wf_ht_def HashTable_Equals_def by (blast intro: key_hash)
    then show ?thesis by (simp add: bucket_def)
  qed
qed

text \<open>The chain of a key falls into the pairs before the entry, the entry, and the pairs after it.\<close>

lemma chain_parts: "ht_bucketArray t ! h = chain_before t h k @ chain_from t h k"
  by (simp add: chain_before_def chain_from_def)

lemma chain_Nil:
  assumes "wf_ht t"
  shows "chain_from t (bucket t k) k = [] \<longleftrightarrow> matches t k = []"
  unfolding matches_bucket [OF assms] chain_from_def
  by (simp add: dropWhile_eq_Nil_conv filter_empty_conv)

lemma chain_Cons:
  assumes "wf_ht t" "k \<noteq> None" "chain_from t (bucket t k) k = p # after"
  shows "matches t k = [p]" "HashTable_Equals t p k"
    "\<forall>q \<in> set (chain_before t (bucket t k) k @ after). \<not> HashTable_Equals t q k"
    "ht_bucketArray t ! bucket t k = chain_before t (bucket t k) k @ p # after"
proof -
  let ?P = "\<lambda>p. HashTable_Equals t p k"
  show parts: "ht_bucketArray t ! bucket t k = chain_before t (bucket t k) k @ p # after"
    using chain_parts [of t "bucket t k" k] assms(3) by simp
  show p: "?P p" using assms(3) hd_dropWhile [of "\<lambda>p. \<not> ?P p" "ht_bucketArray t ! bucket t k"]
    by (simp add: chain_from_def)
  have before: "filter ?P (chain_before t (bucket t k) k) = []"
    using set_takeWhileD unfolding chain_before_def by (fastforce simp: filter_empty_conv)
  have m: "matches t k = p # filter ?P after"
    unfolding matches_bucket [OF assms(1)] parts using before p by simp
  moreover have "length (matches t k) \<le> 1" using assms(1,2) by (simp add: wf_ht_def)
  ultimately show "matches t k = [p]" by simp
  with m have "filter ?P after = []" by simp
  with before show "\<forall>q \<in> set (chain_before t (bucket t k) k @ after). \<not> ?P q"
    by (auto simp: filter_empty_conv)
qed

lemma HashTable_Get_ok:
  assumes "wf_ht t" "k \<noteq> None"
  shows "HashTable_Get k t = Success (case matches t k of [] \<Rightarrow> None | p # _ \<Rightarrow> Some p) t"
proof (cases "chain_from t (bucket t k) k")
  case Nil
  then have "matches t k = []" using chain_Nil [OF assms(1)] by simp
  with Nil assms show ?thesis by (auto simp: HashTable_Get_def bind_c_def bucket_of_ok)
next
  case (Cons p after)
  with chain_Cons(1) [OF assms Cons] assms show ?thesis
    by (auto simp: HashTable_Get_def bind_c_def bucket_of_ok)
qed

lemma HashTable_GetItemValue_ok: "wf_ht t \<Longrightarrow> HashTable_GetItemValue k t = Success (ht_map t k) t"
  using HashTable_Get_ok [of t k]
  by (simp add: HashTable_GetItemValue_def bind_c_def return_c_def ht_map_def split: list.split)

definition ht_has :: "('k, 'v) wHashTable \<Rightarrow> 'k option \<Rightarrow> bool" where
  "ht_has t k \<longleftrightarrow> k \<noteq> None \<and> (\<exists>p \<in> set (matches t k). \<not> kv_markedForRemove p)"

lemma matches_cases:
  assumes "wf_ht t" "k \<noteq> None"
  obtains (absent) "matches t k = []" | (present) p where "matches t k = [p]"
proof -
  have "length (matches t k) \<le> 1" using assms by (simp add: wf_ht_def)
  then show ?thesis using that by (cases "matches t k") auto
qed

lemma HashTable_Contains_ok:
  assumes "wf_ht t"
  shows "HashTable_Contains k t = Success (ht_has t k) t \<and> HashTable_ContainsKey k t = Success (ht_has t k) t"
proof (cases "k = None")
  case True
  then show ?thesis
    by (simp add: HashTable_Contains_def HashTable_ContainsKey_def ht_has_def return_c_def)
next
  case False
  with assms HashTable_Get_ok [OF assms False] show ?thesis
    by (cases rule: matches_cases [OF assms False])
      (auto simp: HashTable_Contains_def HashTable_ContainsKey_def ht_has_def bind_c_def return_c_def)
qed


section \<open>Changing one bucket\<close>

lemma set_bucket_simps [simp]:
  "ht_key (set_bucket h c t) = ht_key t" "ht_hash (set_bucket h c t) = ht_hash t"
  "ht_numOfBuckets (set_bucket h c t) = ht_numOfBuckets t" "ht_value (set_bucket h c t) = ht_value t"
  "ht_numOfElements (set_bucket h c t) = ht_numOfElements t"
  "ht_foreachRecursionLevel (set_bucket h c t) = ht_foreachRecursionLevel t"
  "ht_bucketArray (set_bucket h c t) = (ht_bucketArray t)[h := c]"
  "HashTable_Equals (set_bucket h c t) = HashTable_Equals t" "bucket (set_bucket h c t) = bucket t"
  "key_laws (set_bucket h c t) = key_laws t"
  by (simp_all add: set_bucket_def HashTable_Equals_def bucket_def key_laws_def fun_eq_iff)

text \<open>Counters and the recursion level play no part in the buckets.\<close>

lemma counter_simps [simp]:
  "matches (t\<lparr>ht_numOfElements := n\<rparr>) = matches t" "wf_ht (t\<lparr>ht_numOfElements := n\<rparr>) = wf_ht t"
  "matches (t\<lparr>ht_pendingRemoves := x\<rparr>) = matches t" "wf_ht (t\<lparr>ht_pendingRemoves := x\<rparr>) = wf_ht t"
  "matches (t\<lparr>ht_foreachRecursionLevel := x\<rparr>) = matches t"
  "wf_ht (t\<lparr>ht_foreachRecursionLevel := x\<rparr>) = wf_ht t"
  "pairs (t\<lparr>ht_numOfElements := n\<rparr>) = pairs t" "pairs (t\<lparr>ht_pendingRemoves := x\<rparr>) = pairs t"
  "pairs (t\<lparr>ht_foreachRecursionLevel := x\<rparr>) = pairs t"
  by (simp_all add: matches_def pairs_def wf_ht_def HashTable_Equals_def key_laws_def fun_eq_iff)

lemma set_bucket_ok:
  assumes wf: "wf_ht t" and h: "h < ht_numOfBuckets t"
    and c: "\<forall>p \<in> set c. kv_key p \<noteq> None \<and> unat (ht_hash t (kv_key p)) mod ht_numOfBuckets t = h"
    and u: "\<And>k. k \<noteq> None \<Longrightarrow> bucket t k = h \<Longrightarrow> length (filter (\<lambda>p. HashTable_Equals t p k) c) \<le> 1"
  shows "wf_ht (set_bucket h c t)"
    "matches (set_bucket h c t) k = (if bucket t k = h then filter (\<lambda>p. HashTable_Equals t p k) c else matches t k)"
proof -
  have hd: "hashed (ht_hash t) (ht_numOfBuckets t) ((ht_bucketArray t)[h := c])"
    using wf h c by (intro hashed_update) (simp_all add: wf_ht_def)
  have len: "h < length (ht_bucketArray t)" using wf h by (simp add: wf_ht_def hashed_def)
  have m: "matches (set_bucket h c t) k =
      (if bucket t k = h then filter (\<lambda>p. HashTable_Equals t p k) c else matches t k)" for k
  proof -
    have "matches (set_bucket h c t) k =
        filter (\<lambda>p. HashTable_Equals t p k) ((ht_bucketArray t)[h := c] ! bucket t k)"
      unfolding matches_def pairs_def set_bucket_simps
    proof (rule filter_hashed [OF hd wf_bucket [OF wf]])
      fix p assume "HashTable_Equals t p k"
      with wf have "ht_hash t k = ht_hash t (kv_key p)"
        unfolding wf_ht_def HashTable_Equals_def by (blast intro: key_hash)
      then show "unat (ht_hash t (kv_key p)) mod ht_numOfBuckets t = bucket t k" by (simp add: bucket_def)
    qed
    then show ?thesis using len by (cases "bucket t k = h") (auto simp: matches_bucket [OF wf])
  qed
  show "matches (set_bucket h c t) k =
      (if bucket t k = h then filter (\<lambda>p. HashTable_Equals t p k) c else matches t k)" by (rule m)
  show "wf_ht (set_bucket h c t)"
    using wf hd u by (auto simp: wf_ht_def m)
qed

lemma key_class:
  assumes "wf_ht t" "key_eq t k (kv_key p)"
  shows "HashTable_Equals t p k' \<longleftrightarrow> key_eq t k k'"
  using assms unfolding wf_ht_def HashTable_Equals_def by (blast intro: key_sym key_trans)

lemma equals_class: "wf_ht t \<Longrightarrow> key_eq t k k' \<Longrightarrow> HashTable_Equals t p k' = HashTable_Equals t p k"
  unfolding wf_ht_def HashTable_Equals_def by (blast intro: key_sym key_trans)

lemma bucket_class: "wf_ht t \<Longrightarrow> key_eq t k k' \<Longrightarrow> bucket t k' = bucket t k"
  using key_hash [of t k k'] by (simp add: wf_ht_def bucket_def)

lemma bucket_members:
  "wf_ht t \<Longrightarrow> \<forall>r \<in> set (ht_bucketArray t ! bucket t k).
     kv_key r \<noteq> None \<and> unat (ht_hash t (kv_key r)) mod ht_numOfBuckets t = bucket t k"
  using wf_bucket [of t k] by (simp add: wf_ht_def hashed_def)

text \<open>A new chain for the bucket of \<open>k\<close> with the entries \<open>ms\<close> for \<open>k\<close> and the old ones for other keys.\<close>

lemma change_chain:
  assumes wf: "wf_ht t" and ms: "length ms \<le> 1"
    and mem: "\<forall>r \<in> set c. r \<in> set (ht_bucketArray t ! bucket t k) \<or>
      kv_key r \<noteq> None \<and> key_eq t k (kv_key r)"
    and f: "\<And>k'. k' \<noteq> None \<Longrightarrow> bucket t k' = bucket t k \<Longrightarrow>
      filter (\<lambda>p. HashTable_Equals t p k') c = (if key_eq t k k' then ms else matches t k')"
  shows "wf_ht (set_bucket (bucket t k) c t) \<and> (\<forall>k'. k' \<noteq> None \<longrightarrow>
    matches (set_bucket (bucket t k) c t) k' = (if key_eq t k k' then ms else matches t k'))"
proof -
  have c: "\<forall>r \<in> set c. kv_key r \<noteq> None \<and> unat (ht_hash t (kv_key r)) mod ht_numOfBuckets t = bucket t k"
    using mem bucket_members [OF wf, of k] bucket_class [OF wf] by (fastforce simp: bucket_def)
  have u: "length (filter (\<lambda>p. HashTable_Equals t p k') c) \<le> 1"
    if "k' \<noteq> None" "bucket t k' = bucket t k" for k'
    using f [OF that] that(1) wf ms by (simp add: wf_ht_def)
  have s: "wf_ht (set_bucket (bucket t k) c t)" "matches (set_bucket (bucket t k) c t) k' =
      (if bucket t k' = bucket t k then filter (\<lambda>p. HashTable_Equals t p k') c else matches t k')" for k'
    by (rule set_bucket_ok [OF wf wf_bucket [OF wf] c], erule (1) u)+
  have "matches (set_bucket (bucket t k) c t) k' = (if key_eq t k k' then ms else matches t k')"
    if "k' \<noteq> None" for k'
  proof (cases "bucket t k' = bucket t k")
    case True
    show ?thesis unfolding s(2) f [OF that True, symmetric] using True by simp
  next
    case False
    then have "\<not> key_eq t k k'" using bucket_class [OF wf] by blast
    with False show ?thesis unfolding s(2) by simp
  qed
  with s(1) show ?thesis by blast
qed

text \<open>The entry of a key is replaced, removed, or added.\<close>

lemma others_unmatched:
  assumes wf: "wf_ht t" and c: "\<forall>q \<in> set qs. \<not> HashTable_Equals t q k" and "key_eq t k k'"
  shows "filter (\<lambda>p. HashTable_Equals t p k') qs = []"
proof -
  have "HashTable_Equals t r k" if "HashTable_Equals t r k'" for r
    using that assms(3) key_trans [of t k k' "kv_key r"] wf by (simp add: HashTable_Equals_def wf_ht_def)
  with c show ?thesis by (auto simp: filter_empty_conv)
qed

lemma replace_pair:
  assumes wf: "wf_ht t" and k: "k \<noteq> None" and ch: "chain_from t (bucket t k) k = p # after"
    and q: "kv_key q \<noteq> None" "key_eq t k (kv_key q)"
  shows "wf_ht (set_bucket (bucket t k) (chain_before t (bucket t k) k @ q # after) t) \<and>
    (\<forall>k'. k' \<noteq> None \<longrightarrow>
      matches (set_bucket (bucket t k) (chain_before t (bucket t k) k @ q # after) t) k' =
        (if key_eq t k k' then [q] else matches t k'))"
proof (rule change_chain [OF wf])
  note c = chain_Cons [OF wf k ch]
  have p: "key_eq t k (kv_key p)" using c(2) by (simp add: HashTable_Equals_def)
  show "\<forall>r \<in> set (chain_before t (bucket t k) k @ q # after). r \<in> set (ht_bucketArray t ! bucket t k) \<or>
      kv_key r \<noteq> None \<and> key_eq t k (kv_key r)" using q c(4) by auto
  show "filter (\<lambda>p. HashTable_Equals t p k') (chain_before t (bucket t k) k @ q # after) =
      (if key_eq t k k' then [q] else matches t k')" if "k' \<noteq> None" "bucket t k' = bucket t k" for k'
    using others_unmatched [OF wf c(3), of k'] key_class [OF wf p, of k'] key_class [OF wf q(2), of k']
    unfolding matches_bucket [OF wf] that c(4) by auto
qed simp

lemma remove_pair:
  assumes wf: "wf_ht t" and k: "k \<noteq> None" and ch: "chain_from t (bucket t k) k = p # after"
  shows "wf_ht (set_bucket (bucket t k) (chain_before t (bucket t k) k @ after) t) \<and>
    (\<forall>k'. k' \<noteq> None \<longrightarrow>
      matches (set_bucket (bucket t k) (chain_before t (bucket t k) k @ after) t) k' =
        (if key_eq t k k' then [] else matches t k'))"
proof (rule change_chain [OF wf])
  note c = chain_Cons [OF wf k ch]
  have p: "key_eq t k (kv_key p)" using c(2) by (simp add: HashTable_Equals_def)
  show "\<forall>r \<in> set (chain_before t (bucket t k) k @ after). r \<in> set (ht_bucketArray t ! bucket t k) \<or>
      kv_key r \<noteq> None \<and> key_eq t k (kv_key r)" using c(4) by auto
  show "filter (\<lambda>p. HashTable_Equals t p k') (chain_before t (bucket t k) k @ after) =
      (if key_eq t k k' then [] else matches t k')" if "k' \<noteq> None" "bucket t k' = bucket t k" for k'
    using others_unmatched [OF wf c(3), of k'] key_class [OF wf p, of k']
    unfolding matches_bucket [OF wf] that c(4) by auto
qed simp

lemma add_pair:
  assumes wf: "wf_ht t" and k: "matches t k = []" and q: "kv_key q \<noteq> None" "key_eq t k (kv_key q)"
  shows "wf_ht (set_bucket (bucket t k) (q # ht_bucketArray t ! bucket t k) t) \<and>
    (\<forall>k'. k' \<noteq> None \<longrightarrow>
      matches (set_bucket (bucket t k) (q # ht_bucketArray t ! bucket t k) t) k' =
        (if key_eq t k k' then [q] else matches t k'))"
proof (rule change_chain [OF wf])
  have c: "\<forall>q \<in> set (ht_bucketArray t ! bucket t k). \<not> HashTable_Equals t q k"
    using k unfolding matches_bucket [OF wf] by (auto simp: filter_empty_conv)
  show "\<forall>r \<in> set (q # ht_bucketArray t ! bucket t k). r \<in> set (ht_bucketArray t ! bucket t k) \<or>
      kv_key r \<noteq> None \<and> key_eq t k (kv_key r)" using q by auto
  show "filter (\<lambda>p. HashTable_Equals t p k') (q # ht_bucketArray t ! bucket t k) =
      (if key_eq t k k' then [q] else matches t k')" if "k' \<noteq> None" "bucket t k' = bucket t k" for k'
    using others_unmatched [OF wf c, of k'] key_class [OF wf q(2), of k']
    unfolding matches_bucket [OF wf] that by auto
qed simp


section \<open>The number of buckets\<close>

text \<open>
  The search for a number without small divisors ends: among any \<open>2 P\<close> successive odd numbers, with \<open>P\<close>
  the product of the odd primes below 50, there is one that leaves the remainder one for all of them.
\<close>

abbreviation odd_primorial :: nat where
  "odd_primorial \<equiv> 307444891294245705"

abbreviation odd_primes :: "nat list" where
  "odd_primes \<equiv> [3, 5, 7, 11, 13, 17, 19, 23, 29, 31, 37, 41, 43, 47]"

lemma odd_primes_divide: "list_all (\<lambda>p. p dvd odd_primorial \<and> 1 < p) odd_primes"
  by simp

lemma odd_below_51: "list_all (\<lambda>j. list_ex (\<lambda>p. p dvd 2 * j + 3) odd_primes) [0..<24]"
  by code_simp

lemma small_divisor:
  assumes "odd i" "3 \<le> i" "i < 51"
  obtains p where "p dvd i" "p dvd odd_primorial" "1 < p"
proof -
  obtain m where m: "i = 2 * m + 1" using assms(1) by (rule oddE)
  define j where "j = m - 1"
  have j: "i = 2 * j + 3" using m assms(2) by (simp add: j_def)
  then have "j \<in> set [0..<24]" using assms(3) by simp
  then have "list_ex (\<lambda>p. p dvd i) odd_primes" using odd_below_51 j unfolding list_all_iff by blast
  then obtain p where "p \<in> set odd_primes" "p dvd i" unfolding list_ex_iff by blast
  with odd_primes_divide that show ?thesis unfolding list_all_iff by blast
qed

lemma probable_prime_loop_coprime:
  "n mod odd_primorial = 1 \<Longrightarrow> odd i \<Longrightarrow> 3 \<le> i \<Longrightarrow> probable_prime_loop n i"
proof (induction n i rule: probable_prime_loop.induct)
  case (1 n i)
  show ?case
  proof (cases "i < 51 \<and> n \<noteq> i")
    case False
    then show ?thesis by (subst probable_prime_loop.simps) auto
  next
    case True
    then obtain p where p: "p dvd i" "p dvd odd_primorial" "1 < p"
      using small_divisor "1.prems" by blast
    have "n mod i \<noteq> 0"
    proof
      assume "n mod i = 0"
      then have "p dvd n" using p(1) by (meson dvd_eq_mod_eq_0 dvd_trans)
      then have "p dvd n mod odd_primorial" using p(2) by (rule dvd_mod)
      then show False unfolding "1.prems"(1) using p(3) by simp
    qed
    moreover have "probable_prime_loop n (i + 2)" using "1.IH" True calculation "1.prems" by simp
    ultimately show ?thesis using True by (subst probable_prime_loop.simps) simp
  qed
qed


lemma next_probable_prime_Some:
  assumes "odd n" "n \<le> 2 ^ 63"
  shows "\<exists>r. next_probable_prime n = Some r \<and> n \<le> r"
proof -
  define q where "q = n div (2 * odd_primorial)"
  define m where "m = 1 + (2 * (q + 1)) * odd_primorial"
  have "n = 2 * odd_primorial * q + n mod (2 * odd_primorial)" by (simp add: q_def)
  moreover have "n mod (2 * odd_primorial) < 2 * odd_primorial" by simp
  ultimately have le: "n \<le> m" "m \<le> n + 2 * odd_primorial + 1" by (simp_all add: m_def)
  have "m mod odd_primorial = 1 mod odd_primorial" unfolding m_def by (rule mod_mult_self1)
  with le assms(2) have m: "m mod odd_primorial = 1" "odd m" "n \<le> m" "m < SIZE_MOD"
    by (simp_all add: m_def)
  have "\<exists>r. next_probable_prime k = Some r \<and> k \<le> r" if "odd k" "k \<le> m" for k
    using that
  proof (induction "m - k" arbitrary: k rule: less_induct)
    case less
    show ?case
    proof (cases "HashTable_IsProbablePrime k")
      case True
      then show ?thesis by (subst next_probable_prime.simps) simp
    next
      case False
      have "HashTable_IsProbablePrime m"
        using probable_prime_loop_coprime [OF m(1), of 3] by (simp add: HashTable_IsProbablePrime_def)
      with False have "k \<noteq> m" by blast
      moreover have "k + 1 \<noteq> m" using less.prems(1) m(2) by auto
      ultimately have k: "k + 2 \<le> m" using less.prems(2) by linarith
      then have w: "(k + 2) mod SIZE_MOD = k + 2" using m(4) by (intro mod_less) linarith
      have "\<exists>r. next_probable_prime (k + 2) = Some r \<and> k + 2 \<le> r"
        using less.hyps [of "k + 2"] k less.prems(1) by simp
      then show ?thesis using False w by (subst next_probable_prime.simps) (auto intro: order_trans [of k "k + 2"])
    qed
  qed
  then show ?thesis using assms(1) m(3) by blast
qed


text \<open>What is needed of the rounding: numbers do not become negative and at most double.\<close>

definition float_ok :: "(rat \<Rightarrow> rat) \<Rightarrow> bool" where
  "float_ok fround \<longleftrightarrow> (\<forall>x \<ge> 0. 0 \<le> fround x \<and> fround x \<le> 2 * x)"

lemma CalculateIdealNumOfBuckets_ok:
  assumes fl: "float_ok fround" and "1 \<le> ht_idealRatio t" "ht_numOfElements t \<le> 2 ^ 60"
  shows "\<exists>n. HashTable_CalculateIdealNumOfBuckets fround t = Success n t \<and> 5 \<le> n"
proof -
  let ?N = "of_nat (ht_numOfElements t) :: rat"
  let ?tmp = "fround (fround ?N / ht_idealRatio t)"
  have a: "0 \<le> fround ?N" "fround ?N \<le> 2 * ?N" using fl by (simp_all add: float_ok_def)
  have "fround ?N / ht_idealRatio t \<le> fround ?N / 1"
    using a(1) assms(2) by (intro divide_left_mono) auto
  moreover have "0 \<le> fround ?N / ht_idealRatio t" using a(1) assms(2) by simp
  moreover from this have "?tmp \<le> 2 * (fround ?N / ht_idealRatio t)"
    using fl unfolding float_ok_def by blast
  ultimately have "?tmp \<le> of_nat (4 * ht_numOfElements t)" using a by simp
  then have "\<lfloor>?tmp\<rfloor> \<le> int (4 * ht_numOfElements t)" using floor_mono floor_of_nat by metis
  then have "nat \<lfloor>?tmp\<rfloor> \<le> 2 ^ 62" using assms(3) by simp
  define ideal where "ideal = (if nat \<lfloor>?tmp\<rfloor> < 5 then 5 else nat \<lfloor>?tmp\<rfloor> OR 1)"
  have "odd ideal" "5 \<le> ideal" "ideal \<le> 2 ^ 63"
    using \<open>nat \<lfloor>?tmp\<rfloor> \<le> 2 ^ 62\<close> unfolding ideal_def or_one_eq by auto
  with next_probable_prime_Some [of ideal] show ?thesis
    by (auto simp: HashTable_CalculateIdealNumOfBuckets_def Let_def ideal_def [symmetric])
qed

section \<open>Rehashing\<close>

text \<open>What every operation leaves as it is.\<close>

definition ht_frame :: "('k, 'v) wHashTable \<Rightarrow> ('k, 'v) wHashTable \<Rightarrow> bool" where
  "ht_frame t u \<longleftrightarrow> ht_key u = ht_key t \<and> ht_value u = ht_value t \<and> ht_hash u = ht_hash t \<and>
     ht_idealRatio u = ht_idealRatio t \<and> ht_lowerRehashThreshold u = ht_lowerRehashThreshold t \<and>
     ht_upperRehashThreshold u = ht_upperRehashThreshold t \<and>
     ht_foreachRecursionLevel u = ht_foreachRecursionLevel t"

definition ht_ready :: "(rat \<Rightarrow> rat) \<Rightarrow> ('k, 'v) wHashTable \<Rightarrow> bool" where
  "ht_ready fround t \<longleftrightarrow> float_ok fround \<and> 1 \<le> ht_idealRatio t \<and> ht_numOfElements t \<le> 2 ^ 60"

lemma mset_short_eq: "mset xs = mset ys \<Longrightarrow> length xs \<le> 1 \<Longrightarrow> xs = ys"
  by (cases xs; cases ys) (auto dest: mset_eq_length)

lemma same_pairs:
  assumes wf: "wf_ht t" and fr: "ht_frame t u" and h: "hashed (ht_hash u) (ht_numOfBuckets u) (ht_bucketArray u)"
    and m: "mset (pairs u) = mset (pairs t)"
  shows "wf_ht u" "k \<noteq> None \<Longrightarrow> matches u k = matches t k"
proof -
  have e: "HashTable_Equals u = HashTable_Equals t" "key_laws u = key_laws t"
    using fr by (simp_all add: ht_frame_def HashTable_Equals_def key_laws_def fun_eq_iff)
  have mm: "matches u k = matches t k" if "k \<noteq> None" for k
  proof (rule mset_short_eq [symmetric])
    show "mset (matches t k) = mset (matches u k)" by (simp add: matches_def e m)
    show "length (matches t k) \<le> 1" using wf that by (simp add: wf_ht_def)
  qed
  then show "k \<noteq> None \<Longrightarrow> matches u k = matches t k" .
  show "wf_ht u" using wf h mm by (simp add: wf_ht_def e)
qed

lemma pair_key:
  assumes "wf_ht t" "p \<in> set (pairs t)"
  shows "kv_key p \<noteq> None"
proof -
  have h: "hashed (ht_hash t) (ht_numOfBuckets t) (ht_bucketArray t)" using assms(1) by (simp add: wf_ht_def)
  obtain b where "b \<in> set (ht_bucketArray t)" "p \<in> set b" using assms(2) by (auto simp: pairs_def)
  moreover from this obtain i where "i < ht_numOfBuckets t" "b = ht_bucketArray t ! i"
    using h by (auto simp: in_set_conv_nth hashed_def)
  ultimately show ?thesis using hashedD [OF h] by blast
qed

lemma HashTable_Rehash_ok:
  assumes wf: "wf_ht t" and r: "n = 0 \<Longrightarrow> ht_ready fround t"
  shows "\<exists>u. HashTable_Rehash fround mem n t = Success () u \<and> wf_ht u \<and> ht_frame t u \<and>
    (\<forall>k. k \<noteq> None \<longrightarrow> matches u k = matches t k) \<and> mset (pairs u) = mset (pairs t) \<and>
    ht_numOfElements u = ht_numOfElements t \<and> ht_pendingRemoves u = ht_pendingRemoves t"
proof -
  obtain m where m: "(if n = 0 then HashTable_CalculateIdealNumOfBuckets fround else return_c n) t = Success m t" "0 < m"
    using CalculateIdealNumOfBuckets_ok [of fround t] r by (cases "n = 0") (auto simp: ht_ready_def return_c_def)
  let ?u = "t\<lparr>ht_bucketArray := fold (rehash_pair (ht_hash t) m) (pairs t) (replicate m []), ht_numOfBuckets := m\<rparr>"
  have keys: "\<forall>p \<in> set (pairs t). kv_key p \<noteq> None" using pair_key [OF wf] by blast
  have fr: "ht_frame t t" "ht_frame t ?u" by (simp_all add: ht_frame_def)
  have h: "hashed (ht_hash ?u) (ht_numOfBuckets ?u) (ht_bucketArray ?u)"
    using rehash_hashed [OF m(2) keys, of "ht_hash t"] by simp
  have ms: "mset (pairs ?u) = mset (pairs t)"
    using rehash_mset [OF m(2), of "replicate m []" "ht_hash t" "pairs t"] by (simp add: pairs_def)
  have "HashTable_Rehash fround mem n t = Success () (if m = ht_numOfBuckets t \<or> \<not> mem (m * PTR_SIZE) then t else ?u)"
    unfolding HashTable_Rehash_def bind_c_def m(1) by (auto simp: pairs_def)
  then show ?thesis using wf fr ms same_pairs [OF wf fr(2) h ms] by auto
qed


section \<open>Insertion and removal\<close>

definition live :: "('k, 'v) wHashTable \<Rightarrow> nat" where
  "live t = length (filter (\<lambda>p. \<not> kv_markedForRemove p) (pairs t))"

lemma live_set_bucket:
  "h < length (ht_bucketArray t) \<Longrightarrow> live (set_bucket h c t) +
     length (filter (\<lambda>p. \<not> kv_markedForRemove p) (ht_bucketArray t ! h)) =
   live t + length (filter (\<lambda>p. \<not> kv_markedForRemove p) c)"
  using filter_concat_update [of h "ht_bucketArray t" "\<lambda>p. \<not> kv_markedForRemove p" c]
  by (simp add: live_def pairs_def)

lemma live_mset: "mset (pairs u) = mset (pairs t) \<Longrightarrow> live u = live t"
  unfolding live_def by (metis mset_filter size_mset)

lemma live_counters [simp]:
  "live (t\<lparr>ht_numOfElements := n\<rparr>) = live t" "live (t\<lparr>ht_pendingRemoves := x\<rparr>) = live t"
  by (simp_all add: live_def)

lemma wf_bucket_length: "wf_ht t \<Longrightarrow> bucket t k < length (ht_bucketArray t)"
  using wf_bucket [of t k] by (simp add: wf_ht_def hashed_def)

text \<open>The value an insertion leaves: the same pointer is not copied again.\<close>

definition inserted_value :: "('k, 'v) wHashTable \<Rightarrow> 'k option \<Rightarrow> 'v option \<Rightarrow> 'v option" where
  "inserted_value t k v =
     (if \<exists>p \<in> set (matches t k). kv_value p = v then v else stored (ht_value t) v)"

definition inserted :: "('k, 'v) wHashTable \<Rightarrow> 'k option \<Rightarrow> 'v option \<Rightarrow> ('k, 'v) wHashTable \<Rightarrow> bool" where
  "inserted t k v u \<longleftrightarrow> wf_ht u \<and> ht_frame t u \<and>
     (\<exists>q. kv_value q = inserted_value t k v \<and> \<not> kv_markedForRemove q \<and>
       (\<forall>k'. k' \<noteq> None \<longrightarrow> matches u k' = (if key_eq t k k' then [q] else matches t k'))) \<and>
     ht_numOfElements u \<le> ht_numOfElements t + 1 \<and>
     (ht_numOfElements t = live t \<longrightarrow> ht_numOfElements u = live u)"

lemma insert_existing_ok:
  assumes wf: "wf_ht t" and k: "k \<noteq> None" and ch: "chain_from t (bucket t k) k = p # after"
    and n: "ht_numOfElements t \<le> 2 ^ 60"
  shows "\<exists>f u. insert_existing (bucket t k) k v (chain_before t (bucket t k) k) p after t = Success f u \<and>
    inserted t k v u"
proof -
  note c = chain_Cons [OF wf k ch]
  define q where "q = \<lparr>kv_key = (if kv_key p \<noteq> k then stored (ht_key t) k else kv_key p),
    kv_value = (if kv_value p \<noteq> v then stored (ht_value t) v else kv_value p), kv_markedForRemove = False\<rparr>"
  define u where "u = set_bucket (bucket t k) (chain_before t (bucket t k) k @ q # after)
    (if kv_markedForRemove p then t\<lparr>ht_pendingRemoves := ht_pendingRemoves t - 1,
       ht_numOfElements := (ht_numOfElements t + 1) mod SIZE_MOD\<rparr> else t)"
  have kl: "key_laws t" using wf by (simp add: wf_ht_def)
  have q: "kv_key q \<noteq> None" "key_eq t k (kv_key q)"
    using key_stored [OF kl k] key_refl [OF kl k] k by (auto simp: q_def)
  note r = replace_pair [OF wf k ch q]
  have "\<exists>f. insert_existing (bucket t k) k v (chain_before t (bucket t k) k) p after t = Success f u"
    by (cases p) (auto simp: insert_existing_def Let_def u_def q_def setKey_def setValue_def stored_def
        split: option.splits)
  moreover have u: "u = (if kv_markedForRemove p then (set_bucket (bucket t k) (chain_before t (bucket t k) k @ q # after) t)
      \<lparr>ht_pendingRemoves := ht_pendingRemoves t - 1, ht_numOfElements := ht_numOfElements t + 1\<rparr>
      else set_bucket (bucket t k) (chain_before t (bucket t k) k @ q # after) t)"
    using n by (simp add: u_def set_bucket_def)
  moreover have "kv_value q = inserted_value t k v" using c(1) by (simp add: q_def inserted_value_def)
  moreover have nm: "\<not> kv_markedForRemove q" by (simp add: q_def)
  moreover have "live (set_bucket (bucket t k) (chain_before t (bucket t k) k @ q # after) t) =
      (if kv_markedForRemove p then live t + 1 else live t)"
    using live_set_bucket [OF wf_bucket_length [OF wf, of k], of "chain_before t (bucket t k) k @ q # after"]
      c(4) nm by (cases "kv_markedForRemove p") simp_all
  moreover have "ht_frame t u" unfolding u by (simp add: ht_frame_def set_bucket_def)
  ultimately show ?thesis using r unfolding inserted_def by (cases "kv_markedForRemove p") auto
qed


lemma insert_new_ok:
  assumes wf: "wf_ht t" and k: "k \<noteq> None" and none: "matches t k = []" and r: "ht_ready fround t"
    and n: "ht_numOfElements t < 2 ^ 60"
  shows "\<exists>f u. insert_new fround mem (bucket t k) k v t = Success f u \<and> inserted t k v u"
proof -
  define q where "q = \<lparr>kv_key = stored (ht_key t) k, kv_value = stored (ht_value t) v, kv_markedForRemove = False\<rparr>"
  define s where "s = set_bucket (bucket t k) (q # ht_bucketArray t ! bucket t k) t"
  define u where "u = s\<lparr>ht_numOfElements := ht_numOfElements t + 1\<rparr>"
  have kl: "key_laws t" using wf by (simp add: wf_ht_def)
  have q: "kv_key q \<noteq> None" "key_eq t k (kv_key q)" using key_stored [OF kl k] by (auto simp: q_def)
  note a = add_pair [OF wf none q, folded s_def]
  have wu: "wf_ht u" and fu: "ht_frame t u" and ru: "ht_ready fround u"
    using a r n by (auto simp: u_def s_def ht_frame_def ht_ready_def set_bucket_def)
  let ?re = "\<lambda>u. ht_foreachRecursionLevel u = 0 \<and> ht_upperRehashThreshold u > ht_idealRatio u \<and>
    fround (fround (of_nat (ht_numOfElements u)) / fround (of_nat (ht_numOfBuckets u))) > ht_upperRehashThreshold u"
  obtain w where w: "(if ?re u then HashTable_Rehash fround mem 0 else return_c ()) u = Success () w" "wf_ht w"
    "ht_frame u w" "\<forall>k. k \<noteq> None \<longrightarrow> matches w k = matches u k" "mset (pairs w) = mset (pairs u)"
    "ht_numOfElements w = ht_numOfElements u"
    using HashTable_Rehash_ok [OF wu, of 0 fround mem] ru wu
    by (cases "?re u") (auto simp: return_c_def ht_frame_def)
  have "insert_new fround mem (bucket t k) k v t =
      bind_c (if ?re u then HashTable_Rehash fround mem 0 else return_c ())
        (\<lambda>_. return_c (disposeKey t None @ disposeValue t None)) u"
    using n by (simp add: insert_new_def Let_def setKey_def setValue_def u_def s_def q_def stored_def)
  then have "\<exists>f. insert_new fround mem (bucket t k) k v t = Success f w"
    using w(1) by (simp add: bind_c_def return_c_def)
  moreover have "inserted t k v w"
  proof -
    have "live s = live t + 1"
      using live_set_bucket [OF wf_bucket_length [OF wf, of k], of "q # ht_bucketArray t ! bucket t k"]
      by (simp add: s_def q_def)
    then have "ht_numOfElements t = live t \<longrightarrow> ht_numOfElements w = live w"
      using live_mset [OF w(5)] w(6) by (simp add: u_def)
    moreover have "ht_frame t w" using fu w(3) by (simp add: ht_frame_def)
    moreover have "kv_value q = inserted_value t k v" "\<not> kv_markedForRemove q"
      by (simp_all add: q_def inserted_value_def none)
    moreover have "\<forall>k'. k' \<noteq> None \<longrightarrow> matches w k' = (if key_eq t k k' then [q] else matches t k')"
      using w(4) a by (simp add: u_def)
    moreover have "ht_numOfElements w \<le> ht_numOfElements t + 1" using w(6) by (simp add: u_def)
    ultimately show ?thesis using w(2) unfolding inserted_def by blast
  qed
  ultimately show ?thesis by blast
qed


lemma HashTable_Insert_ok:
  assumes wf: "wf_ht t" and k: "k \<noteq> None" and v: "v \<noteq> None" and r: "ht_ready fround t"
    and n: "ht_numOfElements t < 2 ^ 60" and mem: "matches t k \<noteq> [] \<or> mem pairsize"
  shows "\<exists>f u. HashTable_Insert fround mem pairsize k v t = Success f u \<and> inserted t k v u"
proof (cases "chain_from t (bucket t k) k")
  case Nil
  then have none: "matches t k = []" using chain_Nil [OF wf] by simp
  with mem have "mem pairsize" by simp
  with Nil wf k v insert_new_ok [OF wf k none r n, of mem v] show ?thesis
    by (auto simp: HashTable_Insert_def bind_c_def bucket_of_ok)
next
  case (Cons p after)
  with wf k v n insert_existing_ok [OF wf k Cons, of v] show ?thesis
    by (auto simp: HashTable_Insert_def bind_c_def bucket_of_ok)
qed

text \<open>Removal outside of a \<open>HashTable_Foreach\<close> unlinks the entry, inside it only marks it.\<close>

definition removed :: "('k, 'v) wHashTable \<Rightarrow> 'k option \<Rightarrow> ('k, 'v) wHashTable \<Rightarrow> bool" where
  "removed t k u \<longleftrightarrow> wf_ht u \<and> ht_frame t u \<and> (\<forall>k'. k' \<noteq> None \<longrightarrow>
     ht_map u k' = (if key_eq t k k' then None else ht_map t k') \<and>
     (ht_has u k' \<longleftrightarrow> \<not> key_eq t k k' \<and> ht_has t k'))"

lemma HashTable_Remove_absent:
  assumes "wf_ht t" "k \<noteq> None" "matches t k = []"
  shows "HashTable_Remove fround mem k t = Failure t"
  using assms chain_Nil [OF assms(1), of k]
  by (auto simp: HashTable_Remove_def bind_c_def bucket_of_ok)

lemma HashTable_Remove_marks:
  assumes wf: "wf_ht t" and k: "k \<noteq> None" and p: "matches t k = [p]" and l: "ht_foreachRecursionLevel t \<noteq> 0"
  shows "\<exists>u. HashTable_Remove fround mem k t = Success [] u \<and> removed t k u"
proof -
  obtain q after where ch: "chain_from t (bucket t k) k = q # after"
    using chain_Nil [OF wf, of k] p by (cases "chain_from t (bucket t k) k") auto
  note c = chain_Cons [OF wf k ch]
  let ?q = "q\<lparr>kv_markedForRemove := True\<rparr>"
  let ?s = "set_bucket (bucket t k) (chain_before t (bucket t k) k @ ?q # after) t"
  let ?u = "?s\<lparr>ht_pendingRemoves := ht_pendingRemoves t + 1,
    ht_numOfElements := (ht_numOfElements t + (SIZE_MOD - 1)) mod SIZE_MOD\<rparr>"
  have "kv_key ?q \<noteq> None" "key_eq t k (kv_key ?q)"
    using c(2,4) bucket_members [OF wf, of k] by (auto simp: HashTable_Equals_def)
  note r = replace_pair [OF wf k ch this]
  have "HashTable_Remove fround mem k t = Success [] ?u"
    using ch wf k l by (auto simp: HashTable_Remove_def bind_c_def bucket_of_ok)
  moreover have "removed t k ?u"
    using r unfolding removed_def by (auto simp: ht_map_def ht_has_def ht_frame_def set_bucket_def)
  ultimately show ?thesis by blast
qed

lemma pred_mod: "0 < n \<Longrightarrow> n \<le> 2 ^ 60 \<Longrightarrow> (n + (SIZE_MOD - 1)) mod SIZE_MOD = n - (1::nat)"
proof -
  assume n: "0 < n" "n \<le> 2 ^ 60"
  then have "n + (SIZE_MOD - 1) = (n - 1) + SIZE_MOD" by simp
  moreover have "n - 1 < SIZE_MOD" using n by auto
  ultimately show ?thesis by (simp only: mod_add_self2 mod_less)
qed

lemma HashTable_Remove_ok:
  assumes wf: "wf_ht t" and k: "k \<noteq> None" and p: "matches t k = [p]" and l: "ht_foreachRecursionLevel t = 0"
    and r: "ht_ready fround t" and n: "0 < ht_numOfElements t"
  shows "\<exists>u. HashTable_Remove fround mem k t = Success (disposePair t p) u \<and> removed t k u \<and>
    (\<forall>k'. k' \<noteq> None \<longrightarrow> matches u k' = (if key_eq t k k' then [] else matches t k')) \<and>
    ht_numOfElements u \<le> ht_numOfElements t \<and>
    (ht_numOfElements t = live t \<longrightarrow> \<not> kv_markedForRemove p \<longrightarrow> ht_numOfElements u = live u)"
proof -
  obtain q after where ch: "chain_from t (bucket t k) k = q # after"
    using chain_Nil [OF wf, of k] p by (cases "chain_from t (bucket t k) k") auto
  note c = chain_Cons [OF wf k ch]
  have q: "q = p" using c(1) p by simp
  define s where "s = set_bucket (bucket t k) (chain_before t (bucket t k) k @ after) t"
  define u where "u = s\<lparr>ht_numOfElements := ht_numOfElements t - 1\<rparr>"
  note a = remove_pair [OF wf k ch, folded s_def]
  have m: "(ht_numOfElements t + (SIZE_MOD - 1)) mod SIZE_MOD = ht_numOfElements t - 1"
    by (rule pred_mod [OF n]) (use r in \<open>simp add: ht_ready_def\<close>)
  have wu: "wf_ht u" and fu: "ht_frame t u" and ru: "ht_ready fround u"
    using a r by (auto simp: u_def s_def ht_frame_def ht_ready_def set_bucket_def)
  let ?re = "\<lambda>u. ht_lowerRehashThreshold u > 0 \<and>
    fround (fround (of_nat (ht_numOfElements u)) / fround (of_nat (ht_numOfBuckets u))) < ht_lowerRehashThreshold u"
  obtain w where w: "(if ?re u then HashTable_Rehash fround mem 0 else return_c ()) u = Success () w" "wf_ht w"
    "ht_frame u w" "\<forall>k. k \<noteq> None \<longrightarrow> matches w k = matches u k" "mset (pairs w) = mset (pairs u)"
    "ht_numOfElements w = ht_numOfElements u"
    using HashTable_Rehash_ok [OF wu, of 0 fround mem] ru wu
    by (cases "?re u") (auto simp: return_c_def ht_frame_def)
  have "HashTable_Remove fround mem k t = bind_c (if ?re u then HashTable_Rehash fround mem 0 else return_c ())
      (\<lambda>_. return_c (disposePair u p)) u"
    unfolding HashTable_Remove_def bind_c_def [of "bucket_of k"]
    by (simp add: bucket_of_ok [OF wf] Let_def m [simplified] u_def s_def q k l ch)
  moreover have "disposePair u p = disposePair t p"
    by (simp add: u_def s_def disposePair_def disposeKey_def disposeValue_def)
  ultimately have "HashTable_Remove fround mem k t = Success (disposePair t p) w"
    using w(1) by (simp add: bind_c_def return_c_def)
  moreover have mw: "\<forall>k'. k' \<noteq> None \<longrightarrow> matches w k' = (if key_eq t k k' then [] else matches t k')"
    using w(4) a by (simp add: u_def)
  moreover have "removed t k w"
  proof -
    have "ht_frame t w" using fu w(3) by (simp add: ht_frame_def)
    with mw show ?thesis using w(2) unfolding removed_def by (auto simp: ht_map_def ht_has_def)
  qed
  moreover have "ht_numOfElements w \<le> ht_numOfElements t" using w(6) by (simp add: u_def)
  moreover have "ht_numOfElements w = live w" if "ht_numOfElements t = live t" "\<not> kv_markedForRemove p"
  proof -
    have "live s + 1 = live t"
      using live_set_bucket [OF wf_bucket_length [OF wf, of k], of "chain_before t (bucket t k) k @ after"]
        c(4) that(2) q by (simp add: s_def)
    then show ?thesis using live_mset [OF w(5)] w(6) that(1) by (simp add: u_def)
  qed
  ultimately show ?thesis by blast
qed

section \<open>The hash table as a map\<close>

definition clean :: "('k, 'v) wHashTable \<Rightarrow> bool" where
  "clean t \<longleftrightarrow> (\<forall>p \<in> set (pairs t). \<not> kv_markedForRemove p)"

lemma clean_matches: "clean t \<Longrightarrow> p \<in> set (matches t k) \<Longrightarrow> \<not> kv_markedForRemove p"
  by (simp add: clean_def matches_def)

lemma cleanI:
  assumes "wf_ht t" "\<And>k p. k \<noteq> None \<Longrightarrow> p \<in> set (matches t k) \<Longrightarrow> \<not> kv_markedForRemove p"
  shows "clean t"
  unfolding clean_def
proof
  fix p assume p: "p \<in> set (pairs t)"
  then have k: "kv_key p \<noteq> None" by (rule pair_key [OF assms(1)])
  then have "HashTable_Equals t p (kv_key p)"
    using assms(1) key_refl by (auto simp: HashTable_Equals_def wf_ht_def)
  with p have "p \<in> set (matches t (kv_key p))" by (simp add: matches_def)
  with assms(2) k show "\<not> kv_markedForRemove p" by blast
qed

text \<open>A table outside of any iteration, whose values are stored as they are given.\<close>

definition ht_inv :: "(rat \<Rightarrow> rat) \<Rightarrow> 'k wObject \<Rightarrow> ('k, 'v) wHashTable \<Rightarrow> bool" where
  "ht_inv fround ob t \<longleftrightarrow> wf_ht t \<and> clean t \<and> ht_key t = ob \<and> fnObjectNew (ht_value t) = None \<and>
     ht_foreachRecursionLevel t = 0 \<and> ht_ready fround t \<and> ht_numOfElements t = live t"

definition ht_put :: "(rat \<Rightarrow> rat) \<Rightarrow> realloc \<Rightarrow> nat \<Rightarrow> 'k \<Rightarrow> 'v \<Rightarrow> ('k, 'v) wHashTable \<Rightarrow> ('k, 'v) wHashTable option" where
  "ht_put fround mem pairsize k v t =
     (if ht_numOfElements t < 2 ^ 60 then
        case HashTable_Insert fround mem pairsize (Some k) (Some v) t of Success _ u \<Rightarrow> Some u | _ \<Rightarrow> None
      else None)"

definition ht_del :: "(rat \<Rightarrow> rat) \<Rightarrow> realloc \<Rightarrow> 'k \<Rightarrow> ('k, 'v) wHashTable \<Rightarrow> ('k, 'v) wHashTable option" where
  "ht_del fround mem k t =
     (case HashTable_Remove fround mem (Some k) t of Success _ u \<Rightarrow> Some u | Failure u \<Rightarrow> Some u | _ \<Rightarrow> None)"

lemma live_pos: "clean t \<Longrightarrow> matches t k = [p] \<Longrightarrow> 0 < live t"
proof -
  assume "clean t" "matches t k = [p]"
  then have "p \<in> set (pairs t)" "\<not> kv_markedForRemove p"
    using clean_matches [of t p k] by (auto simp: matches_def filter_eq_Cons_iff)
  then have "p \<in> set (filter (\<lambda>p. \<not> kv_markedForRemove p) (pairs t))" by simp
  then show ?thesis unfolding live_def by (metis length_pos_if_in_set)
qed

lemma ht_put_law:
  assumes inv: "ht_inv fround ob t" and put: "ht_put fround mem ps k v t = Some u"
  shows "ht_inv fround ob u"
    "(\<lambda>k. ht_map u (Some k)) = map_spec (\<lambda>a b. fnObjectEquals ob (Some a) (Some b)) (MapPut k v) (\<lambda>k. ht_map t (Some k))"
proof -
  have wf: "wf_ht t" and r: "ht_ready fround t" using inv by (simp_all add: ht_inv_def)
  have n: "ht_numOfElements t < 2 ^ 60" using put by (simp add: ht_put_def split: if_splits)
  have mem: "matches t (Some k) \<noteq> [] \<or> mem ps"
    using put n wf chain_Nil [OF wf, of "Some k"]
    by (auto simp: ht_put_def HashTable_Insert_def bind_c_def bucket_of_ok split: if_splits)
  obtain f where "HashTable_Insert fround mem ps (Some k) (Some v) t = Success f u"
    using put n by (auto simp: ht_put_def split: outcome.splits)
  with HashTable_Insert_ok [of t "Some k" "Some v" fround mem ps] wf r n mem have i: "inserted t (Some k) (Some v) u" by simp
  then obtain q where q: "kv_value q = inserted_value t (Some k) (Some v)" "\<not> kv_markedForRemove q"
    "\<forall>k'. k' \<noteq> None \<longrightarrow> matches u k' = (if key_eq t (Some k) k' then [q] else matches t k')"
    unfolding inserted_def by blast
  have val: "inserted_value t (Some k) (Some v) = Some v"
    using inv by (simp add: inserted_value_def stored_def ht_inv_def)
  have "clean u"
  proof (rule cleanI)
    show "wf_ht u" using i by (simp add: inserted_def)
    show "\<not> kv_markedForRemove p" if "k' \<noteq> None" "p \<in> set (matches u k')" for k' p
      using that q(2,3) clean_matches [of t p k'] inv by (auto simp: ht_inv_def split: if_splits)
  qed
  then show "ht_inv fround ob u" using i inv n by (auto simp: ht_inv_def inserted_def ht_frame_def ht_ready_def)
  show "(\<lambda>k. ht_map u (Some k)) = map_spec (\<lambda>a b. fnObjectEquals ob (Some a) (Some b)) (MapPut k v) (\<lambda>k. ht_map t (Some k))"
    using q val inv by (auto simp: ht_map_def ht_inv_def)
qed

lemma ht_del_law:
  assumes inv: "ht_inv fround ob t" and del: "ht_del fround mem k t = Some u"
  shows "ht_inv fround ob u"
    "(\<lambda>k. ht_map u (Some k)) = map_spec (\<lambda>a b. fnObjectEquals ob (Some a) (Some b)) (MapDel k) (\<lambda>k. ht_map t (Some k))"
proof -
  have wf: "wf_ht t" and r: "ht_ready fround t" and c: "clean t" and l: "ht_foreachRecursionLevel t = 0"
    and n: "ht_numOfElements t = live t" and ob: "ht_key t = ob"
    using inv by (simp_all add: ht_inv_def)
  have kn: "Some k \<noteq> None" by simp
  have "ht_inv fround ob u \<and> (\<forall>k'. matches u (Some k') = (if key_eq t (Some k) (Some k') then [] else matches t (Some k')))"
    using wf kn
  proof (cases rule: matches_cases)
    case absent
    then have "u = t" using del HashTable_Remove_absent [OF wf _ absent] by (simp add: ht_del_def)
    moreover have "matches t (Some k') = []" if "key_eq t (Some k) (Some k')" for k'
      using equals_class [OF wf that] absent by (simp add: matches_def)
    ultimately show ?thesis using inv by auto
  next
    case (present p)
    have m: "\<not> kv_markedForRemove p" using clean_matches [OF c, of p "Some k"] present by simp
    obtain v where v: "HashTable_Remove fround mem (Some k) t = Success (disposePair t p) v" "removed t (Some k) v"
      "\<forall>k'. k' \<noteq> None \<longrightarrow> matches v k' = (if key_eq t (Some k) k' then [] else matches t k')"
      "ht_numOfElements v \<le> ht_numOfElements t" "ht_numOfElements v = live v"
      using HashTable_Remove_ok [OF wf _ present l r, of mem] live_pos [OF c present] n m by auto
    moreover from v del have "u = v" by (simp add: ht_del_def)
    moreover have "clean v"
      by (rule cleanI) (use v(2,3) clean_matches [OF c] in \<open>auto simp: removed_def split: if_splits\<close>)
    ultimately show ?thesis using inv by (auto simp: ht_inv_def removed_def ht_frame_def ht_ready_def)
  qed
  then show "ht_inv fround ob u" "(\<lambda>k. ht_map u (Some k)) = map_spec (\<lambda>a b. fnObjectEquals ob (Some a) (Some b)) (MapDel k) (\<lambda>k. ht_map t (Some k))"
    using ob by (auto simp: ht_map_def)
qed

interpretation ht: keyed_map "\<lambda>t k. ht_map t (Some k)" "ht_inv fround ob"
    "\<lambda>a b. fnObjectEquals ob (Some a) (Some b)" "ht_put fround mem pairsize" "ht_del fround mem"
    for fround ob mem pairsize
  by unfold_locales ((rule conjI, erule (1) ht_put_law, erule (1) ht_put_law)
    | (rule conjI, erule (1) ht_del_law, erule (1) ht_del_law))+

section \<open>Clearing and listing\<close>

lemma clear_loop_ok:
  "ht_foreachRecursionLevel t = 0 \<Longrightarrow> clear_loop t b freed = Some (t, freed @ concat (map (disposePair t) b))"
proof (induction b arbitrary: freed)
  case Nil show ?case by (subst clear_loop.simps) simp
next
  case (Cons p b)
  then show ?case by (subst clear_loop.simps) simp
qed

lemma clear_buckets_ok:
  "ht_foreachRecursionLevel t = 0 \<Longrightarrow>
     clear_buckets t bs freed = Some (t, freed @ concat (map (disposePair t) (concat bs)))"
  by (induction bs arbitrary: freed) (simp_all add: clear_loop_ok)

lemma clear_loop_returns:
  "clear_loop t b freed = Some r \<Longrightarrow> ht_foreachRecursionLevel t \<noteq> 0 \<longrightarrow> b = []"
  by (erule clear_loop.raw_induct [where P = "\<lambda>t b freed r. ht_foreachRecursionLevel t \<noteq> 0 \<longrightarrow> b = []", rotated])
    (fastforce split: list.splits if_splits)

lemma HashTable_Clear_ok:
  assumes inv: "ht_inv fround ob t"
  shows "\<exists>u. HashTable_Clear fround mem t = Success (concat (map (disposePair t) (pairs t))) u \<and>
    ht_inv fround ob u \<and> pairs u = []"
proof -
  let ?t = "t\<lparr>ht_bucketArray := replicate (length (ht_bucketArray t)) [], ht_numOfElements := 0\<rparr>"
  have wf: "wf_ht ?t"
    using inv by (auto simp: ht_inv_def wf_ht_def key_laws_def hashed_def matches_def pairs_def HashTable_Equals_def)
  obtain u where u: "HashTable_Rehash fround mem 5 ?t = Success () u" "wf_ht u" "ht_frame ?t u"
    "mset (pairs u) = mset (pairs ?t)" "ht_numOfElements u = ht_numOfElements ?t"
    using HashTable_Rehash_ok [OF wf, of 5 fround mem] by auto
  have e: "pairs u = []" using u(4) by (simp add: pairs_def)
  have "HashTable_Clear fround mem t = Success (concat (map (disposePair t) (pairs t))) u"
    using inv u(1) by (simp add: HashTable_Clear_def clear_buckets_ok ht_inv_def bind_c_def return_c_def pairs_def)
  moreover have "ht_inv fround ob u"
    using inv u(2,3,5) e by (auto simp: ht_inv_def clean_def live_def ht_frame_def ht_ready_def)
  ultimately show ?thesis using e by blast
qed

lemma HashTable_GetKeys_ok:
  assumes "ht_inv fround ob t" "mem (ht_numOfElements t * 8)"
  shows "HashTable_GetKeys mem t = Success (length (pairs t), map kv_key (pairs t)) t"
proof -
  have "filter (\<lambda>p. \<not> kv_markedForRemove p) (pairs t) = pairs t"
    using assms(1) by (auto simp: ht_inv_def clean_def intro: filter_True)
  with assms show ?thesis
    by (cases "pairs t") (auto simp: HashTable_GetKeys_def ht_inv_def live_def pairs_def [symmetric] Let_def)
qed

section \<open>Iteration\<close>

text \<open>A callback that records its arguments and removes the entries of the selected keys.\<close>

definition visitor :: "(rat \<Rightarrow> rat) \<Rightarrow> realloc \<Rightarrow> ('k option \<Rightarrow> bool) \<Rightarrow>
  ('k, 'v, ('k option \<times> 'v option) list) foreach_fn" where
  "visitor fround mem sel key val c t = (True, c @ [(key, val)],
     if sel key then
       (case HashTable_Remove fround mem key t of Success _ u \<Rightarrow> u | Failure u \<Rightarrow> u | Fault _ \<Rightarrow> t)
     else t)"

definition select :: "('k option \<Rightarrow> bool) \<Rightarrow> ('k, 'v) wKeyValuePair \<Rightarrow> ('k, 'v) wKeyValuePair" where
  "select sel p = p\<lparr>kv_markedForRemove := sel (kv_key p)\<rparr>"

abbreviation key_value :: "('k, 'v) wKeyValuePair \<Rightarrow> 'k option \<times> 'v option" where
  "key_value p \<equiv> (kv_key p, kv_value p)"

definition fe_inv :: "('k, 'v) wHashTable \<Rightarrow> bool" where
  "fe_inv t \<longleftrightarrow> wf_ht t \<and> ht_foreachRecursionLevel t \<noteq> 0 \<and> ht_numOfElements t = live t \<and>
     ht_numOfElements t \<le> 2 ^ 60 \<and> ht_pendingRemoves t = of_nat (length (filter kv_markedForRemove (pairs t)))"

lemma ht_frame_trans: "ht_frame t u \<Longrightarrow> ht_frame u w \<Longrightarrow> ht_frame t w"
  by (simp add: ht_frame_def)

lemma chain_position:
  assumes wf: "wf_ht t" and i: "i < ht_numOfBuckets t" and b: "ht_bucketArray t ! i = done @ p # rest"
  shows "kv_key p \<noteq> None" "bucket t (kv_key p) = i" "chain_before t i (kv_key p) = done"
    "chain_from t i (kv_key p) = p # rest"
proof -
  have h: "hashed (ht_hash t) (ht_numOfBuckets t) (ht_bucketArray t)" using wf by (simp add: wf_ht_def)
  show k: "kv_key p \<noteq> None" and bk: "bucket t (kv_key p) = i" using hashedD [OF h i, of p] b by (auto simp: bucket_def)
  let ?P = "\<lambda>q. HashTable_Equals t q (kv_key p)"
  have p: "?P p" using wf k key_refl by (auto simp: HashTable_Equals_def wf_ht_def)
  have "length (filter ?P (done @ p # rest)) \<le> 1"
    using wf k matches_bucket [OF wf, of "kv_key p"] bk b by (auto simp: wf_ht_def)
  then have "filter ?P done = []" using p by auto
  then have "\<forall>q \<in> set done. \<not> ?P q" by (auto simp: filter_empty_conv)
  with p show "chain_before t i (kv_key p) = done" "chain_from t i (kv_key p) = p # rest"
    by (simp_all add: chain_before_def chain_from_def b takeWhile_append2 dropWhile_append2)
qed

lemma marked_set_bucket:
  "h < length (ht_bucketArray t) \<Longrightarrow> length (filter kv_markedForRemove (pairs (set_bucket h c t))) +
     length (filter kv_markedForRemove (ht_bucketArray t ! h)) =
   length (filter kv_markedForRemove (pairs t)) + length (filter kv_markedForRemove c)"
  using filter_concat_update [of h "ht_bucketArray t" "\<lambda>p. kv_markedForRemove p" c]
  by (simp add: pairs_def)

lemma remove_visited:
  assumes fe: "fe_inv t" and i: "i < ht_numOfBuckets t" and b: "ht_bucketArray t ! i = done @ p # rest"
    and m: "\<not> kv_markedForRemove p"
  shows "\<exists>u. HashTable_Remove fround mem (kv_key p) t = Success [] u \<and> fe_inv u \<and> ht_frame t u \<and>
    ht_numOfBuckets u = ht_numOfBuckets t \<and>
    ht_bucketArray u = (ht_bucketArray t)[i := done @ p\<lparr>kv_markedForRemove := True\<rparr> # rest]"
proof -
  have wf: "wf_ht t" and l: "ht_foreachRecursionLevel t \<noteq> 0" using fe by (simp_all add: fe_inv_def)
  note c = chain_position [OF wf i b]
  let ?q = "p\<lparr>kv_markedForRemove := True\<rparr>"
  define s where "s = set_bucket i (done @ ?q # rest) t"
  have il: "i < length (ht_bucketArray t)" using wf i by (simp add: wf_ht_def hashed_def)
  have lv: "live t = live s + 1" using live_set_bucket [OF il, of "done @ ?q # rest"] m b by (simp add: s_def)
  have mk: "length (filter kv_markedForRemove (pairs s)) = length (filter kv_markedForRemove (pairs t)) + 1"
    using marked_set_bucket [OF il, of "done @ ?q # rest"] m b by (simp add: s_def)
  have n: "ht_numOfElements t = live t" "ht_numOfElements t \<le> 2 ^ 60" using fe by (simp_all add: fe_inv_def)
  then have n1: "(ht_numOfElements t + (SIZE_MOD - 1)) mod SIZE_MOD = live s"
    using pred_mod [of "ht_numOfElements t"] lv by simp
  let ?u = "s\<lparr>ht_pendingRemoves := ht_pendingRemoves t + 1, ht_numOfElements := live s\<rparr>"
  have "HashTable_Remove fround mem (kv_key p) t = Success [] ?u"
    using c l n1 unfolding HashTable_Remove_def bind_c_def [of "bucket_of (kv_key p)"]
    by (auto simp: bucket_of_ok [OF wf] s_def)
  moreover have "wf_ht s"
    using replace_pair [OF wf c(1), unfolded c(2), OF c(4), of ?q] c(1,3) key_refl wf by (auto simp: s_def wf_ht_def)
  then have "fe_inv ?u" using fe lv mk n by (simp add: fe_inv_def s_def)
  moreover have "ht_frame t ?u" by (simp add: ht_frame_def s_def set_bucket_def)
  ultimately show ?thesis by (intro exI [of _ ?u]) (simp add: s_def)
qed

lemma foreach_chain:
  assumes "fe_inv t" "i < ht_numOfBuckets t" "ht_bucketArray t ! i = done @ rest"
    "\<forall>p \<in> set rest. \<not> kv_markedForRemove p"
  shows "\<exists>u. fe_inv u \<and> ht_frame t u \<and> ht_numOfBuckets u = ht_numOfBuckets t \<and>
    ht_bucketArray u = (ht_bucketArray t)[i := done @ map (select sel) rest] \<and>
    ht_foreach_loop (visitor fround mem sel) i (length rest) c t =
      ht_foreach_loop (visitor fround mem sel) i 0 (c @ map key_value rest) u"
  using assms
proof (induction rest arbitrary: "done" c t)
  case Nil
  then have "(ht_bucketArray t)[i := done] = ht_bucketArray t" using list_update_id [of "ht_bucketArray t" i] by simp
  with Nil show ?case by (intro exI [of _ t]) (simp add: ht_frame_def)
next
  case (Cons p rest)
  have il: "i < length (ht_bucketArray t)" using Cons.prems(1,2) by (simp add: fe_inv_def wf_ht_def hashed_def)
  obtain u where u: "snd (snd (visitor fround mem sel (kv_key p) (kv_value p) c t)) = u" "fe_inv u" "ht_frame t u"
    "ht_numOfBuckets u = ht_numOfBuckets t" "ht_bucketArray u = (ht_bucketArray t)[i := done @ select sel p # rest]"
  proof (cases "sel (kv_key p)")
    case True
    with remove_visited [OF Cons.prems(1,2,3), of fround mem] Cons.prems(4) that show ?thesis
      by (auto simp: visitor_def select_def)
  next
    case False
    then have "select sel p = p" using Cons.prems(4) by (simp add: select_def)
    then have "(ht_bucketArray t)[i := done @ select sel p # rest] = ht_bucketArray t"
      using Cons.prems(3) list_update_id [of "ht_bucketArray t" i] by simp
    with False Cons.prems that [of t] show ?thesis by (simp add: visitor_def ht_frame_def)
  qed
  have step: "ht_foreach_loop (visitor fround mem sel) i (length (p # rest)) c t =
      ht_foreach_loop (visitor fround mem sel) i (length rest) (c @ [key_value p]) u"
    using Cons.prems(2-4) il u(1) by (subst ht_foreach_loop.simps) (simp add: chain_length_def visitor_def)
  have "i < ht_numOfBuckets u" "ht_bucketArray u ! i = (done @ [select sel p]) @ rest"
    using Cons.prems(2) il u(4,5) by simp_all
  from Cons.IH [OF u(2) this, of "c @ [key_value p]"] Cons.prems(4) obtain w where
    "fe_inv w" "ht_frame u w" "ht_numOfBuckets w = ht_numOfBuckets u"
    "ht_bucketArray w = (ht_bucketArray u)[i := (done @ [select sel p]) @ map (select sel) rest]"
    "ht_foreach_loop (visitor fround mem sel) i (length rest) (c @ [key_value p]) u =
      ht_foreach_loop (visitor fround mem sel) i 0 ((c @ [key_value p]) @ map key_value rest) w" by auto
  with step u(3-5) ht_frame_trans [OF u(3)] show ?case by (intro exI [of _ w]) simp
qed

lemma foreach_buckets:
  assumes "fe_inv t" "\<forall>b \<in> set (drop i (ht_bucketArray t)). \<forall>p \<in> set b. \<not> kv_markedForRemove p"
  shows "\<exists>u. fe_inv u \<and> ht_frame t u \<and> ht_numOfBuckets u = ht_numOfBuckets t \<and>
    ht_bucketArray u = take i (ht_bucketArray t) @ map (map (select sel)) (drop i (ht_bucketArray t)) \<and>
    ht_foreach_loop (visitor fround mem sel) i (chain_length t i) c t =
      Some (Success (True, c @ map key_value (concat (drop i (ht_bucketArray t)))) u)"
  using assms
proof (induction "ht_numOfBuckets t - i" arbitrary: i c t)
  case 0
  then have "ht_numOfBuckets t \<le> i" "length (ht_bucketArray t) = ht_numOfBuckets t"
    by (simp_all add: fe_inv_def wf_ht_def hashed_def)
  with 0 show ?case by (intro exI [of _ t], subst ht_foreach_loop.simps) (simp add: ht_frame_def)
next
  case (Suc n)
  then have i: "i < ht_numOfBuckets t" and il: "i < length (ht_bucketArray t)"
    by (simp_all add: fe_inv_def wf_ht_def hashed_def)
  have d: "drop i (ht_bucketArray t) = ht_bucketArray t ! i # drop (i + 1) (ht_bucketArray t)"
    using Cons_nth_drop_Suc [OF il] by simp
  have "\<forall>p \<in> set (ht_bucketArray t ! i). \<not> kv_markedForRemove p" using Suc.prems(2) d by simp
  from foreach_chain [OF Suc.prems(1) i _ this, of "[]" sel fround mem c] obtain u where
    u: "fe_inv u" "ht_frame t u" "ht_numOfBuckets u = ht_numOfBuckets t"
    "ht_bucketArray u = (ht_bucketArray t)[i := map (select sel) (ht_bucketArray t ! i)]"
    "ht_foreach_loop (visitor fround mem sel) i (chain_length t i) c t =
      ht_foreach_loop (visitor fround mem sel) i 0 (c @ map key_value (ht_bucketArray t ! i)) u"
    using il by (auto simp: chain_length_def)
  have du: "drop (i + 1) (ht_bucketArray u) = drop (i + 1) (ht_bucketArray t)" by (simp add: u(4))
  have "n = ht_numOfBuckets u - (i + 1)" using Suc.hyps(2) u(3) by simp
  from Suc.hyps(1) [OF this u(1), of "c @ map key_value (ht_bucketArray t ! i)"] Suc.prems(2) d du obtain w where
    w: "fe_inv w" "ht_frame u w" "ht_numOfBuckets w = ht_numOfBuckets u"
    "ht_bucketArray w = take (i + 1) (ht_bucketArray u) @ map (map (select sel)) (drop (i + 1) (ht_bucketArray t))"
    "ht_foreach_loop (visitor fround mem sel) (i + 1) (chain_length u (i + 1)) (c @ map key_value (ht_bucketArray t ! i)) u =
      Some (Success (True, (c @ map key_value (ht_bucketArray t ! i)) @ map key_value (concat (drop (i + 1) (ht_bucketArray t)))) w)"
    by auto
  have "take (i + 1) (ht_bucketArray u) = take i (ht_bucketArray t) @ [map (select sel) (ht_bucketArray t ! i)]"
    using il by (simp add: u(4) take_Suc_conv_app_nth)
  moreover have "ht_foreach_loop (visitor fround mem sel) i (chain_length t i) c t =
      ht_foreach_loop (visitor fround mem sel) (i + 1) (chain_length u (i + 1)) (c @ map key_value (ht_bucketArray t ! i)) u"
    unfolding u(5) using i u(3) by (subst ht_foreach_loop.simps) simp
  ultimately show ?case using w u(3) d ht_frame_trans [OF u(2) w(2)] by (intro exI [of _ w]) simp
qed

lemma filter_select:
  "filter (\<lambda>p. \<not> kv_markedForRemove p) (map (select sel) ps) =
     map (select sel) (filter (\<lambda>p. \<not> sel (kv_key p)) ps)"
  "filter kv_markedForRemove (map (select sel) ps) = map (select sel) (filter (\<lambda>p. sel (kv_key p)) ps)"
  by (induction ps) (simp_all add: select_def)

lemma select_id: "\<forall>p \<in> set ps. \<not> kv_markedForRemove p \<Longrightarrow>
    map (select sel) (filter (\<lambda>p. \<not> sel (kv_key p)) ps) = filter (\<lambda>p. \<not> sel (kv_key p)) ps"
  by (rule map_idI) (simp add: select_def)

lemma filtered_ok:
  assumes wf: "wf_ht t" and b: "ht_bucketArray u = map (filter P) (ht_bucketArray t)" and f: "ht_frame t u"
    and n: "ht_numOfBuckets u = ht_numOfBuckets t"
  shows "wf_ht u" "pairs u = filter P (pairs t)" "matches u k = filter P (matches t k)"
proof -
  show ps: "pairs u = filter P (pairs t)" by (simp add: pairs_def b filter_concat)
  have e: "HashTable_Equals u = HashTable_Equals t" "key_laws u = key_laws t"
    using f by (simp_all add: ht_frame_def HashTable_Equals_def key_laws_def fun_eq_iff)
  show m: "matches u k = filter P (matches t k)" for k by (simp add: matches_def ps e conj_commute)
  have "hashed (ht_hash u) (ht_numOfBuckets u) (ht_bucketArray u)"
    using wf f n by (auto simp: wf_ht_def hashed_def b ht_frame_def)
  moreover have "length (matches u k) \<le> 1" if "k \<noteq> None" for k
  proof -
    have "length (matches t k) \<le> 1" using wf that by (simp add: wf_ht_def)
    then show ?thesis using order_trans [OF length_filter_le] by (simp add: m)
  qed
  ultimately show "wf_ht u" using wf by (simp add: wf_ht_def e)
qed

lemma foreach_cleanup_ok:
  assumes l: "ht_foreachRecursionLevel x = 0" and small: "length (pairs x) < 2 ^ 32"
    and p: "ht_pendingRemoves x = of_nat (length (filter kv_markedForRemove (pairs x)))"
  shows "foreach_cleanup x = Success (concat (map (disposePair x) (filter kv_markedForRemove (pairs x))))
    (x\<lparr>ht_bucketArray := map (filter (\<lambda>p. \<not> kv_markedForRemove p)) (ht_bucketArray x), ht_pendingRemoves := 0\<rparr>)"
proof (cases "ht_pendingRemoves x = 0")
  case True
  moreover have "length (filter kv_markedForRemove (pairs x)) < 2 ^ 32"
    using small le_less_trans [OF length_filter_le] by blast
  moreover from True p have "2 ^ 32 dvd length (filter kv_markedForRemove (pairs x))"
    by (simp add: word_of_nat_eq_0_iff)
  ultimately have "length (filter kv_markedForRemove (pairs x)) = 0" by (metis gr_zeroI nat_dvd_not_less)
  then have m0: "filter kv_markedForRemove (pairs x) = []" by simp
  have "filter (\<lambda>p. \<not> kv_markedForRemove p) b = b" if "b \<in> set (ht_bucketArray x)" for b
    using m0 that by (auto simp: filter_empty_conv pairs_def filter_id_conv)
  then have "map (filter (\<lambda>p. \<not> kv_markedForRemove p)) (ht_bucketArray x) = ht_bucketArray x"
    by (simp add: map_idI)
  then show ?thesis using True m0 by (simp add: foreach_cleanup_def)
next
  case False
  then show ?thesis using l by (simp add: foreach_cleanup_def pairs_def)
qed

lemma disposePair_frame: "ht_frame t u \<Longrightarrow> disposePair u (select sel p) = disposePair t p"
  by (simp add: disposePair_def disposeKey_def disposeValue_def select_def ht_frame_def)

lemma HashTable_Foreach_ok:
  assumes inv: "ht_inv fround ob t" and p: "ht_pendingRemoves t = 0" and small: "length (pairs t) < 2 ^ 32"
  shows "\<exists>u. HashTable_Foreach (visitor fround mem sel) [] t =
      Success (True, map key_value (pairs t), concat (map (disposePair t) (filter (\<lambda>p. sel (kv_key p)) (pairs t)))) u \<and>
    ht_inv fround ob u \<and> ht_pendingRemoves u = 0 \<and> pairs u = filter (\<lambda>p. \<not> sel (kv_key p)) (pairs t)"
proof -
  define s where "s = t\<lparr>ht_foreachRecursionLevel := 1\<rparr>"
  have c: "\<forall>p \<in> set (pairs t). \<not> kv_markedForRemove p" using inv by (simp add: ht_inv_def clean_def)
  then have mk: "filter kv_markedForRemove (pairs t) = []" by (simp add: filter_empty_conv)
  have "fe_inv s" using inv p mk by (simp add: s_def fe_inv_def ht_inv_def live_def ht_ready_def)
  moreover have "\<forall>b \<in> set (drop 0 (ht_bucketArray s)). \<forall>p \<in> set b. \<not> kv_markedForRemove p"
    using c by (simp add: s_def pairs_def)
  ultimately obtain w where w: "fe_inv w" "ht_frame s w" "ht_numOfBuckets w = ht_numOfBuckets s"
    "ht_bucketArray w = map (map (select sel)) (ht_bucketArray t)"
    "ht_foreach_loop (visitor fround mem sel) 0 (chain_length s 0) [] s = Some (Success (True, map key_value (pairs t)) w)"
    using foreach_buckets [of s 0 sel fround mem "[]"] by (auto simp: s_def pairs_def)
  have pw: "pairs w = map (select sel) (pairs t)" by (simp add: pairs_def w(4) map_concat)
  define x where "x = w\<lparr>ht_foreachRecursionLevel := 0\<rparr>"
  define u where "u = x\<lparr>ht_bucketArray := map (filter (\<lambda>p. \<not> kv_markedForRemove p)) (ht_bucketArray w),
    ht_pendingRemoves := 0\<rparr>"
  have fx: "ht_frame t x" "ht_frame x u" using w(2) inv
    by (simp_all add: ht_frame_def x_def s_def u_def ht_inv_def)
  have wx: "wf_ht x" using w(1) by (simp add: fe_inv_def x_def)
  have pu: "pairs u = filter (\<lambda>p. \<not> sel (kv_key p)) (pairs t)"
    using select_id [OF c] by (simp add: u_def pairs_def w(4) filter_concat map_concat comp_def filter_select)
  have disp: "concat (map (disposePair x) (filter kv_markedForRemove (pairs w))) =
      concat (map (disposePair t) (filter (\<lambda>p. sel (kv_key p)) (pairs t)))"
    using disposePair_frame [OF fx(1)] by (simp add: pw filter_select comp_def)
  have "foreach_cleanup x = Success (concat (map (disposePair x) (filter kv_markedForRemove (pairs w)))) u"
    using foreach_cleanup_ok [of x] w(1) small by (simp add: x_def u_def fe_inv_def pw)
  moreover have "ht_foreachRecursionLevel w = 1" using w(2) by (simp add: ht_frame_def s_def)
  ultimately have "HashTable_Foreach (visitor fround mem sel) [] t =
      Success (True, map key_value (pairs t), concat (map (disposePair x) (filter kv_markedForRemove (pairs w)))) u"
    using inv w(5) by (simp add: HashTable_Foreach_def s_def ht_inv_def bind_c_def return_c_def x_def)
  moreover have "ht_inv fround ob u"
  proof -
    have "clean u" using c by (simp add: clean_def pu)
    moreover have "live w = length (filter (\<lambda>p. \<not> sel (kv_key p)) (pairs t))"
      by (simp only: live_def pw filter_select length_map)
    then have "live u = live w" using \<open>clean u\<close> filter_True [of "pairs u"] by (simp add: clean_def live_def pu)
    moreover have "wf_ht u" by (rule filtered_ok(1) [OF wx _ fx(2), of "\<lambda>p. \<not> kv_markedForRemove p"]) (simp_all add: u_def x_def)
    ultimately show ?thesis using fx w(1) inv by (simp add: u_def x_def ht_inv_def ht_frame_def ht_ready_def fe_inv_def)
  qed
  ultimately show ?thesis using disp pu by (auto simp: u_def)
qed

lemma HashTable_SetItemValue_ok:
  assumes inv: "ht_inv fround ob t" and k: "k \<noteq> None"
  shows "if ht_has t k
    then \<exists>p u. matches t k = [p] \<and> HashTable_SetItemValue k v t = Success (disposeValue t (kv_value p)) u \<and>
      ht_inv fround ob u \<and> (\<forall>k'. k' \<noteq> None \<longrightarrow> ht_map u k' = (if key_eq t k k' then v else ht_map t k'))
    else HashTable_SetItemValue k v t = Failure t"
proof (cases "chain_from t (bucket t k) k")
  case Nil
  have wf: "wf_ht t" using inv by (simp add: ht_inv_def)
  with Nil k show ?thesis using chain_Nil [OF wf, of k]
    by (auto simp: HashTable_SetItemValue_def bind_c_def bucket_of_ok ht_has_def)
next
  case (Cons p after)
  have wf: "wf_ht t" and c: "clean t" using inv by (simp_all add: ht_inv_def)
  note ch = chain_Cons [OF wf k Cons]
  have m: "\<not> kv_markedForRemove p" using clean_matches [OF c, of p k] ch(1) by simp
  let ?q = "p\<lparr>kv_value := v\<rparr>"
  let ?u = "set_bucket (bucket t k) (chain_before t (bucket t k) k @ ?q # after) t"
  have "kv_key ?q \<noteq> None" "key_eq t k (kv_key ?q)"
    using ch(2) bucket_members [OF wf, of k] ch(4) by (auto simp: HashTable_Equals_def)
  note r = replace_pair [OF wf k Cons this]
  have "HashTable_SetItemValue k v t = Success (disposeValue t (kv_value p)) ?u"
    using Cons m inv k
    by (auto simp: HashTable_SetItemValue_def bind_c_def bucket_of_ok [OF wf] setValue_def ht_inv_def)
  moreover have "clean ?u"
    by (rule cleanI) (use r m clean_matches [OF c] in \<open>auto split: if_splits\<close>)
  moreover have "live ?u = live t"
    using live_set_bucket [OF wf_bucket_length [OF wf, of k], of "chain_before t (bucket t k) k @ ?q # after"] ch(4) m
    by simp
  ultimately show ?thesis using inv r m ch(1) k
    by (auto simp: ht_inv_def ht_has_def ht_map_def ht_ready_def set_bucket_def)
qed

section \<open>New tables\<close>

lemma ht_inv_empty:
  assumes "key_laws t" "0 < ht_numOfBuckets t" "ht_bucketArray t = replicate (ht_numOfBuckets t) []"
    "fnObjectNew (ht_value t) = None" "ht_foreachRecursionLevel t = 0" "float_ok fround" "1 \<le> ht_idealRatio t"
    "ht_numOfElements t = 0"
  shows "ht_inv fround (ht_key t) t" "pairs t = []" "ht_map t = (\<lambda>k. None)"
proof -
  show p: "pairs t = []" using assms by (simp add: pairs_def)
  then show "ht_map t = (\<lambda>k. None)" by (simp add: ht_map_def matches_def fun_eq_iff)
  show "ht_inv fround (ht_key t) t"
    using assms p by (simp add: ht_inv_def wf_ht_def hashed_def matches_def clean_def ht_ready_def live_def)
qed

lemma HashTable_New_ok:
  assumes "HashTable_New mem tablesize sync = Some t" "float_ok fround"
  shows "ht_inv fround (ht_key t) t" "pairs t = []" "ht_map t = (\<lambda>k. None)" "ht_pendingRemoves t = 0"
proof -
  have "key_laws t"
    using assms(1) by (auto simp: HashTable_New_def key_laws_def HashTable_PointerCompare_def stored_def split: if_splits)
  then show "ht_inv fround (ht_key t) t" "pairs t = []" "ht_map t = (\<lambda>k. None)" "ht_pendingRemoves t = 0"
    using assms by (auto simp: HashTable_New_def split: if_splits intro!: ht_inv_empty)
qed

text \<open>Tables of strings: two keys are equal when the strings behind them are.\<close>

lemma HashTable_SetupForStringData_ok:
  assumes new: "HashTable_New mem tablesize sync = Some t" and fl: "float_ok fround"
    and clone: "\<forall>p. \<exists>q. clone (Some p) = Some q \<and> str q = str p"
  shows "\<exists>u. HashTable_SetupForStringData clone str False t = Success () u \<and>
    ht_inv fround (ht_key u) u \<and> ht_map u = (\<lambda>k. None) \<and>
    (\<forall>a b. key_eq u (Some a) (Some b) \<longleftrightarrow> str a = str b)"
proof -
  obtain u where u: "HashTable_SetupForStringData clone str False t = Success () u"
    by (simp add: HashTable_SetupForStringData_def Let_def)
  have "stored (ht_key u) (Some a) \<noteq> None \<and> key_eq u (Some a) (stored (ht_key u) (Some a))" for a
    using clone [rule_format, of a] u
    by (auto simp: HashTable_SetupForStringData_def stored_def Let_def HashTable_StringCompare_def)
  then have "key_laws u" using u unfolding key_laws_def
    by (auto simp: HashTable_SetupForStringData_def Let_def HashTable_StringCompare_def split: option.splits)
  moreover have "0 < ht_numOfBuckets u" "ht_bucketArray u = replicate (ht_numOfBuckets u) []"
    "fnObjectNew (ht_value u) = None" "ht_foreachRecursionLevel u = 0" "1 \<le> ht_idealRatio u" "ht_numOfElements u = 0"
    using new u by (auto simp: HashTable_SetupForStringData_def HashTable_New_def Let_def split: if_splits)
  ultimately show ?thesis using u ht_inv_empty [of u fround] fl
    by (auto simp: HashTable_SetupForStringData_def Let_def HashTable_StringCompare_def)
qed

section \<open>Runs\<close>

lemma ht_put_total:
  assumes inv: "ht_inv fround ob t" and n: "ht_numOfElements t < 2 ^ 60" and mem: "mem pairsize"
  shows "\<exists>u. ht_put fround mem pairsize k v t = Some u \<and> ht_numOfElements u \<le> ht_numOfElements t + 1"
proof -
  obtain f u where "HashTable_Insert fround mem pairsize (Some k) (Some v) t = Success f u"
      "inserted t (Some k) (Some v) u"
    using HashTable_Insert_ok [of t "Some k" "Some v" fround mem pairsize] inv n mem by (auto simp: ht_inv_def)
  then show ?thesis using n by (simp add: ht_put_def inserted_def)
qed

lemma ht_del_total:
  assumes inv: "ht_inv fround ob t"
  shows "\<exists>u. ht_del fround mem k t = Some u \<and> ht_numOfElements u \<le> ht_numOfElements t"
proof -
  have wf: "wf_ht t" and kn: "Some k \<noteq> None" and c: "clean t" and l: "ht_foreachRecursionLevel t = 0"
    and r: "ht_ready fround t" and n: "ht_numOfElements t = live t" using inv by (simp_all add: ht_inv_def)
  from wf kn show ?thesis
  proof (cases rule: matches_cases)
    case absent
    then show ?thesis using HashTable_Remove_absent [OF wf kn] by (simp add: ht_del_def)
  next
    case (present p)
    with HashTable_Remove_ok [OF wf kn present l r, of mem] live_pos [OF c present] n show ?thesis
      by (auto simp: ht_del_def)
  qed
qed

lemma ht_run_total:
  assumes "ht_inv fround ob t" "ht_numOfElements t + length ops \<le> 2 ^ 60" "mem pairsize"
  shows "\<exists>u. map_run (ht_put fround mem pairsize) (ht_del fround mem) ops t = Some u"
  using assms(1,2)
proof (induction ops arbitrary: t)
  case (Cons op ops)
  have "\<exists>u. map_step (ht_put fround mem pairsize) (ht_del fround mem) op t = Some u \<and>
      ht_numOfElements u \<le> ht_numOfElements t + 1"
    using ht_put_total [OF Cons.prems(1), of mem pairsize] ht_del_total [OF Cons.prems(1), of mem] Cons.prems(2) assms(3)
    by (cases op) (fastforce intro: le_SucI)+
  then obtain u where u: "map_step (ht_put fround mem pairsize) (ht_del fround mem) op t = Some u"
    "ht_numOfElements u \<le> ht_numOfElements t + 1" by blast
  have "ht_inv fround ob u" using ht.map_step_refines [OF u(1) Cons.prems(1)] by blast
  from Cons.IH [OF this] u Cons.prems(2) show ?case by simp
qed simp

lemma HashTable_Remove_cases:
  assumes inv: "ht_inv fround ob t" and k: "k \<noteq> None"
  shows "if ht_has t k
    then \<exists>p u. matches t k = [p] \<and> HashTable_Remove fround mem k t = Success (disposePair t p) u \<and>
      ht_inv fround ob u \<and> removed t k u
    else HashTable_Remove fround mem k t = Failure t"
proof -
  have wf: "wf_ht t" and c: "clean t" and l: "ht_foreachRecursionLevel t = 0" and r: "ht_ready fround t"
    and n: "ht_numOfElements t = live t" using inv by (simp_all add: ht_inv_def)
  from wf k show ?thesis
  proof (cases rule: matches_cases)
    case absent
    then show ?thesis using HashTable_Remove_absent [OF wf k] by (simp add: ht_has_def)
  next
    case (present p)
    have h: "ht_has t k" using present clean_matches [OF c, of p k] k by (simp add: ht_has_def)
    obtain u where u: "HashTable_Remove fround mem k t = Success (disposePair t p) u" "removed t k u"
      using HashTable_Remove_ok [OF wf k present l r, of mem] live_pos [OF c present] n by auto
    from k obtain y where "k = Some y" by auto
    with u(1) have "ht_del fround mem y t = Some u" by (simp add: ht_del_def)
    then have "ht_inv fround ob u" by (rule ht_del_law(1) [OF inv])
    with h u present show ?thesis by auto
  qed
qed

section \<open>Properties\<close>

text \<open>
  C17: A hash table is a map. Any sequence of insertions and removals succeeds while memory lasts and the
  number of entries stays below 2^60, through every rehash; the value found for a key afterwards is the
  one the same updates make of the mapping, and the count is the number of entries.
\<close>

theorem hashtable_is_map:
  assumes "ht_inv fround ob t" "ht_numOfElements t + length ops \<le> 2 ^ 60" "mem pairsize"
  shows "\<exists>u. map_run (ht_put fround mem pairsize) (ht_del fround mem) ops t = Some u \<and>
    (\<forall>k. HashTable_GetItemValue (Some k) u =
       Success (fold (map_spec (\<lambda>a b. fnObjectEquals ob (Some a) (Some b))) ops (\<lambda>k. ht_map t (Some k)) k) u) \<and>
    HashTable_Count u = Success (length (pairs u)) u"
proof -
  obtain u where u: "map_run (ht_put fround mem pairsize) (ht_del fround mem) ops t = Some u"
    using ht_run_total [where mem = mem] assms by blast
  note r = ht.map_refines [OF u assms(1)]
  then have "wf_ht u" "ht_numOfElements u = live u" "clean u" by (simp_all add: ht_inv_def)
  moreover have "\<forall>k. ht_map u (Some k) = fold (map_spec (\<lambda>a b. fnObjectEquals ob (Some a) (Some b))) ops
      (\<lambda>k. ht_map t (Some k)) k" using r by (metis (lifting))
  ultimately show ?thesis using u HashTable_GetItemValue_ok [of u]
    by (auto simp: HashTable_Count_def live_def clean_def)
qed

definition fresh_table :: "(64 word, bool) wHashTable" where
  "fresh_table = the (HashTable_New (\<lambda>_. True) 0 False)"

lemma fresh_table_ok:
  "ht_inv (\<lambda>x. x) (ht_key fresh_table) fresh_table" "pairs fresh_table = []" "ht_map fresh_table = (\<lambda>k. None)"
  "ht_pendingRemoves fresh_table = 0" "ht_numOfElements fresh_table = 0"
  "fnObjectEquals (ht_key fresh_table) = (\<lambda>a b. a = b)"
proof -
  have n: "HashTable_New (\<lambda>_. True) 0 False = Some fresh_table" by (simp add: fresh_table_def HashTable_New_def)
  note o = HashTable_New_ok [OF n, of "\<lambda>x. x"]
  show "ht_inv (\<lambda>x. x) (ht_key fresh_table) fresh_table" by (rule o(1)) (simp add: float_ok_def)
  show "pairs fresh_table = []" by (rule o(2)) (simp add: float_ok_def)
  show "ht_map fresh_table = (\<lambda>k. None)" by (rule o(3)) (simp add: float_ok_def)
  show "ht_pendingRemoves fresh_table = 0" "ht_numOfElements fresh_table = 0"
    "fnObjectEquals (ht_key fresh_table) = (\<lambda>a b. a = b)"
    by (simp_all add: fresh_table_def HashTable_New_def HashTable_PointerCompare_def fun_eq_iff)
qed

theorem hashtable_is_map_witness:
  "\<exists>u. map_run (ht_put (\<lambda>x. x) (\<lambda>_. True) 32) (ht_del (\<lambda>x. x) (\<lambda>_. True))
      [MapPut 16 True, MapPut 80 False, MapDel 16] fresh_table = Some u \<and>
    HashTable_GetItemValue (Some 80) u = Success (Some False) u \<and>
    HashTable_GetItemValue (Some 16) u = Success None u"
  using hashtable_is_map [OF fresh_table_ok(1), of "[MapPut 16 True, MapPut 80 False, MapDel 16]" "\<lambda>_. True" 32]
  by (auto simp: fresh_table_ok)

text \<open>
  C20: The other operations of the table. Membership is having an unmarked entry. \<open>HashTable_SetItemValue\<close>
  refuses an absent key; it replaces the value of the one entry of a present key and disposes of the old
  value. \<open>HashTable_Remove\<close> refuses an absent key and then changes nothing; it takes out the one entry of a
  present key and disposes of the key and value of that entry. Both keep the invariant and every other
  entry. \<open>HashTable_Clear\<close> disposes of every entry once and leaves an empty table; \<open>HashTable_GetKeys\<close>
  returns the keys of all entries.
\<close>

theorem hashtable_operations:
  assumes "ht_inv fround ob t" "k \<noteq> None"
  shows "HashTable_Contains k t = Success (ht_has t k) t \<and>
    (if ht_has t k
     then \<exists>p u. matches t k = [p] \<and> HashTable_SetItemValue k v t = Success (disposeValue t (kv_value p)) u \<and>
       ht_inv fround ob u \<and> (\<forall>k'. k' \<noteq> None \<longrightarrow> ht_map u k' = (if key_eq t k k' then v else ht_map t k'))
     else HashTable_SetItemValue k v t = Failure t) \<and>
    (if ht_has t k
     then \<exists>p u. matches t k = [p] \<and>
       HashTable_Remove fround mem k t = Success (disposeKey t (kv_key p) @ disposeValue t (kv_value p)) u \<and>
       ht_inv fround ob u \<and> (\<forall>k'. k' \<noteq> None \<longrightarrow>
         ht_map u k' = (if key_eq t k k' then None else ht_map t k') \<and>
         (ht_has u k' \<longleftrightarrow> \<not> key_eq t k k' \<and> ht_has t k'))
     else HashTable_Remove fround mem k t = Failure t) \<and>
    (\<exists>u. HashTable_Clear fround mem t = Success (concat (map (disposePair t) (pairs t))) u \<and>
       ht_inv fround ob u \<and> pairs u = []) \<and>
    (mem (ht_numOfElements t * 8) \<longrightarrow>
       HashTable_GetKeys mem t = Success (length (pairs t), map kv_key (pairs t)) t)"
proof (intro conjI)
  have wf: "wf_ht t" using assms(1) by (simp add: ht_inv_def)
  show "HashTable_Contains k t = Success (ht_has t k) t" using HashTable_Contains_ok [of t k] wf assms(2) by blast
  show "if ht_has t k
     then \<exists>p u. matches t k = [p] \<and>
       HashTable_Remove fround mem k t = Success (disposeKey t (kv_key p) @ disposeValue t (kv_value p)) u \<and>
       ht_inv fround ob u \<and> (\<forall>k'. k' \<noteq> None \<longrightarrow>
         ht_map u k' = (if key_eq t k k' then None else ht_map t k') \<and>
         (ht_has u k' \<longleftrightarrow> \<not> key_eq t k k' \<and> ht_has t k'))
     else HashTable_Remove fround mem k t = Failure t"
    using HashTable_Remove_cases [OF assms, of mem] unfolding disposePair_def removed_def by metis
qed (use HashTable_SetItemValue_ok [OF assms, of v] HashTable_Clear_ok [OF assms(1), of mem]
    HashTable_GetKeys_ok [OF assms(1), of mem] in blast)+

theorem hashtable_operations_witness:
  "HashTable_Contains (Some 16) fresh_table = Success False fresh_table \<and>
   HashTable_Remove (\<lambda>x. x) (\<lambda>_. True) (Some 16) fresh_table = Failure fresh_table \<and>
   (\<exists>t. ht_put (\<lambda>x. x) (\<lambda>_. True) 32 16 True fresh_table = Some t \<and>
     HashTable_Contains (Some 16) t = Success True t \<and>
     (\<exists>p u. matches t (Some 16) = [p] \<and> kv_value p = Some True \<and>
       HashTable_Remove (\<lambda>x. x) (\<lambda>_. True) (Some 16) t = Success (disposeKey t (kv_key p) @ disposeValue t (kv_value p)) u \<and>
       ht_map u (Some 16) = None))"
proof (intro conjI)
  let ?s = "fresh_table" and ?f = "\<lambda>x. x" and ?m = "\<lambda>_. True"
  show "HashTable_Contains (Some 16) ?s = Success False ?s" "HashTable_Remove ?f ?m (Some 16) ?s = Failure ?s"
    using hashtable_operations [OF fresh_table_ok(1), of "Some 16" None ?m]
    by (simp_all add: ht_has_def matches_def fresh_table_ok)
  obtain t where t: "ht_put ?f ?m 32 16 True ?s = Some t"
    using ht_put_total [OF fresh_table_ok(1), of ?m 32 16 True] by (auto simp: fresh_table_ok)
  note i = ht_put_law [OF fresh_table_ok(1) t]
  from i(2) have v: "ht_map t (Some 16) = Some True" by (simp add: fun_eq_iff fresh_table_ok)
  then have h: "ht_has t (Some 16)" by (auto simp: ht_map_def ht_has_def split: list.splits if_splits)
  note o = hashtable_operations [OF i(1), of "Some 16" None ?m]
  from o h obtain p u where p: "matches t (Some 16) = [p]"
    "HashTable_Remove ?f ?m (Some 16) t = Success (disposeKey t (kv_key p) @ disposeValue t (kv_value p)) u"
    "\<forall>k'. k' \<noteq> None \<longrightarrow> ht_map u k' = (if key_eq t (Some 16) k' then None else ht_map t k')" by auto
  have "key_eq t (Some 16) (Some 16)" by (rule key_refl) (use i(1) in \<open>simp_all add: ht_inv_def wf_ht_def\<close>)
  with p(3) have "ht_map u (Some 16) = None" by auto
  moreover have "kv_value p = Some True" using v p(1) by (simp add: ht_map_def split: if_splits)
  ultimately show "\<exists>t. ht_put ?f ?m 32 16 True ?s = Some t \<and> HashTable_Contains (Some 16) t = Success True t \<and>
     (\<exists>p u. matches t (Some 16) = [p] \<and> kv_value p = Some True \<and>
       HashTable_Remove ?f ?m (Some 16) t = Success (disposeKey t (kv_key p) @ disposeValue t (kv_value p)) u \<and>
       ht_map u (Some 16) = None)"
    using t o h p(1,2) by auto
qed

text \<open>
  C19: Rehashing changes no lookup. Whatever the number of buckets asked for, and whether or not the memory
  for them is there, \<open>HashTable_Rehash\<close> succeeds, every key finds the value it found before, and no pair
  is lost or duplicated.
\<close>

theorem hashtable_rehash_keeps_lookups:
  assumes "wf_ht t" "ht_ready fround t"
  shows "\<exists>u. HashTable_Rehash fround mem n t = Success () u \<and> wf_ht u \<and> mset (pairs u) = mset (pairs t) \<and>
    (\<forall>k. \<exists>v. HashTable_GetItemValue k u = Success v u \<and> HashTable_GetItemValue k t = Success v t)"
proof -
  obtain u where u: "HashTable_Rehash fround mem n t = Success () u" "wf_ht u"
    "\<forall>k. k \<noteq> None \<longrightarrow> matches u k = matches t k" "mset (pairs u) = mset (pairs t)"
    using HashTable_Rehash_ok [OF assms(1), of n fround mem] assms(2) by blast
  moreover have "ht_map u k = ht_map t k" for k using u(3) by (simp add: ht_map_def)
  ultimately show ?thesis using HashTable_GetItemValue_ok [OF assms(1)] HashTable_GetItemValue_ok [OF u(2)] by auto
qed

theorem hashtable_rehash_keeps_lookups_witness:
  "\<exists>u. HashTable_Rehash (\<lambda>x. x) (\<lambda>_. True) 7 fresh_table = Success () u \<and>
     HashTable_GetItemValue (Some 16) u = Success None u"
proof -
  have "wf_ht fresh_table" "ht_ready (\<lambda>x. x) fresh_table" using fresh_table_ok(1) by (simp_all add: ht_inv_def)
  from hashtable_rehash_keeps_lookups [OF this, of "\<lambda>_. True" 7] obtain u where
    u: "HashTable_Rehash (\<lambda>x. x) (\<lambda>_. True) 7 fresh_table = Success () u"
    "\<forall>k. \<exists>v. HashTable_GetItemValue k u = Success v u \<and> HashTable_GetItemValue k fresh_table = Success v fresh_table"
    by blast
  with u(2) [rule_format, of "Some 16"] HashTable_GetItemValue_ok [of fresh_table "Some 16"] \<open>wf_ht fresh_table\<close>
  show ?thesis by (auto simp: fresh_table_ok)
qed

text \<open>
  C21: The search for a number of buckets ends. The loop over odd numbers always reaches one without a
  divisor below 51, so \<open>HashTable_CalculateIdealNumOfBuckets\<close> returns at least 5 for every table of
  at most 2^60 entries.
\<close>

theorem hashtable_bucket_search_ends:
  assumes "float_ok fround" "1 \<le> ht_idealRatio t" "ht_numOfElements t \<le> 2 ^ 60"
  shows "\<exists>n. HashTable_CalculateIdealNumOfBuckets fround t = Success n t \<and> 5 \<le> n"
  by (rule CalculateIdealNumOfBuckets_ok [OF assms])

theorem hashtable_bucket_search_ends_witness:
  "\<exists>n. HashTable_CalculateIdealNumOfBuckets (\<lambda>x. x) fresh_table = Success n fresh_table \<and> 5 \<le> n"
  using hashtable_bucket_search_ends [of "\<lambda>x. x" fresh_table] fresh_table_ok(1)
  by (simp add: ht_inv_def ht_ready_def)

text \<open>
  C18: Removing entries while iterating. A callback of \<open>HashTable_Foreach\<close> that removes the entries it
  chooses, its current one, sees every entry of the table exactly once and in order; afterwards exactly
  the chosen entries are gone, each disposed of once, and no removal is pending.
\<close>

theorem hashtable_foreach_removes:
  assumes "ht_inv fround ob t" "ht_pendingRemoves t = 0" "length (pairs t) < 2 ^ 32"
  shows "\<exists>u. HashTable_Foreach (visitor fround mem sel) [] t =
      Success (True, map key_value (pairs t), concat (map (disposePair t) (filter (\<lambda>p. sel (kv_key p)) (pairs t)))) u \<and>
    ht_inv fround ob u \<and> ht_pendingRemoves u = 0 \<and> pairs u = filter (\<lambda>p. \<not> sel (kv_key p)) (pairs t)"
  by (rule HashTable_Foreach_ok [OF assms])

definition sample_table :: "(64 word, bool) wHashTable" where
  "sample_table = fresh_table\<lparr>ht_numOfElements := 2, ht_numOfBuckets := 5, ht_bucketArray :=
     [[], [\<lparr>kv_key = Some 16, kv_value = Some True, kv_markedForRemove = False\<rparr>],
      [\<lparr>kv_key = Some 32, kv_value = Some False, kv_markedForRemove = False\<rparr>], [], []]\<rparr>"

lemma sample_simps:
  "pairs sample_table =
     [\<lparr>kv_key = Some 16, kv_value = Some True, kv_markedForRemove = False\<rparr>,
      \<lparr>kv_key = Some 32, kv_value = Some False, kv_markedForRemove = False\<rparr>]"
  "ht_key sample_table = ht_key fresh_table" "ht_numOfBuckets sample_table = 5"
  "ht_hash sample_table = ht_hash fresh_table" "length (ht_bucketArray sample_table) = 5"
  by (simp_all add: pairs_def sample_table_def fresh_table_def HashTable_New_def)

lemma sample_table_ok: "ht_inv (\<lambda>x. x) (ht_key fresh_table) sample_table" "ht_pendingRemoves sample_table = 0"
proof -
  have "key_laws fresh_table" using fresh_table_ok(1) unfolding ht_inv_def wf_ht_def by blast
  then have "key_laws sample_table" unfolding key_laws_def sample_simps .
  moreover have "hashed (ht_hash sample_table) (ht_numOfBuckets sample_table) (ht_bucketArray sample_table)"
  proof -
    have "\<forall>p \<in> set (ht_bucketArray sample_table ! i). kv_key p \<noteq> None \<and> unat (ht_hash sample_table (kv_key p)) mod 5 = i"
      if "i < 5" for i
    proof -
      have "i = 0 \<or> i = 1 \<or> i = 2 \<or> i = 3 \<or> i = 4" using that by arith
      then show ?thesis
        by (elim disjE) (simp_all add: sample_table_def fresh_table_def HashTable_New_def HashTable_PointerHash_def)
    qed
    moreover have "0 < (5::nat)" by simp
    ultimately show ?thesis using sample_simps(5) unfolding hashed_def sample_simps(3) by blast
  qed
  moreover have "length (matches sample_table k) \<le> 1" for k
    by (simp add: matches_def sample_simps HashTable_Equals_def fresh_table_ok)
  ultimately have "wf_ht sample_table" by (simp add: wf_ht_def)
  then show "ht_inv (\<lambda>x. x) (ht_key fresh_table) sample_table" using fresh_table_ok(1)
    by (simp add: ht_inv_def clean_def sample_simps live_def ht_ready_def) (simp add: sample_table_def)
  show "ht_pendingRemoves sample_table = 0" by (simp add: sample_table_def fresh_table_ok)
qed

theorem hashtable_foreach_removes_witness:
  "\<exists>u. HashTable_Foreach (visitor (\<lambda>x. x) (\<lambda>_. True) (\<lambda>k. k = Some 16)) [] sample_table =
      Success (True, [(Some 16, Some True), (Some 32, Some False)], []) u \<and>
    pairs u = [\<lparr>kv_key = Some 32, kv_value = Some False, kv_markedForRemove = False\<rparr>]"
proof -
  have "disposePair sample_table p = []" for p
    by (simp add: disposePair_def disposeKey_def disposeValue_def sample_table_def fresh_table_def HashTable_New_def)
  with hashtable_foreach_removes [OF sample_table_ok, of "\<lambda>_. True" "\<lambda>k. k = Some 16"] show ?thesis
    by (auto simp: sample_simps)
qed

section \<open>Deviations\<close>

text \<open>\<open>HashTable_ContainsValue\<close> looks for the value among the keys.\<close>

theorem hashtable_contains_value_compares_keys:
  "HashTable_ContainsValue val t = Success (\<exists>p \<in> set (pairs t). val \<noteq> None \<and>
     \<not> kv_markedForRemove p \<and> fnObjectEquals (ht_key t) val (kv_key p)) t"
  by (auto simp: HashTable_ContainsValue_def list_ex_iff pairs_def HashTable_Equals_def)

text \<open>\<open>HashTable_Clear\<close> called by a callback of \<open>HashTable_Foreach\<close> never returns when there is an entry.\<close>

theorem hashtable_clear_in_foreach_diverges:
  assumes "ht_foreachRecursionLevel t \<noteq> 0" "pairs t \<noteq> []"
  shows "HashTable_Clear fround mem t = Fault NonTermination"
proof -
  have "clear_buckets s bs freed = None" if "concat bs \<noteq> []" "ht_foreachRecursionLevel s \<noteq> 0" for s freed
    and bs :: "('a, 'b) wKeyValuePair list list"
    using that
  proof (induction bs arbitrary: freed)
    case (Cons b bs)
    show ?case
    proof (cases b)
      case Nil
      with Cons show ?thesis by (subst clear_buckets.simps, subst clear_loop.simps) simp
    next
      case (Cons p b')
      then have "clear_loop s b freed = None" using clear_loop_returns [of s b freed] that(2)
        by (cases "clear_loop s b freed") auto
      then show ?thesis by simp
    qed
  qed simp
  from this [of "ht_bucketArray t" t "[]"] assms show ?thesis by (simp add: HashTable_Clear_def pairs_def)
qed

text \<open>Inside an iteration a second removal of the same entry is reported as done and counted again.\<close>

theorem hashtable_double_remove_counts_twice:
  fixes t :: "(64 word, bool) wHashTable"
  defines "t \<equiv> sample_table\<lparr>ht_foreachRecursionLevel := 1\<rparr>"
  shows "\<exists>u w. HashTable_Remove (\<lambda>x. x) (\<lambda>_. True) (Some 16) t = Success [] u \<and>
    HashTable_Remove (\<lambda>x. x) (\<lambda>_. True) (Some 16) u = Success [] w \<and> ht_numOfElements w = 0 \<and> live w = 1"
  by (simp add: t_def HashTable_Remove_def bind_c_def bucket_of_def sample_table_def fresh_table_def HashTable_New_def
      chain_from_def chain_before_def HashTable_Equals_def HashTable_PointerCompare_def HashTable_PointerHash_def
      set_bucket_def live_def pairs_def)

text \<open>A callback that stops the iteration leaves the recursion level raised.\<close>

theorem hashtable_aborted_foreach_stays_raised:
  "\<exists>u. HashTable_Foreach (\<lambda>key val c t. (False, c, t)) () sample_table = Success (False, (), []) u \<and>
     ht_foreachRecursionLevel u = 1"
  by (simp add: HashTable_Foreach_def bind_c_def sample_table_def fresh_table_def HashTable_New_def
      chain_length_def ht_foreach_loop.simps [of _ 0] ht_foreach_loop.simps [of _ "Suc 0" "Suc 0"])

end
