(* ===== verification/WRingBuffer.thy ===== *)
theory WRingBuffer
  imports Containers
begin

text \<open>
  The byte ring buffer of \<open>libfreerdp/utils/ringbuffer.c\<close>, which buffers what a transport has still to
  write. A pointer into the buffer is an offset, a data chunk is the bytes it covers, and every copy is
  checked against the size of the block it reads and writes.
\<close>

section \<open>The functions of ringbuffer.c\<close>

record RingBuffer =
  rb_initialSize :: nat
  rb_freeSize :: nat
  rb_size :: nat
  rb_readPtr :: nat
  rb_writePtr :: nat
  rb_buffer :: "byte list"

definition size_sub :: "nat \<Rightarrow> nat \<Rightarrow> nat" where
  "size_sub a b = (a + (SIZE_MOD - b)) mod SIZE_MOD"

definition ringbuffer_init :: "malloc \<Rightarrow> nat \<Rightarrow> RingBuffer option" where
  "ringbuffer_init malloc initialSize =
     (case malloc initialSize of
        None \<Rightarrow> None
      | Some b \<Rightarrow> Some \<lparr>rb_initialSize = initialSize, rb_freeSize = initialSize, rb_size = initialSize,
          rb_readPtr = 0, rb_writePtr = 0, rb_buffer = b\<rparr>)"

definition ringbuffer_used :: "RingBuffer \<Rightarrow> nat" where
  "ringbuffer_used rb = size_sub (rb_size rb) (rb_freeSize rb)"

definition ringbuffer_capacity :: "RingBuffer \<Rightarrow> nat" where
  "ringbuffer_capacity rb = rb_size rb"

text \<open>\<open>realloc\<close> of the buffer: the old bytes as far as they fit, then those of the fresh block.\<close>

definition rb_realloc :: "malloc \<Rightarrow> nat \<Rightarrow> RingBuffer \<Rightarrow> byte list option" where
  "rb_realloc malloc n rb =
     (case malloc n of None \<Rightarrow> None
      | Some b \<Rightarrow> Some (take n (rb_buffer rb) @ drop (length (rb_buffer rb)) b))"

definition ringbuffer_realloc :: "malloc \<Rightarrow> nat \<Rightarrow> (RingBuffer, unit) cfun" where
  "ringbuffer_realloc malloc targetSize rb =
     (let sized = (\<lambda>rb. Success () (rb\<lparr>
            rb_freeSize := (rb_freeSize rb + size_sub targetSize (rb_size rb)) mod SIZE_MOD,
            rb_size := targetSize\<rparr>)) in
      if rb_writePtr rb = rb_readPtr rb then
        (case rb_realloc malloc targetSize rb of
           None \<Rightarrow> Failure rb
         | Some newData \<Rightarrow> sized (rb\<lparr>rb_readPtr := 0, rb_writePtr := 0, rb_buffer := newData\<rparr>))
      else if rb_writePtr rb \<ge> rb_readPtr rb \<and> rb_writePtr rb < targetSize then
        (case rb_realloc malloc targetSize rb of
           None \<Rightarrow> Failure rb
         | Some newData \<Rightarrow> sized (rb\<lparr>rb_buffer := newData\<rparr>))
      else
        (case malloc targetSize of
           None \<Rightarrow> Failure rb
         | Some newData \<Rightarrow>
             let used = ringbuffer_used rb;
                 moved = (\<lambda>newData. sized (rb\<lparr>rb_writePtr := used, rb_readPtr := 0,
                   rb_buffer := newData\<rparr>)) in
             if rb_readPtr rb < rb_writePtr rb then
               if length (rb_buffer rb) < rb_readPtr rb + used \<or> length newData < used
               then Fault OutOfBoundsAccess
               else moved (overwrite newData 0 (take used (drop (rb_readPtr rb) (rb_buffer rb))))
             else
               let n = size_sub (rb_size rb) (rb_readPtr rb) in
               if length (rb_buffer rb) < rb_readPtr rb + n \<or> length newData < n + rb_writePtr rb \<or>
                  length (rb_buffer rb) < rb_writePtr rb
               then Fault OutOfBoundsAccess
               else moved (overwrite (overwrite newData 0 (take n (drop (rb_readPtr rb) (rb_buffer rb))))
                      n (take (rb_writePtr rb) (rb_buffer rb)))))"

definition ringbuffer_write :: "malloc \<Rightarrow> byte list \<Rightarrow> (RingBuffer, unit) cfun" where
  "ringbuffer_write malloc ptr rb =
     (let sz = length ptr in
      bind_c (if rb_freeSize rb \<le> sz then ringbuffer_realloc malloc ((rb_size rb + sz) mod SIZE_MOD)
              else return_c ()) (\<lambda>_ rb.
        let toWrite = (if size_sub (rb_size rb) (rb_writePtr rb) < sz
              then size_sub (rb_size rb) (rb_writePtr rb) else sz) in
        if length (rb_buffer rb) < rb_writePtr rb + toWrite \<or> length (rb_buffer rb) < sz - toWrite
        then Fault OutOfBoundsAccess
        else Success () (rb\<lparr>
          rb_buffer := overwrite (overwrite (rb_buffer rb) (rb_writePtr rb) (take toWrite ptr))
            0 (drop toWrite ptr),
          rb_writePtr := ((rb_writePtr rb + sz) mod SIZE_MOD) mod rb_size rb,
          rb_freeSize := size_sub (rb_freeSize rb) sz\<rparr>)) rb)"

definition ringbuffer_ensure_linear_write :: "malloc \<Rightarrow> nat \<Rightarrow> (RingBuffer, nat) cfun" where
  "ringbuffer_ensure_linear_write malloc sz =
     bind_c (\<lambda>rb. if rb_freeSize rb < sz
         then ringbuffer_realloc malloc
           ((size_sub ((rb_size rb + sz) mod SIZE_MOD) (rb_freeSize rb) + 32) mod SIZE_MOD) rb
         else Success () rb) (\<lambda>_ rb.
       let rb = (if rb_writePtr rb = rb_readPtr rb then rb\<lparr>rb_writePtr := 0, rb_readPtr := 0\<rparr> else rb) in
       if (rb_writePtr rb + sz) mod SIZE_MOD < rb_size rb then Success (rb_writePtr rb) rb
       else
         let n = size_sub (rb_writePtr rb) (rb_readPtr rb) in
         if length (rb_buffer rb) < rb_readPtr rb + n then Fault OutOfBoundsAccess
         else
           let rb = rb\<lparr>rb_buffer := overwrite (rb_buffer rb) 0 (take n (drop (rb_readPtr rb) (rb_buffer rb))),
                 rb_readPtr := 0, rb_writePtr := ringbuffer_used rb\<rparr> in
           Success (rb_writePtr rb) rb)"

definition ringbuffer_commit_written_bytes :: "nat \<Rightarrow> (RingBuffer, unit) cfun" where
  "ringbuffer_commit_written_bytes sz rb =
     (if sz < 1 then Success () rb
      else if (rb_writePtr rb + sz) mod SIZE_MOD > rb_size rb then Failure rb
      else Success () (rb\<lparr>rb_writePtr := ((rb_writePtr rb + sz) mod SIZE_MOD) mod rb_size rb,
        rb_freeSize := size_sub (rb_freeSize rb) sz\<rparr>))"

text \<open>The chunks filled in, whose number is the returned status.\<close>

definition ringbuffer_peek :: "nat \<Rightarrow> (RingBuffer, byte list list) cfun" where
  "ringbuffer_peek sz rb =
     (if sz < 1 then Success [] rb
      else
        let remaining = (if ringbuffer_used rb < sz then ringbuffer_used rb else sz);
            toRead = (if (rb_readPtr rb + remaining) mod SIZE_MOD > rb_size rb
              then size_sub (rb_size rb) (rb_readPtr rb) else remaining);
            rest = size_sub remaining toRead in
        if length (rb_buffer rb) < rb_readPtr rb + toRead \<or> length (rb_buffer rb) < rest
        then Fault OutOfBoundsAccess
        else Success ((if toRead \<noteq> 0 then [take toRead (drop (rb_readPtr rb) (rb_buffer rb))] else []) @
               (if rest \<noteq> 0 then [take rest (rb_buffer rb)] else [])) rb)"

definition ringbuffer_commit_read_bytes :: "malloc \<Rightarrow> nat \<Rightarrow> (RingBuffer, unit) cfun" where
  "ringbuffer_commit_read_bytes malloc sz rb =
     (if sz < 1 then Success () rb
      else bind_c (assert_c (ringbuffer_used rb \<ge> sz)) (\<lambda>_ rb.
        let rb = rb\<lparr>rb_readPtr := ((rb_readPtr rb + sz) mod SIZE_MOD) mod rb_size rb,
              rb_freeSize := (rb_freeSize rb + sz) mod SIZE_MOD\<rparr> in
        if rb_size rb \<noteq> rb_initialSize rb \<and> ringbuffer_used rb < rb_initialSize rb div 2
        then (case ringbuffer_realloc malloc (rb_initialSize rb) rb of
                Failure rb \<Rightarrow> Success () rb | r \<Rightarrow> r)
        else Success () rb) rb)"

section \<open>Invariant and contents\<close>

definition wf_rb :: "RingBuffer \<Rightarrow> bool" where
  "wf_rb rb \<longleftrightarrow> length (rb_buffer rb) = rb_size rb \<and> rb_size rb \<le> 2 ^ 62 \<and>
     rb_readPtr rb < rb_size rb \<and> 0 < rb_freeSize rb \<and> rb_freeSize rb \<le> rb_size rb \<and>
     rb_writePtr rb = (rb_readPtr rb + (rb_size rb - rb_freeSize rb)) mod rb_size rb \<and>
     0 < rb_initialSize rb \<and> rb_initialSize rb \<le> 2 ^ 62"

definition rb_contents :: "RingBuffer \<Rightarrow> byte list" where
  "rb_contents rb = ring_list (rb_buffer rb) (rb_readPtr rb) (rb_size rb - rb_freeSize rb)"

lemma size_sub_le: "b \<le> a \<Longrightarrow> a < SIZE_MOD \<Longrightarrow> size_sub a b = a - b"
proof -
  assume "b \<le> a" "a < SIZE_MOD"
  then have "a + (SIZE_MOD - b) = (a - b) + SIZE_MOD" by simp
  then have "size_sub a b = (a - b) mod SIZE_MOD" by (simp only: size_sub_def mod_add_self2)
  with \<open>a < SIZE_MOD\<close> show ?thesis by simp
qed

lemma free_resized:
  assumes "f \<le> n" "n - f < k" "n \<le> 2 ^ 62" "k \<le> 2 ^ 62"
  shows "(f + size_sub k n) mod SIZE_MOD = k - (n - f)"
proof (cases "n \<le> k")
  case True
  with assms show ?thesis by (simp add: size_sub_le)
next
  case False
  then have "size_sub k n = k + (SIZE_MOD - n)" using assms by (simp add: size_sub_def)
  then have "f + size_sub k n = (k - (n - f)) + SIZE_MOD" using assms by simp
  then have "(f + size_sub k n) mod SIZE_MOD = (k - (n - f)) mod SIZE_MOD"
    by (simp only: mod_add_self2)
  then show ?thesis using assms by simp
qed

lemma wf_rb_bounds:
  assumes "wf_rb rb"
  shows "length (rb_buffer rb) = rb_size rb" "rb_size rb \<le> 2 ^ 62" "rb_readPtr rb < rb_size rb"
    "0 < rb_freeSize rb" "rb_freeSize rb \<le> rb_size rb" "0 < rb_initialSize rb"
    "rb_initialSize rb \<le> 2 ^ 62" "rb_writePtr rb < rb_size rb" "ringbuffer_used rb = rb_size rb - rb_freeSize rb"
  using assms by (auto simp: wf_rb_def ringbuffer_used_def size_sub_le)

lemma rb_pieces:
  assumes "wf_rb rb"
  shows "rb_writePtr rb = rb_readPtr rb \<longleftrightarrow> rb_contents rb = []"
    and "rb_readPtr rb < rb_writePtr rb \<Longrightarrow> rb_writePtr rb = rb_readPtr rb + ringbuffer_used rb \<and>
      rb_contents rb = take (ringbuffer_used rb) (drop (rb_readPtr rb) (rb_buffer rb))"
    and "rb_writePtr rb < rb_readPtr rb \<Longrightarrow>
      rb_writePtr rb + rb_size rb = rb_readPtr rb + ringbuffer_used rb \<and>
      rb_contents rb = drop (rb_readPtr rb) (rb_buffer rb) @ take (rb_writePtr rb) (rb_buffer rb)"
proof -
  note b = wf_rb_bounds [OF assms]
  define u where "u = rb_size rb - rb_freeSize rb"
  have u: "u < rb_size rb" "rb_writePtr rb = (rb_readPtr rb + u) mod rb_size rb"
    using assms b by (auto simp: u_def wf_rb_def)
  have c: "rb_contents rb = (if rb_readPtr rb + u \<le> rb_size rb then take u (drop (rb_readPtr rb) (rb_buffer rb))
      else drop (rb_readPtr rb) (rb_buffer rb) @ take (rb_readPtr rb + u - rb_size rb) (rb_buffer rb))"
    using ring_list_pieces [of "rb_readPtr rb" "rb_buffer rb" u] b u by (simp add: rb_contents_def u_def)
  have w: "rb_writePtr rb = (if rb_readPtr rb + u < rb_size rb then rb_readPtr rb + u
      else rb_readPtr rb + u - rb_size rb)"
    using u b by (simp add: le_mod_geq)
  show "rb_writePtr rb = rb_readPtr rb \<longleftrightarrow> rb_contents rb = []"
    using w u b by (auto simp: rb_contents_def u_def split: if_splits)
  show "rb_writePtr rb = rb_readPtr rb + ringbuffer_used rb \<and>
      rb_contents rb = take (ringbuffer_used rb) (drop (rb_readPtr rb) (rb_buffer rb))"
    if "rb_readPtr rb < rb_writePtr rb"
    using that w u b c by (auto simp flip: u_def split: if_splits)
  show "rb_writePtr rb + rb_size rb = rb_readPtr rb + ringbuffer_used rb \<and>
      rb_contents rb = drop (rb_readPtr rb) (rb_buffer rb) @ take (rb_writePtr rb) (rb_buffer rb)"
    if "rb_writePtr rb < rb_readPtr rb"
    using that w u b c by (auto simp flip: u_def split: if_splits)
qed

section \<open>Reallocation\<close>

definition rb_same :: "RingBuffer \<Rightarrow> RingBuffer \<Rightarrow> nat \<Rightarrow> bool" where
  "rb_same rb t n \<longleftrightarrow> wf_rb t \<and> rb_contents t = rb_contents rb \<and> rb_size t = n \<and>
     rb_freeSize t = n - ringbuffer_used rb \<and> rb_initialSize t = rb_initialSize rb"

lemma ring_list_linear: "length xs \<le> length b \<Longrightarrow> 0 < length b \<Longrightarrow>
    ring_list (overwrite b 0 xs) 0 (length xs) = xs"
  using ring_list_pieces [of 0 "overwrite b 0 xs" "length xs"]
  by (simp add: length_overwrite) (simp add: overwrite_def)

lemma length_rb_contents: "wf_rb rb \<Longrightarrow> length (rb_contents rb) = ringbuffer_used rb"
  using wf_rb_bounds [of rb] by (simp add: rb_contents_def)

text \<open>The outcome of the branch that copies the contents to the front of a new block.\<close>

lemma rb_moved:
  assumes wf: "wf_rb rb" and b: "length b = n" and n: "ringbuffer_used rb < n" "n \<le> 2 ^ 62"
  shows "rb_same rb (rb\<lparr>rb_writePtr := ringbuffer_used rb, rb_readPtr := 0,
    rb_buffer := overwrite b 0 (rb_contents rb), rb_freeSize := n - ringbuffer_used rb, rb_size := n\<rparr>) n"
  using wf_rb_bounds [OF wf] b n length_rb_contents [OF wf] ring_list_linear [of "rb_contents rb" b]
  by (auto simp: rb_same_def wf_rb_def rb_contents_def [of "RingBuffer.rb_size_update _ _"]
      length_overwrite)

lemma rb_emptied:
  assumes wf: "wf_rb rb" and b: "length b = n" and n: "0 < n" "n \<le> 2 ^ 62" and e: "rb_contents rb = []"
  shows "rb_same rb (rb\<lparr>rb_readPtr := 0, rb_writePtr := 0, rb_buffer := b,
    rb_freeSize := n, rb_size := n\<rparr>) n"
  using wf_rb_bounds [OF wf] b n e length_rb_contents [OF wf]
  by (auto simp: rb_same_def wf_rb_def rb_contents_def)

lemma rb_in_place:
  assumes wf: "wf_rb rb" and b: "length b = n" and n: "rb_writePtr rb < n" "n \<le> 2 ^ 62"
    and lt: "rb_readPtr rb < rb_writePtr rb"
  shows "rb_same rb (rb\<lparr>rb_buffer := take n (rb_buffer rb) @ drop (length (rb_buffer rb)) b,
    rb_freeSize := n - ringbuffer_used rb, rb_size := n\<rparr>) n"
proof -
  note bd = wf_rb_bounds [OF wf]
  have w: "rb_writePtr rb = rb_readPtr rb + ringbuffer_used rb"
    "rb_contents rb = take (ringbuffer_used rb) (drop (rb_readPtr rb) (rb_buffer rb))"
    using rb_pieces(2) [OF wf lt] by auto
  have le: "ringbuffer_used rb \<le> rb_size rb - rb_readPtr rb" "ringbuffer_used rb \<le> n - rb_readPtr rb"
    using w(1) bd(8) n by linarith+
  let ?buf = "take n (rb_buffer rb) @ drop (length (rb_buffer rb)) b"
  have len: "length ?buf = n" using b by (cases "n \<le> length (rb_buffer rb)") simp_all
  have "take (ringbuffer_used rb) (drop (rb_readPtr rb) ?buf) = rb_contents rb"
    using w bd(1) le by (simp add: drop_take take_append)
  then have "ring_list ?buf (rb_readPtr rb) (ringbuffer_used rb) = rb_contents rb"
    using ring_list_pieces [of "rb_readPtr rb" ?buf "ringbuffer_used rb"] len w n by simp
  moreover have "rb_readPtr rb < n" "0 < n - ringbuffer_used rb" "ringbuffer_used rb \<le> n"
    using w(1) n by linarith+
  ultimately show ?thesis using bd(6,7) n w len
    by (simp add: rb_same_def wf_rb_def rb_contents_def [of "RingBuffer.rb_size_update _ _"])
qed

lemma ringbuffer_realloc_ok:
  assumes wf: "wf_rb rb" and spec: "malloc_spec malloc" and mem: "malloc n = Some b"
    and n: "ringbuffer_used rb < n" "n \<le> 2 ^ 62"
  shows "\<exists>t. ringbuffer_realloc malloc n rb = Success () t \<and> rb_same rb t n"
proof -
  note bd = wf_rb_bounds [OF wf]
  have b: "length b = n" using spec mem by (simp add: malloc_spec_def)
  have f: "(rb_freeSize rb + size_sub n (rb_size rb)) mod SIZE_MOD = n - ringbuffer_used rb"
    using free_resized [of "rb_freeSize rb" "rb_size rb" n] bd n by simp
  consider "rb_writePtr rb = rb_readPtr rb"
    | "rb_readPtr rb < rb_writePtr rb" "rb_writePtr rb < n"
    | "rb_readPtr rb < rb_writePtr rb" "\<not> rb_writePtr rb < n"
    | "rb_writePtr rb < rb_readPtr rb" by linarith
  then show ?thesis
  proof cases
    case 1
    then have e: "rb_contents rb = []" using rb_pieces(1) [OF wf] by simp
    then have "ringbuffer_used rb = 0" using length_rb_contents [OF wf] by simp
    let ?buf = "take n (rb_buffer rb) @ drop (length (rb_buffer rb)) b"
    have "length ?buf = n" using b by (cases "n \<le> length (rb_buffer rb)") simp_all
    from rb_emptied [OF wf this _ n(2) e] n 1 mem f \<open>ringbuffer_used rb = 0\<close> show ?thesis
      by (simp add: ringbuffer_realloc_def rb_realloc_def Let_def)
  next
    case 2
    from rb_in_place [OF wf b 2(2) n(2) 2(1)] 2 mem f show ?thesis
      by (simp add: ringbuffer_realloc_def rb_realloc_def Let_def)
  next
    case 3
    from rb_moved [OF wf b n] rb_pieces(2) [OF wf 3(1)] 3 mem f b n bd show ?thesis
      by (simp add: ringbuffer_realloc_def Let_def)
  next
    case 4
    have k: "size_sub (rb_size rb) (rb_readPtr rb) = rb_size rb - rb_readPtr rb"
      using bd by (simp add: size_sub_le)
    note w = rb_pieces(3) [OF wf 4]
    then have le: "rb_size rb - rb_readPtr rb \<le> n" using bd n by linarith
    have "overwrite (overwrite b 0 (drop (rb_readPtr rb) (rb_buffer rb))) (rb_size rb - rb_readPtr rb)
        (take (rb_writePtr rb) (rb_buffer rb)) = overwrite b 0 (rb_contents rb)"
      using overwrite_append [of 0 "drop (rb_readPtr rb) (rb_buffer rb)" b
          "take (rb_writePtr rb) (rb_buffer rb)"] w bd(1) b le by simp
    moreover have "\<not> n < rb_size rb - rb_readPtr rb + rb_writePtr rb" using w n(1) bd(3) by linarith
    ultimately show ?thesis using rb_moved [OF wf b n] 4 mem f b bd(1,3,8) k
      by (simp add: ringbuffer_realloc_def Let_def)
  qed
qed

lemma ringbuffer_realloc_no_memory: "malloc n = None \<Longrightarrow> ringbuffer_realloc malloc n rb = Failure rb"
  by (simp add: ringbuffer_realloc_def rb_realloc_def Let_def)

section \<open>Reading and writing\<close>

lemma rb_put:
  assumes wf: "wf_rb rb" and sz: "length xs < rb_freeSize rb"
  defines "t \<equiv> rb\<lparr>rb_buffer := ring_put (rb_buffer rb) (rb_writePtr rb) xs,
    rb_writePtr := (rb_writePtr rb + length xs) mod rb_size rb,
    rb_freeSize := rb_freeSize rb - length xs\<rparr>"
  shows "wf_rb t" "rb_contents t = rb_contents rb @ xs"
proof -
  note bd = wf_rb_bounds [OF wf]
  have u: "rb_size rb - (rb_freeSize rb - length xs) = rb_size rb - rb_freeSize rb + length xs"
    using bd sz by simp
  have w: "rb_writePtr rb = (rb_readPtr rb + (rb_size rb - rb_freeSize rb)) mod rb_size rb"
    using wf by (simp add: wf_rb_def)
  show "wf_rb t" unfolding t_def wf_rb_def using bd sz
    by (simp add: u) (simp add: w mod_add_left_eq add.assoc)
  show "rb_contents t = rb_contents rb @ xs"
    using ring_list_put [of "rb_readPtr rb" "rb_buffer rb" "rb_size rb - rb_freeSize rb" xs "rb_writePtr rb"]
      bd sz w by (simp add: t_def rb_contents_def u)
qed

lemma ringbuffer_write_ok:
  assumes wf: "wf_rb rb" and spec: "malloc_spec malloc"
    and mem: "length xs < rb_freeSize rb \<or> malloc (rb_size rb + length xs) \<noteq> None"
    and sz: "rb_size rb + length xs \<le> 2 ^ 62"
  shows "\<exists>t. ringbuffer_write malloc xs rb = Success () t \<and> wf_rb t \<and>
    rb_contents t = rb_contents rb @ xs \<and> rb_initialSize t = rb_initialSize rb"
proof -
  note bd0 = wf_rb_bounds [OF wf]
  obtain r where r: "(if rb_freeSize rb \<le> length xs
      then ringbuffer_realloc malloc ((rb_size rb + length xs) mod SIZE_MOD) else return_c ()) rb = Success () r"
    "wf_rb r" "rb_contents r = rb_contents rb" "length xs < rb_freeSize r"
    "rb_initialSize r = rb_initialSize rb"
  proof (cases "length xs < rb_freeSize rb")
    case True
    then show ?thesis using that [of rb] wf by (simp add: return_c_def)
  next
    case False
    with mem obtain b where b: "malloc (rb_size rb + length xs) = Some b" by auto
    have "ringbuffer_used rb < rb_size rb + length xs" using bd0 by linarith
    from ringbuffer_realloc_ok [OF wf spec b this sz] obtain t where
      t: "ringbuffer_realloc malloc (rb_size rb + length xs) rb = Success () t"
        "rb_same rb t (rb_size rb + length xs)" by blast
    moreover have "(rb_size rb + length xs) mod SIZE_MOD = rb_size rb + length xs" using sz by simp
    moreover have "length xs < rb_size rb + length xs - ringbuffer_used rb" using bd0 by linarith
    ultimately show ?thesis using that [of t] False by (simp add: rb_same_def)
  qed
  note bd = wf_rb_bounds [OF r(2)]
  have s: "size_sub (rb_size r) (rb_writePtr r) = rb_size r - rb_writePtr r"
    "size_sub (rb_freeSize r) (length xs) = rb_freeSize r - length xs"
    using bd r(4) by (simp_all add: size_sub_le)
  have m: "(rb_writePtr r + length xs) mod SIZE_MOD = rb_writePtr r + length xs"
    using bd r(4) by (intro mod_less) simp
  define k where "k = (if rb_size r - rb_writePtr r < length xs then rb_size r - rb_writePtr r else length xs)"
  have k: "k = min (length xs) (length (rb_buffer r) - rb_writePtr r)" using bd by (simp add: k_def)
  have ok: "\<not> (length (rb_buffer r) < rb_writePtr r + k \<or> length (rb_buffer r) < length xs - k)"
    using bd r(4) by (auto simp: k_def)
  have "ringbuffer_write malloc xs rb = Success () (r\<lparr>
      rb_buffer := ring_put (rb_buffer r) (rb_writePtr r) xs,
      rb_writePtr := (rb_writePtr r + length xs) mod rb_size r,
      rb_freeSize := rb_freeSize r - length xs\<rparr>)"
    using ok unfolding ringbuffer_write_def Let_def bind_c_def r(1) outcome.case s m k_def [symmetric]
    by (simp add: ring_put_def Let_def flip: k)
  with rb_put [OF r(2,4)] r(3,5) show ?thesis by simp
qed

lemma ringbuffer_peek_ok:
  assumes wf: "wf_rb rb"
  shows "\<exists>chunks. ringbuffer_peek sz rb = Success chunks rb \<and> concat chunks = take sz (rb_contents rb) \<and>
    length chunks \<le> 2 \<and> [] \<notin> set chunks"
proof -
  note bd = wf_rb_bounds [OF wf]
  define n where "n = min sz (ringbuffer_used rb)"
  have n: "(if ringbuffer_used rb < sz then ringbuffer_used rb else sz) = n" by (simp add: n_def)
  have m: "(rb_readPtr rb + n) mod SIZE_MOD = rb_readPtr rb + n"
    using bd by (intro mod_less) (simp add: n_def)
  define k where "k = (if rb_readPtr rb + n > rb_size rb then rb_size rb - rb_readPtr rb else n)"
  have "k \<le> n" "n \<le> rb_size rb" using bd by (auto simp: k_def n_def)
  then have s: "size_sub (rb_size rb) (rb_readPtr rb) = rb_size rb - rb_readPtr rb"
    "size_sub n k = n - k" using bd by (simp_all add: size_sub_le)
  have c: "take sz (rb_contents rb) = ring_list (rb_buffer rb) (rb_readPtr rb) n"
    by (simp add: rb_contents_def n_def take_ring_list bd(9))
  have "n \<le> length (rb_buffer rb)" using bd by (simp add: n_def)
  then have p: "take sz (rb_contents rb) = take k (drop (rb_readPtr rb) (rb_buffer rb)) @ take (n - k) (rb_buffer rb)"
    unfolding c using ring_list_pieces [of "rb_readPtr rb" "rb_buffer rb" n] bd
    by (auto simp: k_def add.commute)
  have ok: "\<not> (length (rb_buffer rb) < rb_readPtr rb + k \<or> length (rb_buffer rb) < n - k)"
    using bd \<open>n \<le> length (rb_buffer rb)\<close> by (auto simp: k_def)
  show ?thesis
  proof (cases "sz = 0")
    case True
    then show ?thesis by (simp add: ringbuffer_peek_def)
  next
    case False
    have "ringbuffer_peek sz rb = Success ((if k \<noteq> 0 then [take k (drop (rb_readPtr rb) (rb_buffer rb))] else []) @
        (if n - k \<noteq> 0 then [take (n - k) (rb_buffer rb)] else [])) rb"
      using False ok unfolding ringbuffer_peek_def Let_def n m s k_def [symmetric] by simp
    moreover have "k \<noteq> 0 \<longrightarrow> take k (drop (rb_readPtr rb) (rb_buffer rb)) \<noteq> []"
      "n - k \<noteq> 0 \<longrightarrow> take (n - k) (rb_buffer rb) \<noteq> []" using bd ok by auto
    ultimately show ?thesis by (auto simp: p)
  qed
qed

lemma rb_drop:
  assumes wf: "wf_rb rb" and sz: "n \<le> ringbuffer_used rb"
  defines "t \<equiv> rb\<lparr>rb_readPtr := (rb_readPtr rb + n) mod rb_size rb, rb_freeSize := rb_freeSize rb + n\<rparr>"
  shows "wf_rb t" "rb_contents t = drop n (rb_contents rb)"
proof -
  note bd = wf_rb_bounds [OF wf]
  obtain m where m: "rb_size rb - rb_freeSize rb = n + m" using sz bd(9) by (metis le_Suc_ex)
  then have u: "rb_size rb - (rb_freeSize rb + n) = m" by simp
  have w: "rb_writePtr rb = (rb_readPtr rb + (n + m)) mod rb_size rb"
    using wf by (simp add: wf_rb_def m)
  have f: "rb_freeSize rb + n \<le> rb_size rb" "0 < rb_size rb" using sz bd by linarith+
  show "wf_rb t" unfolding t_def wf_rb_def using bd f
    by (simp add: u) (simp add: w mod_add_left_eq add.assoc)
  show "rb_contents t = drop n (rb_contents rb)"
  proof (rule nth_equalityI)
    fix i assume "i < length (rb_contents t)"
    then have "i < m" by (simp add: t_def rb_contents_def u)
    then show "rb_contents t ! i = drop n (rb_contents rb) ! i"
      using bd(1) by (simp add: t_def rb_contents_def u m ring_list_def mod_add_left_eq add.assoc)
  qed (simp add: t_def rb_contents_def u m)
qed

lemma ringbuffer_commit_read_bytes_ok:
  assumes wf: "wf_rb rb" and spec: "malloc_spec malloc" and sz: "n \<le> ringbuffer_used rb"
  shows "\<exists>t. ringbuffer_commit_read_bytes malloc n rb = Success () t \<and> wf_rb t \<and>
    rb_contents t = drop n (rb_contents rb) \<and> rb_initialSize t = rb_initialSize rb"
proof (cases "n = 0")
  case True
  then show ?thesis using wf by (simp add: ringbuffer_commit_read_bytes_def)
next
  case False
  note bd = wf_rb_bounds [OF wf]
  let ?r = "rb\<lparr>rb_readPtr := (rb_readPtr rb + n) mod rb_size rb, rb_freeSize := rb_freeSize rb + n\<rparr>"
  note r = rb_drop [OF wf sz]
  have m: "(rb_readPtr rb + n) mod SIZE_MOD = rb_readPtr rb + n"
    "(rb_freeSize rb + n) mod SIZE_MOD = rb_freeSize rb + n"
    using bd sz by (auto intro!: mod_less)
  have run: "ringbuffer_commit_read_bytes malloc n rb =
      (if rb_size ?r \<noteq> rb_initialSize ?r \<and> ringbuffer_used ?r < rb_initialSize ?r div 2
       then (case ringbuffer_realloc malloc (rb_initialSize ?r) ?r of Failure rb \<Rightarrow> Success () rb | x \<Rightarrow> x)
       else Success () ?r)"
    using False sz unfolding ringbuffer_commit_read_bytes_def bind_c_def assert_c_def Let_def
    by (simp add: m [simplified])
  show ?thesis
  proof (cases "rb_size ?r \<noteq> rb_initialSize ?r \<and> ringbuffer_used ?r < rb_initialSize ?r div 2")
    case True
    show ?thesis
    proof (cases "malloc (rb_initialSize ?r)")
      case None
      then have "ringbuffer_realloc malloc (rb_initialSize ?r) ?r = Failure ?r"
        by (rule ringbuffer_realloc_no_memory)
      with run True r show ?thesis by simp
    next
      case (Some b)
      have "ringbuffer_used ?r < rb_initialSize ?r" using True by linarith
      from ringbuffer_realloc_ok [OF r(1) spec Some this] bd(7) obtain t where
        "ringbuffer_realloc malloc (rb_initialSize ?r) ?r = Success () t" "rb_same ?r t (rb_initialSize ?r)"
        by auto
      with run True r show ?thesis by (simp add: rb_same_def)
    qed
  next
    case False
    have "ringbuffer_commit_read_bytes malloc n rb = Success () ?r"
      using run unfolding if_not_P [OF False] .
    with r show ?thesis by simp
  qed
qed

lemma ringbuffer_init_ok:
  assumes "malloc_spec malloc" "malloc n = Some b" "0 < n" "n \<le> 2 ^ 62"
  shows "\<exists>rb. ringbuffer_init malloc n = Some rb \<and> wf_rb rb \<and> rb_contents rb = [] \<and> rb_initialSize rb = n"
  using assms by (simp add: ringbuffer_init_def wf_rb_def rb_contents_def malloc_spec_def)

section \<open>Writing in place\<close>

lemma rb_reset:
  assumes "wf_rb rb" "rb_writePtr rb = rb_readPtr rb"
  shows "wf_rb (rb\<lparr>rb_writePtr := 0, rb_readPtr := 0\<rparr>)"
    "rb_contents (rb\<lparr>rb_writePtr := 0, rb_readPtr := 0\<rparr>) = rb_contents rb"
proof -
  have "rb_contents rb = []" using rb_pieces(1) [OF assms(1)] assms(2) by simp
  then have "rb_size rb - rb_freeSize rb = 0" by (simp add: rb_contents_def)
  then show "wf_rb (rb\<lparr>rb_writePtr := 0, rb_readPtr := 0\<rparr>)"
    "rb_contents (rb\<lparr>rb_writePtr := 0, rb_readPtr := 0\<rparr>) = rb_contents rb"
    using wf_rb_bounds [OF assms(1)] by (auto simp: wf_rb_def rb_contents_def)
qed

lemma rb_compacted:
  assumes wf: "wf_rb rb" and lt: "rb_readPtr rb \<le> rb_writePtr rb"
  defines "n \<equiv> ringbuffer_used rb"
  defines "t \<equiv> rb\<lparr>rb_buffer := overwrite (rb_buffer rb) 0 (take n (drop (rb_readPtr rb) (rb_buffer rb))),
    rb_readPtr := 0, rb_writePtr := n\<rparr>"
  shows "wf_rb t" "rb_contents t = rb_contents rb" "rb_writePtr rb = rb_readPtr rb + n"
proof -
  note bd = wf_rb_bounds [OF wf]
  have c: "rb_contents rb = take n (drop (rb_readPtr rb) (rb_buffer rb)) \<and> rb_writePtr rb = rb_readPtr rb + n"
    using rb_pieces(1,2) [OF wf] lt length_rb_contents [OF wf] by (cases "rb_contents rb") (auto simp: n_def)
  then show "rb_writePtr rb = rb_readPtr rb + n" by simp
  have len: "length (rb_contents rb) = n" using length_rb_contents [OF wf] by (simp add: n_def)
  have n: "n < rb_size rb" using bd by (simp add: n_def)
  show "wf_rb t" using bd n c len
    by (auto simp: t_def wf_rb_def length_overwrite n_def)
  show "rb_contents t = rb_contents rb"
    using ring_list_linear [of "rb_contents rb" "rb_buffer rb"] bd n c len
    by (simp add: t_def n_def rb_contents_def [of "RingBuffer.rb_buffer_update _ _"]
        rb_contents_def [of "RingBuffer.rb_writePtr_update _ _"])
qed

lemma ringbuffer_linear_room:
  assumes wf: "wf_rb rb" and spec: "malloc_spec malloc" and mem: "memory_available malloc"
    and sz: "rb_size rb + sz + 32 \<le> 2 ^ 62"
  obtains r where "(if rb_freeSize rb < sz
      then ringbuffer_realloc malloc
        ((size_sub ((rb_size rb + sz) mod SIZE_MOD) (rb_freeSize rb) + 32) mod SIZE_MOD) rb
      else Success () rb) = Success () r" "wf_rb r" "rb_contents r = rb_contents rb" "sz \<le> rb_freeSize r"
proof (cases "rb_freeSize rb < sz")
  case False
  then show ?thesis using that [of rb] wf by simp
next
  case True
  note bd = wf_rb_bounds [OF wf]
  let ?n = "rb_size rb + sz - rb_freeSize rb + 32"
  have n: "(size_sub ((rb_size rb + sz) mod SIZE_MOD) (rb_freeSize rb) + 32) mod SIZE_MOD = ?n"
    using sz bd by (simp add: size_sub_le)
  obtain b where "malloc ?n = Some b" using mem by (fastforce simp: memory_available_def)
  moreover have "ringbuffer_used rb < ?n" "?n \<le> 2 ^ 62" using bd sz by simp_all
  ultimately obtain r where "ringbuffer_realloc malloc ?n rb = Success () r" "rb_same rb r ?n"
    using ringbuffer_realloc_ok [OF wf spec] by blast
  with that [of r] True n bd show ?thesis by (simp add: rb_same_def)
qed

lemma ringbuffer_ensure_linear_write_ok:
  assumes wf: "wf_rb rb" and spec: "malloc_spec malloc" and mem: "memory_available malloc"
    and sz: "rb_size rb + sz + 32 \<le> 2 ^ 62"
  shows "\<exists>t. ringbuffer_ensure_linear_write malloc sz rb = Success (rb_writePtr t) t \<and> wf_rb t \<and>
    rb_contents t = rb_contents rb \<and> sz \<le> rb_freeSize t \<and> rb_writePtr t + sz \<le> rb_size t"
proof -
  obtain r where r: "(if rb_freeSize rb < sz
      then ringbuffer_realloc malloc
        ((size_sub ((rb_size rb + sz) mod SIZE_MOD) (rb_freeSize rb) + 32) mod SIZE_MOD) rb
      else Success () rb) = Success () r" "wf_rb r" "rb_contents r = rb_contents rb" "sz \<le> rb_freeSize r"
    using ringbuffer_linear_room [OF assms] by blast
  define q where "q = (if rb_writePtr r = rb_readPtr r then r\<lparr>rb_writePtr := 0, rb_readPtr := 0\<rparr> else r)"
  have q: "wf_rb q" "rb_contents q = rb_contents rb" "sz \<le> rb_freeSize q"
    using r rb_reset [OF r(2)] by (auto simp: q_def)
  note bd = wf_rb_bounds [OF q(1)]
  have m: "(rb_writePtr q + sz) mod SIZE_MOD = rb_writePtr q + sz"
    using bd q(3) by (intro mod_less) simp
  show ?thesis
  proof (cases "rb_writePtr q + sz < rb_size q")
    case True
    then have "ringbuffer_ensure_linear_write malloc sz rb = Success (rb_writePtr q) q"
      unfolding ringbuffer_ensure_linear_write_def bind_c_def r(1) outcome.case Let_def
        q_def [symmetric] m by simp
    with True q show ?thesis by auto
  next
    case False
    have le: "rb_readPtr q \<le> rb_writePtr q"
      using rb_pieces(3) [OF q(1)] False q(3) bd by (cases "rb_writePtr q < rb_readPtr q") auto
    note c = rb_compacted [OF q(1) le]
    have s: "size_sub (rb_writePtr q) (rb_readPtr q) = ringbuffer_used q"
      using c(3) bd by (simp add: size_sub_le)
    have "ringbuffer_used (q\<lparr>rb_buffer := x, rb_readPtr := 0\<rparr>) = ringbuffer_used q" for x
      by (simp add: ringbuffer_used_def)
    then have "ringbuffer_ensure_linear_write malloc sz rb = Success (ringbuffer_used q)
        (q\<lparr>rb_buffer := overwrite (rb_buffer q) 0 (take (ringbuffer_used q) (drop (rb_readPtr q) (rb_buffer q))),
          rb_readPtr := 0, rb_writePtr := ringbuffer_used q\<rparr>)"
      using False c(3) bd unfolding ringbuffer_ensure_linear_write_def bind_c_def r(1) outcome.case Let_def
        q_def [symmetric] m s by simp
    with c q bd show ?thesis by auto
  qed
qed

lemma ringbuffer_commit_written_bytes_ok:
  assumes wf: "wf_rb rb" and free: "length xs \<le> rb_freeSize rb" and fits: "rb_writePtr rb + length xs \<le> rb_size rb"
  shows "rb_contents (rb\<lparr>rb_buffer := overwrite (rb_buffer rb) (rb_writePtr rb) xs\<rparr>) = rb_contents rb"
    "\<exists>u. ringbuffer_commit_written_bytes (length xs)
      (rb\<lparr>rb_buffer := overwrite (rb_buffer rb) (rb_writePtr rb) xs\<rparr>) = Success () u \<and>
      rb_contents u = rb_contents rb @ xs \<and> (length xs < rb_freeSize rb \<longrightarrow> wf_rb u)"
proof -
  note bd = wf_rb_bounds [OF wf]
  let ?n = "rb_size rb - rb_freeSize rb"
  have p: "ring_put (rb_buffer rb) (rb_writePtr rb) xs = overwrite (rb_buffer rb) (rb_writePtr rb) xs"
    using fits bd by (simp add: ring_put_def Let_def overwrite_Nil)
  have l: "length (overwrite (rb_buffer rb) (rb_writePtr rb) xs) = rb_size rb" using fits bd by simp
  have s: "ring_list (overwrite (rb_buffer rb) (rb_writePtr rb) xs) (rb_readPtr rb) (?n + length xs) = rb_contents rb @ xs"
    unfolding p [symmetric] rb_contents_def using wf free by (intro ring_list_put) (auto simp: wf_rb_def)
  from arg_cong [OF s, of "take ?n"]
  show "rb_contents (rb\<lparr>rb_buffer := overwrite (rb_buffer rb) (rb_writePtr rb) xs\<rparr>) = rb_contents rb"
    by (simp add: take_ring_list rb_contents_def)
  have m: "(rb_writePtr rb + length xs) mod SIZE_MOD = rb_writePtr rb + length xs"
    "size_sub (rb_freeSize rb) (length xs) = rb_freeSize rb - length xs"
    using bd free fits by (auto simp: size_sub_le)
  show "\<exists>u. ringbuffer_commit_written_bytes (length xs)
      (rb\<lparr>rb_buffer := overwrite (rb_buffer rb) (rb_writePtr rb) xs\<rparr>) = Success () u \<and>
      rb_contents u = rb_contents rb @ xs \<and> (length xs < rb_freeSize rb \<longrightarrow> wf_rb u)"
  proof (cases "xs = []")
    case True
    then show ?thesis using wf by (simp add: ringbuffer_commit_written_bytes_def overwrite_Nil)
  next
    case False
    let ?u = "rb\<lparr>rb_buffer := ring_put (rb_buffer rb) (rb_writePtr rb) xs,
      rb_writePtr := (rb_writePtr rb + length xs) mod rb_size rb, rb_freeSize := rb_freeSize rb - length xs\<rparr>"
    have "ringbuffer_commit_written_bytes (length xs)
        (rb\<lparr>rb_buffer := overwrite (rb_buffer rb) (rb_writePtr rb) xs\<rparr>) = Success () ?u"
      using False fits m [simplified] by (simp add: ringbuffer_commit_written_bytes_def p)
    moreover have "rb_size rb - (rb_freeSize rb - length xs) = ?n + length xs" using bd free by simp
    then have "rb_contents ?u = rb_contents rb @ xs" using s by (simp add: p rb_contents_def)
    moreover have "wf_rb ?u" if "length xs < rb_freeSize rb" using rb_put [OF wf that] by auto
    ultimately show ?thesis by blast
  qed
qed

section \<open>The ring buffer as a pipe\<close>

text \<open>
  What the transport does: it writes blocks, and reads by looking at up to \<open>n\<close> bytes and committing
  those it could pass on. \<open>sz\<close> bounds the size so that it stays within \<open>size_t\<close>.
\<close>

definition rb_write :: "malloc \<Rightarrow> byte list \<Rightarrow> RingBuffer \<Rightarrow> RingBuffer option" where
  "rb_write malloc xs rb =
     (if rb_size rb + length xs \<le> 2 ^ 62 then
        case ringbuffer_write malloc xs rb of Success _ t \<Rightarrow> Some t | _ \<Rightarrow> None
      else None)"

definition rb_read :: "malloc \<Rightarrow> nat \<Rightarrow> RingBuffer \<Rightarrow> (byte list \<times> RingBuffer) option" where
  "rb_read malloc n rb =
     (case ringbuffer_peek n rb of
        Success chunks rb \<Rightarrow>
          (case ringbuffer_commit_read_bytes malloc (length (concat chunks)) rb of
             Success _ t \<Rightarrow> Some (concat chunks, t) | _ \<Rightarrow> None)
      | _ \<Rightarrow> None)"

lemma rb_write_Some:
  assumes "malloc_spec malloc" "wf_rb rb" "rb_write malloc xs rb = Some t"
  shows "wf_rb t \<and> rb_contents t = rb_contents rb @ xs"
proof -
  have sz: "rb_size rb + length xs \<le> 2 ^ 62" using assms(3) by (auto simp: rb_write_def split: if_splits)
  show ?thesis
  proof (cases "length xs < rb_freeSize rb \<or> malloc (rb_size rb + length xs) \<noteq> None")
    case True
    from ringbuffer_write_ok [OF assms(2,1) this sz] assms(3) sz show ?thesis
      by (auto simp: rb_write_def)
  next
    case False
    moreover have "(rb_size rb + length xs) mod SIZE_MOD = rb_size rb + length xs" using sz by simp
    ultimately have "ringbuffer_write malloc xs rb = Failure rb"
      by (simp add: ringbuffer_write_def bind_c_def ringbuffer_realloc_no_memory)
    with assms(3) sz show ?thesis by (simp add: rb_write_def)
  qed
qed

lemma rb_read_Some:
  assumes "malloc_spec malloc" "wf_rb rb"
  shows "\<exists>t. rb_read malloc n rb = Some (take n (rb_contents rb), t) \<and> wf_rb t \<and>
    rb_contents t = drop n (rb_contents rb)"
proof -
  obtain chunks where c: "ringbuffer_peek n rb = Success chunks rb" "concat chunks = take n (rb_contents rb)"
    using ringbuffer_peek_ok [OF assms(2)] by blast
  have "length (concat chunks) \<le> ringbuffer_used rb"
    using length_rb_contents [OF assms(2)] by (simp add: c(2))
  from ringbuffer_commit_read_bytes_ok [OF assms(2,1) this] obtain t where
    t: "ringbuffer_commit_read_bytes malloc (length (concat chunks)) rb = Success () t" "wf_rb t"
      "rb_contents t = drop (length (concat chunks)) (rb_contents rb)" by blast
  have "drop (length (concat chunks)) (rb_contents rb) = drop n (rb_contents rb)"
    by (simp add: c(2) min_def)
  with c t show ?thesis by (simp add: rb_read_def)
qed

interpretation ringbuffer: pipe rb_contents "\<lambda>rb. wf_rb rb \<and> malloc_spec malloc" "rb_write malloc"
  "rb_read malloc" for malloc
proof unfold_locales
  show "(wf_rb t \<and> malloc_spec malloc) \<and> rb_contents t = rb_contents s @ xs"
    if "wf_rb s \<and> malloc_spec malloc" "rb_write malloc xs s = Some t" for s xs t
    using rb_write_Some that by blast
  show "(wf_rb t \<and> malloc_spec malloc) \<and> xs = take n (rb_contents s) \<and> rb_contents t = drop n (rb_contents s)"
    if "wf_rb s \<and> malloc_spec malloc" "rb_read malloc n s = Some (xs, t)" for s n xs t
    using rb_read_Some [of malloc s n] that by auto
qed

section \<open>Properties\<close>

text \<open>
  C22: the ring buffer passes bytes on unchanged: over any sequence of writes and reads, the bytes in the
  buffer and those written are the bytes read, in the same order, followed by those still in the buffer,
  across wrap-around, growth and the shrinking back to the initial size.
\<close>

theorem ringbuffer_is_pipe:
  assumes "wf_rb rb" "malloc_spec malloc"
    "pipe_run (rb_write malloc) (rb_read malloc) ops rb = Some (outs, t)"
  shows "wf_rb t \<and> rb_contents rb @ put_in ops = outs @ rb_contents t"
  using ringbuffer.pipe_order [OF assms(3)] assms(1,2) by blast

abbreviation sample_rb :: RingBuffer where
  "sample_rb \<equiv> \<lparr>rb_initialSize = 4, rb_freeSize = 2, rb_size = 4, rb_readPtr = 3, rb_writePtr = 1,
     rb_buffer = [11, 0, 0, 10]\<rparr>"

lemma wf_sample_rb: "wf_rb sample_rb" "rb_contents sample_rb = [10, 11]" "malloc_spec calloc"
  by (simp_all add: wf_rb_def rb_contents_def ring_list_def malloc_spec_def upt_rec)

theorem ringbuffer_is_pipe_witness:
  "\<exists>t. pipe_run (rb_write calloc) (rb_read calloc) [Put [12, 13, 14], Get 4] sample_rb =
      Some ([10, 11, 12, 13], t) \<and> rb_contents t = [14]"
proof -
  obtain t where t: "pipe_run (rb_write calloc) (rb_read calloc) [Put [12, 13, 14], Get 4] sample_rb =
      Some ([10, 11, 12, 13], t)"
    by (simp add: rb_write_def rb_read_def ringbuffer_write_def ringbuffer_realloc_def rb_realloc_def
        ringbuffer_peek_def ringbuffer_commit_read_bytes_def ringbuffer_used_def size_sub_def Let_def
        overwrite_def c_simps)
  from ringbuffer_is_pipe [OF wf_sample_rb(1,3) t] have "rb_contents t = [14]"
    unfolding wf_sample_rb(2) by simp
  with t show ?thesis by blast
qed

text \<open>
  C23: with enough memory a write succeeds, and a read of any number of bytes returns what there is of
  them in at most two non-empty pieces, without touching the buffer; committing the bytes removes them.
\<close>

theorem ringbuffer_operations:
  assumes "wf_rb rb" "malloc_spec malloc" "memory_available malloc" "rb_size rb + length xs \<le> 2 ^ 62"
  shows "(\<exists>t. ringbuffer_write malloc xs rb = Success () t \<and> wf_rb t \<and>
      rb_contents t = rb_contents rb @ xs) \<and>
    (\<exists>chunks. ringbuffer_peek n rb = Success chunks rb \<and> concat chunks = take n (rb_contents rb) \<and>
      length chunks \<le> 2 \<and> [] \<notin> set chunks) \<and>
    (n \<le> length (rb_contents rb) \<longrightarrow> (\<exists>t. ringbuffer_commit_read_bytes malloc n rb = Success () t \<and>
      wf_rb t \<and> rb_contents t = drop n (rb_contents rb))) \<and>
    ringbuffer_used rb = length (rb_contents rb)"
  using ringbuffer_write_ok [OF assms(1,2) _ assms(4)] assms(3) ringbuffer_peek_ok [OF assms(1), of n]
    ringbuffer_commit_read_bytes_ok [OF assms(1,2), of n] length_rb_contents [OF assms(1)]
  by (auto simp: memory_available_def)

theorem ringbuffer_operations_witness:
  "\<exists>t. ringbuffer_write calloc [1, 2, 3, 4, 5] sample_rb = Success () t \<and> wf_rb t \<and>
     rb_contents t = [10, 11, 1, 2, 3, 4, 5]"
  using ringbuffer_operations [OF wf_sample_rb(1,3) memory_available_calloc, of "[1, 2, 3, 4, 5]" 2]
  unfolding wf_sample_rb(2) by simp

text \<open>
  C24: \<open>ringbuffer_ensure_linear_write\<close> keeps the contents and returns the offset of a contiguous region of the
  requested size inside the buffer that is free: there are as many free bytes, and whatever is stored in
  the region leaves the contents as they were. Committing the bytes stored there appends them to the
  contents; the buffer stays well-formed as long as it is not filled completely.
\<close>

theorem ringbuffer_linear_write:
  assumes "wf_rb rb" "malloc_spec malloc" "memory_available malloc"
    "rb_size rb + length xs + 32 \<le> 2 ^ 62"
  shows "\<exists>off t u. ringbuffer_ensure_linear_write malloc (length xs) rb = Success off t \<and> wf_rb t \<and>
    rb_contents t = rb_contents rb \<and> off + length xs \<le> rb_size t \<and> length xs \<le> rb_freeSize t \<and>
    rb_contents (t\<lparr>rb_buffer := overwrite (rb_buffer t) off xs\<rparr>) = rb_contents rb \<and>
    ringbuffer_commit_written_bytes (length xs) (t\<lparr>rb_buffer := overwrite (rb_buffer t) off xs\<rparr>) = Success () u \<and>
    rb_contents u = rb_contents rb @ xs \<and> (length xs < rb_freeSize t \<longrightarrow> wf_rb u)"
proof -
  obtain t where t: "ringbuffer_ensure_linear_write malloc (length xs) rb = Success (rb_writePtr t) t"
    "wf_rb t" "rb_contents t = rb_contents rb" "length xs \<le> rb_freeSize t" "rb_writePtr t + length xs \<le> rb_size t"
    using ringbuffer_ensure_linear_write_ok [OF assms] by blast
  note c = ringbuffer_commit_written_bytes_ok [OF t(2,4,5)]
  from c(2) obtain u where "ringbuffer_commit_written_bytes (length xs)
      (t\<lparr>rb_buffer := overwrite (rb_buffer t) (rb_writePtr t) xs\<rparr>) = Success () u"
    "rb_contents u = rb_contents t @ xs" "length xs < rb_freeSize t \<longrightarrow> wf_rb u" by blast
  with t c(1) show ?thesis by (intro exI conjI) auto
qed

theorem ringbuffer_linear_write_witness:
  "\<exists>off t u. ringbuffer_ensure_linear_write calloc (length [1, 2, 3 :: byte]) sample_rb = Success off t \<and>
     off + length [1, 2, 3 :: byte] \<le> rb_size t \<and> rb_contents (t\<lparr>rb_buffer := overwrite (rb_buffer t) off [1, 2, 3]\<rparr>) = [10, 11] \<and>
     ringbuffer_commit_written_bytes (length [1, 2, 3 :: byte]) (t\<lparr>rb_buffer := overwrite (rb_buffer t) off [1, 2, 3]\<rparr>) = Success () u \<and>
     rb_contents u = [10, 11, 1, 2, 3]"
proof -
  have "rb_size sample_rb + length [1, 2, 3 :: byte] + 32 \<le> 2 ^ 62" by simp
  from ringbuffer_linear_write [OF wf_sample_rb(1,3) memory_available_calloc this]
  show ?thesis unfolding wf_sample_rb(2) append.simps by blast
qed

text \<open>
  \<open>ringbuffer_ensure_linear_write\<close> makes room for \<open>sz\<close> bytes when its free space is less than that,
  so a buffer can be filled completely through \<open>ringbuffer_commit_written_bytes\<close>. The two offsets are
  then equal, which \<open>ringbuffer_realloc\<close> takes for an empty buffer: the next write loses all of it.
\<close>

abbreviation full_rb :: RingBuffer where
  "full_rb \<equiv> \<lparr>rb_initialSize = 4, rb_freeSize = 0, rb_size = 4, rb_readPtr = 0, rb_writePtr = 0,
     rb_buffer = [1, 2, 3, 4]\<rparr>"

theorem ringbuffer_linear_write_fills_and_loses:
  "(\<exists>t. ringbuffer_ensure_linear_write calloc 4 (full_rb\<lparr>rb_freeSize := 4\<rparr>) = Success 0 t \<and>
     ringbuffer_commit_written_bytes 4 t = Success () full_rb) \<and>
   rb_contents full_rb = [1, 2, 3, 4] \<and>
   (\<exists>t. ringbuffer_write calloc [5, 6] full_rb = Success () t \<and> rb_buffer t = [5, 6, 3, 4, 0, 0] \<and>
     rb_readPtr t = 0 \<and> rb_writePtr t = 2)"
  by (simp add: ringbuffer_ensure_linear_write_def ringbuffer_commit_written_bytes_def
      ringbuffer_write_def ringbuffer_realloc_def rb_realloc_def ringbuffer_used_def size_sub_def Let_def
      overwrite_def c_simps rb_contents_def ring_list_def upt_rec)

end
