(* ===== verification/Spec2Isabelle.thy ===== *)
theory Spec2Isabelle
  imports NegoServer Mcs Per Ber Tpkt WQueue WMessageQueue WStack WArrayList WHashTable WRingBuffer
begin

text \<open>
  A verification library for the core of kvm-server.
\<close>

end
